(* ===== verification/Keeper_Prelude.thy ===== *)
theory Keeper_Prelude
  imports Main "HOL-Library.Char_ord" "HOL-Library.List_Lexorder" "HOL-Library.Multiset"
begin

text \<open>
  Shared vocabulary of the development: the theorem collections, the Python string
  operations the source uses (decimal numerals, zero padding, \<open>join\<close>, \<open>split\<close>,
  \<open>strip\<close>, \<open>splitlines\<close>, \<open>str.isdigit\<close>, \<open>int\<close>), and generic lemmas on
  association lists, prefixes and the lexicographic order of strings.

  A Python \<open>str\<close> is a list of characters whose code points are below 256; the
  character classes below (white space, line boundaries, digits) are Python's on that
  range. Comparison of strings is the lexicographic order of \<open>List_Lexorder\<close> over
  \<open>Char_ord\<close>, which is Python's comparison by code point.
\<close>

named_theorems py_str_simps \<open>rewriting of the Python string operations\<close>

subsection \<open>Characters\<close>

definition code_pt :: "char \<Rightarrow> nat" where
  "code_pt c = of_char c"

definition is_space :: "char \<Rightarrow> bool" where
  "is_space c \<longleftrightarrow> code_pt c \<in> {9, 10, 11, 12, 13, 28, 29, 30, 31, 32, 133, 160}"

definition is_linebreak :: "char \<Rightarrow> bool" where
  "is_linebreak c \<longleftrightarrow> code_pt c \<in> {10, 11, 12, 13, 28, 29, 30, 133}"

definition is_ascii_digit :: "char \<Rightarrow> bool" where
  "is_ascii_digit c \<longleftrightarrow> 48 \<le> code_pt c \<and> code_pt c \<le> 57"

text \<open>\<open>str.isdigit\<close> also accepts the superscript digits, which \<open>int\<close> rejects.\<close>

definition is_py_digit :: "char \<Rightarrow> bool" where
  "is_py_digit c \<longleftrightarrow> is_ascii_digit c \<or> code_pt c \<in> {178, 179, 185}"

definition digit_char :: "nat \<Rightarrow> char" where
  "digit_char d = char_of (48 + d)"

definition digit_val :: "char \<Rightarrow> nat" where
  "digit_val c = code_pt c - 48"

lemma code_pt_digit_char: "d < 10 \<Longrightarrow> code_pt (digit_char d) = 48 + d"
  by (simp add: code_pt_def digit_char_def)

lemma digit_val_char [simp]: "d < 10 \<Longrightarrow> digit_val (digit_char d) = d"
  by (simp add: digit_val_def code_pt_digit_char)

lemma digit_char_less: "a < 10 \<Longrightarrow> b < 10 \<Longrightarrow> digit_char a < digit_char b \<longleftrightarrow> a < b"
  using code_pt_digit_char [of a] code_pt_digit_char [of b]
  by (simp add: less_char_def code_pt_def)

lemma digit_char_inj: "a < 10 \<Longrightarrow> b < 10 \<Longrightarrow> digit_char a = digit_char b \<longleftrightarrow> a = b"
  by (metis digit_val_char)

lemma is_ascii_digit_char [simp]: "d < 10 \<Longrightarrow> is_ascii_digit (digit_char d)"
  by (simp add: is_ascii_digit_def code_pt_digit_char)

lemma digit_char_not_space: "d < 10 \<Longrightarrow> \<not> is_space (digit_char d)"
  by (simp add: is_space_def code_pt_digit_char)

subsection \<open>Decimal numerals\<close>

fun str_nat :: "nat \<Rightarrow> string" where
  "str_nat n = (if n < 10 then [digit_char n] else str_nat (n div 10) @ [digit_char (n mod 10)])"

declare str_nat.simps [simp del]

definition str_int :: "int \<Rightarrow> string" where
  "str_int i = (if i < 0 then ''-'' @ str_nat (nat (- i)) else str_nat (nat i))"

fun nat_of_digits :: "nat \<Rightarrow> string \<Rightarrow> nat" where
  "nat_of_digits acc [] = acc"
| "nat_of_digits acc (c # cs) = nat_of_digits (10 * acc + digit_val c) cs"

lemma nat_of_digits_snoc: "nat_of_digits a (s @ [c]) = 10 * nat_of_digits a s + digit_val c"
  by (induction s arbitrary: a) auto

lemma str_nat_nonempty [simp]: "str_nat n \<noteq> []"
  by (subst str_nat.simps) simp

lemma str_nat_digits: "\<forall>c \<in> set (str_nat n). is_ascii_digit c"
proof (induction n rule: str_nat.induct)
  case (1 n)
  then show ?case by (subst str_nat.simps) auto
qed

lemma nat_of_digits_str_nat: "nat_of_digits 0 (str_nat n) = n"
proof (induction n rule: str_nat.induct)
  case (1 n)
  then show ?case
    by (cases "n < 10") (auto simp: str_nat.simps [of n] nat_of_digits_snoc)
qed

lemma str_nat_inj [simp]: "str_nat a = str_nat b \<longleftrightarrow> a = b"
  by (metis nat_of_digits_str_nat)

text \<open>\<open>n\<close> written with at least \<open>w\<close> digits, as the \<open>%m\<close>, \<open>%d\<close>, \<dots> of \<open>strftime\<close>.\<close>

definition zpad :: "nat \<Rightarrow> nat \<Rightarrow> string" where
  "zpad w n = replicate (w - length (str_nat n)) (digit_char 0) @ str_nat n"

text \<open>The last \<open>w\<close> decimal digits of \<open>n\<close>; it agrees with \<open>zpad\<close> below \<open>10 ^ w\<close>.\<close>

fun digits_w :: "nat \<Rightarrow> nat \<Rightarrow> string" where
  "digits_w 0 n = []"
| "digits_w (Suc w) n = digits_w w (n div 10) @ [digit_char (n mod 10)]"

lemma length_digits_w [simp]: "length (digits_w w n) = w"
  by (induction w arbitrary: n) auto

lemma digits_w_0: "digits_w w 0 = replicate w (digit_char 0)"
  by (induction w) (auto simp: replicate_append_same)

lemma zpad_eq_digits_w: "n < 10 ^ w \<Longrightarrow> 0 < w \<Longrightarrow> zpad w n = digits_w w n"
proof (induction w arbitrary: n)
  case 0
  then show ?case by simp
next
  case (Suc w)
  show ?case
  proof (cases "n < 10")
    case True
    then show ?thesis
      by (simp add: zpad_def str_nat.simps [of n] digits_w_0)
  next
    case False
    with Suc.prems have w: "0 < w" by (cases w) auto
    from Suc.prems have "n div 10 < 10 ^ w" by (simp add: less_mult_imp_div_less mult.commute)
    with Suc.IH w have IH: "zpad w (n div 10) = digits_w w (n div 10)" by blast
    have "zpad (Suc w) n = zpad w (n div 10) @ [digit_char (n mod 10)]"
      using False by (simp add: zpad_def str_nat.simps [of n])
    with IH show ?thesis by simp
  qed
qed

subsection \<open>Lexicographic order\<close>

lemma append_less_same_length:
  fixes xs ys :: "'a::linorder list"
  shows "length xs = length ys \<Longrightarrow> xs @ as < ys @ bs \<longleftrightarrow> xs < ys \<or> xs = ys \<and> as < bs"
proof (induction xs ys rule: list_induct2)
  case Nil
  then show ?case by simp
next
  case (Cons x xs y ys)
  then show ?case by auto
qed

lemma append_less_left [simp]:
  fixes xs :: "'a::linorder list"
  shows "xs @ as < xs @ bs \<longleftrightarrow> as < bs"
  by (simp add: append_less_same_length)

lemma eq_iff_not_less: "(x::'a::linorder) = y \<longleftrightarrow> \<not> x < y \<and> \<not> y < x"
  by auto

lemma digits_w_less:
  "a < 10 ^ w \<Longrightarrow> b < 10 ^ w \<Longrightarrow> digits_w w a < digits_w w b \<longleftrightarrow> a < b"
proof (induction w arbitrary: a b)
  case 0
  then show ?case by simp
next
  case (Suc w)
  then have ab: "a div 10 < 10 ^ w" "b div 10 < 10 ^ w"
    by (simp_all add: less_mult_imp_div_less mult.commute)
  have less: "digits_w w (a div 10) < digits_w w (b div 10) \<longleftrightarrow> a div 10 < b div 10"
    and less': "digits_w w (b div 10) < digits_w w (a div 10) \<longleftrightarrow> b div 10 < a div 10"
    using Suc.IH ab by blast+
  then have eq: "digits_w w (a div 10) = digits_w w (b div 10) \<longleftrightarrow> a div 10 = b div 10"
    by (simp only: eq_iff_not_less [of "digits_w w (a div 10)"] eq_iff_not_less [of "a div 10"])
  have "a = 10 * (a div 10) + a mod 10" "b = 10 * (b div 10) + b mod 10"
    "a mod 10 < 10" "b mod 10 < 10" by simp_all
  then have "a < b \<longleftrightarrow> a div 10 < b div 10 \<or> a div 10 = b div 10 \<and> a mod 10 < b mod 10"
    by linarith
  then show ?case
    using less eq by (simp add: append_less_same_length digit_char_less)
qed

lemma zpad_less:
  "a < 10 ^ w \<Longrightarrow> b < 10 ^ w \<Longrightarrow> 0 < w \<Longrightarrow> zpad w a < zpad w b \<longleftrightarrow> a < b"
  by (simp add: zpad_eq_digits_w digits_w_less)

lemma zpad_inj: "a < 10 ^ w \<Longrightarrow> b < 10 ^ w \<Longrightarrow> 0 < w \<Longrightarrow> zpad w a = zpad w b \<longleftrightarrow> a = b"
  by (metis less_irrefl linorder_neqE_nat zpad_less)

lemma length_zpad: "n < 10 ^ w \<Longrightarrow> 0 < w \<Longrightarrow> length (zpad w n) = w"
  by (simp add: zpad_eq_digits_w)

lemma zpad_digits: "\<forall>c \<in> set (zpad w n). is_ascii_digit c"
  using str_nat_digits [of n] by (auto simp: zpad_def)

lemma str_nat_zpad4: "1000 \<le> n \<Longrightarrow> n < 10000 \<Longrightarrow> str_nat n = zpad 4 n"
proof -
  assume n: "1000 \<le> n" "n < 10000"
  then have "length (str_nat n) = 4"
    by (simp add: str_nat.simps [of n] str_nat.simps [of "n div 10"]
        str_nat.simps [of "n div 100"] str_nat.simps [of "n div 1000"] div_mult2_eq [symmetric]
        less_mult_imp_div_less not_less less_eq_div_iff_mult_less_eq)
  then show ?thesis by (simp add: zpad_def)
qed

lemma append_eq_same_length:
  "length xs = length ys \<Longrightarrow> xs @ as = ys @ bs \<longleftrightarrow> xs = ys \<and> as = bs"
  by simp

subsection \<open>Association lists and prefixes\<close>

text \<open>
  Filtering or inserting by key alone acts on the lookup pointwise, whatever the order
  or the repetitions of the list.
\<close>

lemma map_of_filter_key [simp]:
  "map_of (filter (\<lambda>kv. P (fst kv)) xs) k = (if P k then map_of xs k else None)"
  by (induction xs) auto

lemma map_of_append_key: "map_of (xs @ [(k, v)]) j = (case map_of xs j of None \<Rightarrow> if j = k then Some v else None | Some w \<Rightarrow> Some w)"
  by (induction xs) auto

definition is_prefix :: "'a list \<Rightarrow> 'a list \<Rightarrow> bool" where
  "is_prefix p q \<longleftrightarrow> take (length p) q = p"

lemma is_prefix_iff: "is_prefix p q \<longleftrightarrow> (\<exists>r. q = p @ r)"
  unfolding is_prefix_def by (metis append_eq_conv_conj append_take_drop_id)

lemma is_prefix_refl [simp]: "is_prefix p p"
  by (simp add: is_prefix_def)

lemma is_prefix_append [simp]: "is_prefix p (p @ r)"
  by (simp add: is_prefix_def)

lemma is_prefix_Nil [simp]: "is_prefix [] q"
  by (simp add: is_prefix_def)

lemma is_prefix_trans: "is_prefix p q \<Longrightarrow> is_prefix q r \<Longrightarrow> is_prefix p r"
  by (auto simp: is_prefix_iff)

lemma is_prefix_append_same [simp]: "is_prefix (p @ q) (p @ r) \<longleftrightarrow> is_prefix q r"
  by (auto simp: is_prefix_iff)

lemma is_prefix_Cons [simp]: "is_prefix (x # p) (y # q) \<longleftrightarrow> x = y \<and> is_prefix p q"
  by (auto simp: is_prefix_iff)

lemma is_prefix_Cons_Nil [simp]: "\<not> is_prefix (x # p) []"
  by (auto simp: is_prefix_iff)

lemma is_prefix_antisym: "is_prefix p q \<Longrightarrow> is_prefix q p \<Longrightarrow> p = q"
  by (auto simp: is_prefix_iff)

lemma is_prefix_length: "is_prefix p q \<Longrightarrow> length p \<le> length q"
  by (auto simp: is_prefix_iff)

text \<open>Two children of one directory have no descendant in common.\<close>

lemma is_prefix_siblings: "a \<noteq> b \<Longrightarrow> is_prefix (d @ [a]) q \<Longrightarrow> \<not> is_prefix (d @ [b]) q"
  by (auto simp: is_prefix_iff)

definition ends_with :: "string \<Rightarrow> string \<Rightarrow> bool" where
  "ends_with suf s \<longleftrightarrow> length suf \<le> length s \<and> drop (length s - length suf) s = suf"

lemma ends_with_iff: "ends_with suf s \<longleftrightarrow> (\<exists>p. s = p @ suf)"
  unfolding ends_with_def
proof
  assume "length suf \<le> length s \<and> drop (length s - length suf) s = suf"
  then show "\<exists>p. s = p @ suf" by (metis append_take_drop_id)
qed auto

definition starts_with :: "string \<Rightarrow> string \<Rightarrow> bool" where
  "starts_with pre s \<longleftrightarrow> take (length pre) s = pre"

lemma starts_with_iff: "starts_with pre s \<longleftrightarrow> (\<exists>r. s = pre @ r)"
  unfolding starts_with_def by (metis append_eq_conv_conj append_take_drop_id)

lemma starts_with_append [simp]: "starts_with pre (pre @ r)"
  by (simp add: starts_with_iff)

text \<open>\<open>s[:-len(suf)]\<close>, which is taken where \<open>s\<close> ends with \<open>suf\<close>.\<close>

definition drop_end :: "nat \<Rightarrow> 'a list \<Rightarrow> 'a list" where
  "drop_end n s = take (length s - n) s"

lemma drop_end_append [simp]: "drop_end (length suf) (p @ suf) = p"
  by (simp add: drop_end_def)

subsection \<open>Python sequence operations\<close>

text \<open>\<open>xs[:k]\<close> and \<open>xs[k:]\<close> with Python's reading of a negative \<open>k\<close>.\<close>

definition py_take :: "int \<Rightarrow> 'a list \<Rightarrow> 'a list" where
  "py_take k xs = (if 0 \<le> k then take (nat k) xs else take (length xs - nat (- k)) xs)"

definition py_drop :: "int \<Rightarrow> 'a list \<Rightarrow> 'a list" where
  "py_drop k xs = (if 0 \<le> k then drop (nat k) xs else drop (length xs - nat (- k)) xs)"

lemma py_take_drop [simp]: "py_take k xs @ py_drop k xs = xs"
  by (simp add: py_take_def py_drop_def)

text \<open>
  \<open>sorted(xs, key=f, reverse=True)\<close>: descending and stable (Python reverses, sorts
  stably, and reverses back).
\<close>

definition py_sorted_rev :: "('a \<Rightarrow> 'k::linorder) \<Rightarrow> 'a list \<Rightarrow> 'a list" where
  "py_sorted_rev f xs = rev (sort_key f (rev xs))"

lemma mset_py_sorted_rev [simp]: "mset (py_sorted_rev f xs) = mset xs"
  by (simp add: py_sorted_rev_def)

lemma set_py_sorted_rev [simp]: "set (py_sorted_rev f xs) = set xs"
  by (simp add: py_sorted_rev_def)

lemma length_py_sorted_rev [simp]: "length (py_sorted_rev f xs) = length xs"
  by (simp add: py_sorted_rev_def)

lemma sorted_py_sorted_rev: "sorted (rev (map f (py_sorted_rev f xs)))"
  by (simp add: py_sorted_rev_def rev_map)

lemma sorted_rev_take_drop:
  assumes "sorted (rev (map f xs))" "a \<in> set (take k xs)" "b \<in> set (drop k xs)"
  shows "f b \<le> f a"
proof -
  have "rev (map f xs) = rev (map f (drop k xs)) @ rev (map f (take k xs))"
    by (metis append_take_drop_id map_append rev_append)
  with assms(1) have "sorted (rev (map f (drop k xs)) @ rev (map f (take k xs)))"
    by simp
  with assms(2,3) show ?thesis by (auto simp: sorted_append)
qed

fun py_join :: "string \<Rightarrow> string list \<Rightarrow> string" where
  "py_join sep [] = []"
| "py_join sep [x] = x"
| "py_join sep (x # y # ys) = x @ sep @ py_join sep (y # ys)"

text \<open>\<open>s.split(c)\<close> for a one-character separator: empty fields are kept.\<close>

fun py_split :: "char \<Rightarrow> string \<Rightarrow> string list" where
  "py_split c [] = [[]]"
| "py_split c (x # xs) =
     (if x = c then [] # py_split c xs
      else case py_split c xs of [] \<Rightarrow> [[x]] | f # fs \<Rightarrow> (x # f) # fs)"

lemma py_split_nonempty [simp]: "py_split c s \<noteq> []"
  by (induction s) (auto split: list.splits)

lemma py_split_no_sep: "c \<notin> set s \<Longrightarrow> py_split c s = [s]"
  by (induction s) auto

lemma py_split_append:
  "c \<notin> set s \<Longrightarrow> py_split c (s @ c # t) = s # py_split c t"
  by (induction s) auto

text \<open>\<open>s.strip()\<close>.\<close>

definition py_strip :: "string \<Rightarrow> string" where
  "py_strip s = rev (dropWhile is_space (rev (dropWhile is_space s)))"

lemma py_strip_id: "(\<forall>c \<in> set s. \<not> is_space c) \<Longrightarrow> py_strip s = s"
proof -
  assume *: "\<forall>c \<in> set s. \<not> is_space c"
  then have "dropWhile is_space s = s" by (cases s) auto
  moreover from * have "dropWhile is_space (rev s) = rev s" by (cases "rev s") (auto simp: dropWhile_eq_self_iff)
  ultimately show ?thesis by (simp add: py_strip_def)
qed

text \<open>
  \<open>s.splitlines()\<close>: a line ends at a line boundary character or at the pair CR LF;
  no empty last line.
\<close>

fun split_lines :: "bool \<Rightarrow> string \<Rightarrow> string \<Rightarrow> string list" where
  "split_lines cr cur [] = (if cur = [] then [] else [rev cur])"
| "split_lines cr cur (c # cs) =
     (if cr \<and> code_pt c = 10 then split_lines False cur cs
      else if is_linebreak c then rev cur # split_lines (code_pt c = 13) [] cs
      else split_lines False (c # cur) cs)"

definition py_splitlines :: "string \<Rightarrow> string list" where
  "py_splitlines s = split_lines False [] s"

text \<open>
  \<open>int(s)\<close> for a string: surrounding white space, one sign, digits with single
  underscores between them; \<open>None\<close> stands for the ValueError.
\<close>

fun int_digits :: "bool \<Rightarrow> nat \<Rightarrow> string \<Rightarrow> nat option" where
  "int_digits prev acc [] = (if prev then Some acc else None)"
| "int_digits prev acc (c # cs) =
     (if is_ascii_digit c then int_digits True (10 * acc + digit_val c) cs
      else if c = CHR ''_'' \<and> prev then int_digits False acc cs
      else None)"

definition py_int :: "string \<Rightarrow> int option" where
  "py_int s = (case py_strip s of
       [] \<Rightarrow> None
     | c # cs \<Rightarrow>
         if c = CHR ''-'' then map_option (\<lambda>n. - int n) (int_digits False 0 cs)
         else if c = CHR ''+'' then map_option int (int_digits False 0 cs)
         else map_option int (int_digits False 0 (c # cs)))"

lemma int_digits_digits:
  "(\<forall>c \<in> set s. is_ascii_digit c) \<Longrightarrow> s \<noteq> [] \<or> p \<Longrightarrow> int_digits p a s = Some (nat_of_digits a s)"
  by (induction s arbitrary: a p) auto

lemma ascii_digit_not_space: "is_ascii_digit c \<Longrightarrow> \<not> is_space c"
  by (auto simp: is_ascii_digit_def is_space_def)

lemma ascii_digit_not_sign: "is_ascii_digit c \<Longrightarrow> c \<noteq> CHR ''-'' \<and> c \<noteq> CHR ''+''"
  by (auto simp: is_ascii_digit_def code_pt_def)

lemma py_int_digits:
  assumes "\<forall>c \<in> set s. is_ascii_digit c" "s \<noteq> []"
  shows "py_int s = Some (int (nat_of_digits 0 s))"
proof -
  from assms(1) have "py_strip s = s"
    by (intro py_strip_id) (auto dest: ascii_digit_not_space)
  moreover from assms obtain c cs where "s = c # cs" "is_ascii_digit c" by (cases s) auto
  ultimately show ?thesis
    using assms ascii_digit_not_sign [of c] int_digits_digits [of s False 0]
    by (simp add: py_int_def)
qed

lemma py_int_str_nat [simp]: "py_int (str_nat n) = Some (int n)"
  by (simp add: py_int_digits str_nat_digits nat_of_digits_str_nat)

lemma minus_not_space: "\<not> is_space (CHR ''-'')"
  by (simp add: is_space_def code_pt_def)

lemma py_int_str_int: "py_int (str_int i) = Some i"
proof (cases "i < 0")
  case True
  have "py_strip (''-'' @ str_nat (nat (- i))) = ''-'' @ str_nat (nat (- i))"
    using str_nat_digits [of "nat (- i)"]
    by (intro py_strip_id) (auto dest: ascii_digit_not_space simp: minus_not_space)
  with True show ?thesis
    by (simp add: str_int_def py_int_def int_digits_digits str_nat_digits nat_of_digits_str_nat)
next
  case False
  then show ?thesis by (simp add: str_int_def)
qed

definition py_isdigit :: "string \<Rightarrow> bool" where
  "py_isdigit s \<longleftrightarrow> s \<noteq> [] \<and> (\<forall>c \<in> set s. is_py_digit c)"

end
