(* ===== verification/Py_Values.thy ===== *)
theory Py_Values
  imports Keeper_Prelude
begin

text \<open>
  The values a parsed TOML document holds, as Python sees them: \<open>isinstance\<close>, \<open>==\<close>
  against the constants the program compares with, truthiness, \<open>str\<close> and \<open>repr\<close>.
  A float carries its value (a mantissa times a power of two, an infinity or NaN) and the
  text of its \<open>repr\<close>, because shortest-decimal printing belongs to the runtime; a date
  or time carries the texts of its \<open>str\<close> and \<open>repr\<close>.
\<close>

datatype pyfloat = FNum int int | FInf bool | FNan

datatype pyval =
    PStr string
  | PInt int
  | PBool bool
  | PFloat pyfloat string
  | PDate string string
  | PList "pyval list"
  | PDict "(string \<times> pyval) list"

type_synonym pydict = "(string \<times> pyval) list"

subsection \<open>isinstance\<close>

fun is_str :: "pyval \<Rightarrow> bool" where
  "is_str (PStr s) = True"
| "is_str _ = False"

text \<open>\<open>bool\<close> is a subclass of \<open>int\<close>.\<close>

fun is_int :: "pyval \<Rightarrow> bool" where
  "is_int (PInt i) = True"
| "is_int (PBool b) = True"
| "is_int _ = False"

fun is_bool :: "pyval \<Rightarrow> bool" where
  "is_bool (PBool b) = True"
| "is_bool _ = False"

fun is_list :: "pyval \<Rightarrow> bool" where
  "is_list (PList xs) = True"
| "is_list _ = False"

fun is_dict :: "pyval \<Rightarrow> bool" where
  "is_dict (PDict kvs) = True"
| "is_dict _ = False"

text \<open>Projections, used only after the matching \<open>isinstance\<close> test.\<close>

fun as_str :: "pyval \<Rightarrow> string" where
  "as_str (PStr s) = s"
| "as_str _ = []"

fun as_int :: "pyval \<Rightarrow> int" where
  "as_int (PInt i) = i"
| "as_int (PBool b) = (if b then 1 else 0)"
| "as_int _ = 0"

fun as_bool :: "pyval \<Rightarrow> bool" where
  "as_bool (PBool b) = b"
| "as_bool _ = False"

fun as_list :: "pyval \<Rightarrow> pyval list" where
  "as_list (PList xs) = xs"
| "as_list _ = []"

fun as_dict :: "pyval \<Rightarrow> pydict" where
  "as_dict (PDict kvs) = kvs"
| "as_dict _ = []"

lemma is_str_conv: "is_str v \<longleftrightarrow> (\<exists>s. v = PStr s)"
  by (cases v) auto

lemma is_dict_conv: "is_dict v \<longleftrightarrow> (\<exists>d. v = PDict d)"
  by (cases v) auto

lemma is_list_conv: "is_list v \<longleftrightarrow> (\<exists>xs. v = PList xs)"
  by (cases v) auto

lemma is_bool_conv: "is_bool v \<longleftrightarrow> (\<exists>b. v = PBool b)"
  by (cases v) auto

lemma is_proper_int_conv: "is_int v \<and> \<not> is_bool v \<longleftrightarrow> (\<exists>i. v = PInt i)"
  by (cases v) auto

subsection \<open>Equality with a constant, truthiness\<close>

fun float_eq_int :: "pyfloat \<Rightarrow> int \<Rightarrow> bool" where
  "float_eq_int (FNum m e) n = (if 0 \<le> e then m * 2 ^ nat e = n else m = n * 2 ^ nat (- e))"
| "float_eq_int (FInf _) n = False"
| "float_eq_int FNan n = False"

text \<open>\<open>v == n\<close>: numbers compare by value across \<open>int\<close>, \<open>bool\<close> and \<open>float\<close>.\<close>

fun py_eq_int :: "pyval \<Rightarrow> int \<Rightarrow> bool" where
  "py_eq_int (PInt i) n = (i = n)"
| "py_eq_int (PBool b) n = ((if b then 1 else 0) = n)"
| "py_eq_int (PFloat f _) n = float_eq_int f n"
| "py_eq_int _ n = False"

text \<open>\<open>v in strs\<close> for a tuple of strings.\<close>

definition py_in_strs :: "pyval \<Rightarrow> string list \<Rightarrow> bool" where
  "py_in_strs v ss \<longleftrightarrow> is_str v \<and> as_str v \<in> set ss"

fun truthy :: "pyval \<Rightarrow> bool" where
  "truthy (PStr s) = (s \<noteq> [])"
| "truthy (PInt i) = (i \<noteq> 0)"
| "truthy (PBool b) = b"
| "truthy (PFloat f _) = (\<not> float_eq_int f 0)"
| "truthy (PDate _ _) = True"
| "truthy (PList xs) = (xs \<noteq> [])"
| "truthy (PDict kvs) = (kvs \<noteq> [])"

subsection \<open>repr and str\<close>

definition hex_digit :: "nat \<Rightarrow> char" where
  "hex_digit d = (if d < 10 then char_of (48 + d) else char_of (87 + d))"

definition repr_char :: "char \<Rightarrow> char \<Rightarrow> string" where
  "repr_char q c =
     (let n = code_pt c in
      if c = CHR 0x5C \<or> c = q then [CHR 0x5C, c]
      else if n = 9 then [CHR 0x5C, CHR ''t'']
      else if n = 10 then [CHR 0x5C, CHR ''n'']
      else if n = 13 then [CHR 0x5C, CHR ''r'']
      else if n < 32 \<or> (127 \<le> n \<and> n \<le> 160) \<or> n = 173
        then [CHR 0x5C, CHR ''x'', hex_digit (n div 16), hex_digit (n mod 16)]
      else [c])"

definition repr_str :: "string \<Rightarrow> string" where
  "repr_str s =
     (let q = (if CHR 0x27 \<in> set s \<and> CHR 0x22 \<notin> set s then CHR 0x22 else CHR 0x27)
      in [q] @ concat (map (repr_char q) s) @ [q])"

definition repr_str_tuple :: "string list \<Rightarrow> string" where
  "repr_str_tuple ss =
     ''('' @ py_join '', '' (map repr_str ss) @ (if length ss = 1 then '','' else []) @ '')''"

fun py_repr :: "pyval \<Rightarrow> string" where
  "py_repr (PStr s) = repr_str s"
| "py_repr (PInt i) = str_int i"
| "py_repr (PBool b) = (if b then ''True'' else ''False'')"
| "py_repr (PFloat _ r) = r"
| "py_repr (PDate _ r) = r"
| "py_repr (PList xs) = ''['' @ py_join '', '' (map py_repr xs) @ '']''"
| "py_repr (PDict kvs) =
     ''{'' @ py_join '', '' (map (\<lambda>(k, v). repr_str k @ '': '' @ py_repr v) kvs) @ ''}''"

fun py_str :: "pyval \<Rightarrow> string" where
  "py_str (PStr s) = s"
| "py_str (PDate s _) = s"
| "py_str v = py_repr v"

text \<open>
  \<open>tuple(v)\<close>: the elements of a list, the characters of a string, the keys of a
  dictionary; \<open>None\<close> is the TypeError of a value that is not iterable.
\<close>

fun py_tuple :: "pyval \<Rightarrow> pyval list option" where
  "py_tuple (PList xs) = Some xs"
| "py_tuple (PStr s) = Some (map (\<lambda>c. PStr [c]) s)"
| "py_tuple (PDict kvs) = Some (map (\<lambda>(k, _). PStr k) kvs)"
| "py_tuple _ = None"

text \<open>\<open>d.get(k)\<close> and \<open>d.get(k, v)\<close>.\<close>

definition dict_get :: "pydict \<Rightarrow> string \<Rightarrow> pyval option" where
  "dict_get d k = map_of d k"

definition dict_get_or :: "pydict \<Rightarrow> string \<Rightarrow> pyval \<Rightarrow> pyval" where
  "dict_get_or d k v = (case map_of d k of None \<Rightarrow> v | Some w \<Rightarrow> w)"

end
