(* ===== verification/Keeper_Errors.thy ===== *)
theory Keeper_Errors
  imports Py_Values
begin

text \<open>
  \<open>exit_codes.py\<close> and \<open>errors.py\<close>: the process exit codes, the exception hierarchy
  and the exit code each class carries, together with the built-in exceptions that the
  program raises or lets through.
\<close>

subsection \<open>Exit codes\<close>

datatype exit_code =
    SUCCESS | INTERNAL_ERROR | USAGE_ERROR | CONFIG_ERROR | LOCKED | PRECONDITION_FAILED
  | BACKUP_FAILED | ALL_DESTINATIONS_FAILED | PARTIAL_DESTINATION_FAILURE | PURGE_FAILED

fun exit_int :: "exit_code \<Rightarrow> int" where
  "exit_int SUCCESS = 0"
| "exit_int INTERNAL_ERROR = 1"
| "exit_int USAGE_ERROR = 2"
| "exit_int CONFIG_ERROR = 3"
| "exit_int LOCKED = 4"
| "exit_int PRECONDITION_FAILED = 5"
| "exit_int BACKUP_FAILED = 6"
| "exit_int ALL_DESTINATIONS_FAILED = 7"
| "exit_int PARTIAL_DESTINATION_FAILURE = 8"
| "exit_int PURGE_FAILED = 9"

lemma exit_int_inj [simp]: "exit_int a = exit_int b \<longleftrightarrow> a = b"
  by (cases a; cases b) simp_all

subsection \<open>Exceptions\<close>

text \<open>
  The five subclasses of \<open>KeeperError\<close> first (the base class itself is never raised),
  then built-in exceptions. \<open>Killed\<close> is the death of the process at that point; no
  handler of the program sees it.
\<close>

datatype exn =
    ConfigError string
  | LockError string
  | PreconditionError string
  | BackupError string
  | DestinationError string
  | OSError string
  | SubprocessError string
  | ValueError string
  | TypeError string
  | OverflowError string
  | IndexError string
  | KeyError string
  | UnicodeDecodeError string
  | JSONDecodeError string
  | AttributeError string
  | AssertionError
  | Killed

definition is_keeper_error :: "exn \<Rightarrow> bool" where
  "is_keeper_error e \<longleftrightarrow> (case e of
       ConfigError _ \<Rightarrow> True | LockError _ \<Rightarrow> True | PreconditionError _ \<Rightarrow> True
     | BackupError _ \<Rightarrow> True | DestinationError _ \<Rightarrow> True | _ \<Rightarrow> False)"

text \<open>The class attribute \<open>exit_code\<close> of a \<open>KeeperError\<close>.\<close>

definition exn_exit_code :: "exn \<Rightarrow> exit_code" where
  "exn_exit_code e = (case e of
       ConfigError _ \<Rightarrow> CONFIG_ERROR
     | LockError _ \<Rightarrow> LOCKED
     | PreconditionError _ \<Rightarrow> PRECONDITION_FAILED
     | BackupError _ \<Rightarrow> BACKUP_FAILED
     | DestinationError _ \<Rightarrow> ALL_DESTINATIONS_FAILED
     | _ \<Rightarrow> INTERNAL_ERROR)"

text \<open>\<open>str(exc)\<close>.\<close>

fun exn_msg :: "exn \<Rightarrow> string" where
  "exn_msg (ConfigError m) = m"
| "exn_msg (LockError m) = m"
| "exn_msg (PreconditionError m) = m"
| "exn_msg (BackupError m) = m"
| "exn_msg (DestinationError m) = m"
| "exn_msg (OSError m) = m"
| "exn_msg (SubprocessError m) = m"
| "exn_msg (ValueError m) = m"
| "exn_msg (TypeError m) = m"
| "exn_msg (OverflowError m) = m"
| "exn_msg (IndexError m) = m"
| "exn_msg (KeyError m) = m"
| "exn_msg (UnicodeDecodeError m) = m"
| "exn_msg (JSONDecodeError m) = m"
| "exn_msg (AttributeError m) = m"
| "exn_msg AssertionError = []"
| "exn_msg Killed = []"

lemma exn_exit_code_not_success: "exn_exit_code e \<noteq> SUCCESS"
  by (cases e) (simp_all add: exn_exit_code_def)

lemma keeper_exit_code_not_internal: "is_keeper_error e \<Longrightarrow> exn_exit_code e \<noteq> INTERNAL_ERROR"
  by (cases e) (simp_all add: exn_exit_code_def is_keeper_error_def)

end
