(* ===== verification/Py_Datetime.thy ===== *)
theory Py_Datetime
  imports Keeper_Errors
begin

text \<open>
  The part of Python's \<open>datetime\<close> the program uses. A \<open>datetime\<close> is a wall-clock
  reading, in microseconds since 0001-01-01T00:00:00, with an optional UTC offset
  (\<open>None\<close>: naive). The calendar is the proleptic Gregorian one: a day number splits
  into a 400-year cycle, a year of the cycle and a month of the year by running along a
  table of lengths (\<open>locate\<close>).
\<close>

record datetime =
  dt_wall :: int
  dt_off :: "int option"

subsection \<open>Locating a number in a table of lengths\<close>

fun locate :: "nat list \<Rightarrow> nat \<Rightarrow> nat \<times> nat" where
  "locate [] n = (0, n)"
| "locate (l # ls) n = (if n < l then (0, n) else (let (i, r) = locate ls (n - l) in (Suc i, r)))"

definition lex2 :: "nat \<times> nat \<Rightarrow> nat \<times> nat \<Rightarrow> bool" where
  "lex2 p q \<longleftrightarrow> fst p < fst q \<or> fst p = fst q \<and> snd p < snd q"

lemma locate_index: "n < sum_list ls \<Longrightarrow> fst (locate ls n) < length ls"
proof (induction ls arbitrary: n)
  case (Cons l ls)
  show ?case
  proof (cases "n < l")
    case False
    with Cons.prems have "n - l < sum_list ls" by simp
    from Cons.IH [OF this] False show ?thesis by (auto split: prod.splits)
  qed simp
qed simp

lemma locate_rest: "n < sum_list ls \<Longrightarrow> snd (locate ls n) < ls ! fst (locate ls n)"
proof (induction ls arbitrary: n)
  case (Cons l ls)
  show ?case
  proof (cases "n < l")
    case False
    with Cons.prems have "n - l < sum_list ls" by simp
    from Cons.IH [OF this] False show ?thesis by (auto split: prod.splits)
  qed simp
qed simp

lemma locate_mono: "m < n \<Longrightarrow> n < sum_list ls \<Longrightarrow> lex2 (locate ls m) (locate ls n)"
proof (induction ls arbitrary: m n)
  case (Cons l ls)
  show ?case
  proof (cases "m < l")
    case True
    with Cons.prems show ?thesis by (auto simp: lex2_def split: prod.splits)
  next
    case False
    with Cons.prems have "m - l < n - l" "n - l < sum_list ls" by auto
    from Cons.IH [OF this] False Cons.prems show ?thesis
      by (auto simp: lex2_def split: prod.splits)
  qed
qed simp

subsection \<open>The calendar\<close>

definition is_leap :: "nat \<Rightarrow> bool" where
  "is_leap y \<longleftrightarrow> y mod 4 = 0 \<and> (y mod 100 \<noteq> 0 \<or> y mod 400 = 0)"

definition year_days :: "nat \<Rightarrow> nat" where
  "year_days y = (if is_leap y then 366 else 365)"

definition month_days :: "nat \<Rightarrow> nat list" where
  "month_days y = [31, if is_leap y then 29 else 28, 31, 30, 31, 30, 31, 31, 30, 31, 30, 31]"

definition cycle_years :: "nat list" where
  "cycle_years = map year_days [1..<401]"

text \<open>Year, month and day (from 1) of the day number counted from 0001-01-01 as 0.\<close>

definition ymd_of_days :: "nat \<Rightarrow> nat \<times> nat \<times> nat" where
  "ymd_of_days n =
     (let (i, doy) = locate cycle_years (n mod 146097);
          y = 400 * (n div 146097) + Suc i;
          (m, d) = locate (month_days y) doy
      in (y, Suc m, Suc d))"

lemma cycle_years_head: "cycle_years = 365 # map year_days [2..<401]"
proof -
  have "[1..<401] = 1 # [2..<401::nat]" by (simp add: upt_conv_Cons)
  then show ?thesis by (simp add: cycle_years_def year_days_def is_leap_def)
qed

text \<open>A shortcut for evaluation.\<close>

lemma ymd_of_days_january [code]:
  "ymd_of_days n = (if n < 31 then (1, 1, Suc n) else
     (let (i, doy) = locate cycle_years (n mod 146097);
          y = 400 * (n div 146097) + Suc i;
          (m, d) = locate (month_days y) doy
      in (y, Suc m, Suc d)))"
proof (cases "n < 31")
  case True
  then have "locate cycle_years n = (0, n)" by (simp add: cycle_years_head)
  moreover have "locate (month_days (Suc 0)) n = (0, n)" using True by (simp add: month_days_def)
  ultimately show ?thesis using True by (simp add: ymd_of_days_def)
qed (simp add: ymd_of_days_def)

lemma sum_month_days: "sum_list (month_days y) = year_days y"
  by (simp add: month_days_def year_days_def)

lemma sum_cycle_years: "sum_list cycle_years = 146097"
  unfolding cycle_years_def
  by (simp add: year_days_def is_leap_def upt_rec [of 1] del: One_nat_def)

lemma length_cycle_years: "length cycle_years = 400"
  by (simp add: cycle_years_def)

lemma cycle_years_nth: "i < 400 \<Longrightarrow> cycle_years ! i = year_days (Suc i)"
  by (simp add: cycle_years_def)

lemma is_leap_cycle: "is_leap (400 * q + y) = is_leap y"
proof -
  have "(4 * (100 * q) + y) mod 4 = y mod 4" "(100 * (4 * q) + y) mod 100 = y mod 100"
    "(400 * q + y) mod 400 = y mod 400"
    by (simp_all only: mod_mult_self4 mod_mult_self3)
  then show ?thesis by (simp add: is_leap_def)
qed

lemma year_days_cycle: "year_days (400 * q + y) = year_days y"
  by (simp only: year_days_def is_leap_cycle)

text \<open>The shape of a date and the order of dates.\<close>

lemma ymd_cases:
  obtains i doy m d where
    "locate cycle_years (n mod 146097) = (i, doy)" "i < 400" "doy < year_days (Suc i)"
    "locate (month_days (400 * (n div 146097) + Suc i)) doy = (m, d)"
    "m < 12" "d < 31"
    "ymd_of_days n = (400 * (n div 146097) + Suc i, Suc m, Suc d)"
proof -
  obtain i doy where 1: "locate cycle_years (n mod 146097) = (i, doy)" by fastforce
  have lt: "n mod 146097 < sum_list cycle_years" by (simp add: sum_cycle_years)
  from locate_index [OF lt] 1 have i: "i < 400" by (simp add: length_cycle_years)
  from locate_rest [OF lt] 1 i have doy: "doy < year_days (Suc i)" by (simp add: cycle_years_nth)
  let ?y = "400 * (n div 146097) + Suc i"
  obtain m d where 2: "locate (month_days ?y) doy = (m, d)" by fastforce
  from doy have lt': "doy < sum_list (month_days ?y)" by (simp only: sum_month_days year_days_cycle)
  from locate_index [OF lt'] 2 have m: "m < 12" by (simp add: month_days_def)
  have "month_days ?y ! m \<in> set (month_days ?y)"
    using m by (intro nth_mem) (simp add: month_days_def)
  then have "month_days ?y ! m \<le> 31" by (auto simp: month_days_def split: if_splits)
  with locate_rest [OF lt'] 2 have "d < 31" by simp
  with 1 i doy 2 m show ?thesis by (intro that) (auto simp: ymd_of_days_def)
qed

lemma ymd_month: "fst (snd (ymd_of_days n)) \<le> 12" "0 < fst (snd (ymd_of_days n))"
  by (rule ymd_cases [of n]; simp)+

lemma ymd_day: "snd (snd (ymd_of_days n)) \<le> 31" "0 < snd (snd (ymd_of_days n))"
  by (rule ymd_cases [of n]; simp)+

lemma ymd_year_pos: "0 < fst (ymd_of_days n)"
  by (rule ymd_cases [of n]) simp

definition date_less :: "nat \<times> nat \<times> nat \<Rightarrow> nat \<times> nat \<times> nat \<Rightarrow> bool" where
  "date_less p q \<longleftrightarrow> fst p < fst q \<or> fst p = fst q \<and> lex2 (snd p) (snd q)"

lemma ymd_mono:
  assumes "m < n"
  shows "date_less (ymd_of_days m) (ymd_of_days n)"
proof -
  obtain i doy k d where M: "locate cycle_years (m mod 146097) = (i, doy)" "i < 400"
    "locate (month_days (400 * (m div 146097) + Suc i)) doy = (k, d)"
    "ymd_of_days m = (400 * (m div 146097) + Suc i, Suc k, Suc d)"
    by (rule ymd_cases [of m])
  obtain i' doy' k' d' where N: "locate cycle_years (n mod 146097) = (i', doy')" "i' < 400"
    "doy' < year_days (Suc i')"
    "locate (month_days (400 * (n div 146097) + Suc i')) doy' = (k', d')"
    "ymd_of_days n = (400 * (n div 146097) + Suc i', Suc k', Suc d')"
    by (rule ymd_cases [of n])
  show ?thesis
  proof (cases "m div 146097 = n div 146097")
    case False
    with assms have "m div 146097 < n div 146097" by (simp add: div_le_mono le_neq_implies_less)
    then have "400 * (m div 146097) + Suc i < 400 * (n div 146097) + Suc i'"
      using M(2) by linarith
    with M(4) N(5) show ?thesis by (simp add: date_less_def)
  next
    case True
    with assms have "m mod 146097 < n mod 146097"
      by (metis add_less_cancel_left div_mult_mod_eq)
    from locate_mono [OF this, of cycle_years] M(1) N(1)
    have lex: "lex2 (i, doy) (i', doy')" by (simp add: sum_cycle_years)
    show ?thesis
    proof (cases "i < i'")
      case True
      with M(4) N(5) \<open>m div 146097 = n div 146097\<close> show ?thesis by (simp add: date_less_def)
    next
      case False
      with lex have eq: "i = i'" "doy < doy'" by (auto simp: lex2_def)
      from N(3) have "doy' < sum_list (month_days (400 * (n div 146097) + Suc i'))"
        by (simp only: sum_month_days year_days_cycle)
      from locate_mono [OF eq(2) this] M(3) N(4) True eq(1) have "lex2 (k, d) (k', d')" by simp
      with M(4) N(5) True eq(1) show ?thesis by (simp add: date_less_def lex2_def)
    qed
  qed
qed

subsection \<open>Clock readings\<close>

definition us_per_sec :: int where "us_per_sec = 1000000"
definition us_per_day :: int where "us_per_day = 86400000000"

text \<open>Days from 0001-01-01 to the Unix epoch, and to the first day after year 9999.\<close>

definition epoch_days :: int where "epoch_days = 719162"
definition max_days :: int where "max_days = 3652059"

definition in_range :: "int \<Rightarrow> bool" where
  "in_range us \<longleftrightarrow> 0 \<le> us \<and> us < max_days * us_per_day"

text \<open>
  The fields of a clock reading: date, hour, minute, second, microsecond. The reading is
  in range, so the conversions to \<open>nat\<close> lose nothing.
\<close>

definition wall_date :: "int \<Rightarrow> nat \<times> nat \<times> nat" where
  "wall_date us = ymd_of_days (nat (us div us_per_day))"

definition wall_sec :: "int \<Rightarrow> nat" where
  "wall_sec us = nat (us mod us_per_day div us_per_sec)"

definition wall_us :: "int \<Rightarrow> nat" where
  "wall_us us = nat (us mod us_per_sec)"

definition wall_year :: "int \<Rightarrow> nat" where
  "wall_year us = fst (wall_date us)"

lemma wall_sec_bound: "wall_sec us < 86400"
proof -
  have "us mod us_per_day div us_per_sec < 86400"
    unfolding us_per_day_def us_per_sec_def by linarith
  then show ?thesis by (simp add: wall_sec_def nat_less_iff us_per_day_def us_per_sec_def)
qed

text \<open>
  \<open>strftime("%Y%m%dT%H%M%SZ")\<close> of a reading (\<open>%Y\<close> is the C library's, which does not
  pad years below 1000).
\<close>

definition strftime_id :: "int \<Rightarrow> string" where
  "strftime_id us =
     (let (y, m, d) = wall_date us; s = wall_sec us
      in str_nat y @ zpad 2 m @ zpad 2 d @ ''T''
         @ zpad 2 (s div 3600) @ zpad 2 (s div 60 mod 60) @ zpad 2 (s mod 60) @ ''Z'')"

text \<open>\<open>datetime.isoformat()\<close> of an aware UTC datetime.\<close>

definition isoformat_utc :: "int \<Rightarrow> string" where
  "isoformat_utc us =
     (let (y, m, d) = wall_date us; s = wall_sec us; u = wall_us us
      in zpad 4 y @ ''-'' @ zpad 2 m @ ''-'' @ zpad 2 d @ ''T''
         @ zpad 2 (s div 3600) @ '':'' @ zpad 2 (s div 60 mod 60) @ '':'' @ zpad 2 (s mod 60)
         @ (if u = 0 then [] else ''.'' @ zpad 6 u) @ ''+00:00'')"

subsection \<open>The order of the formatted time stamps\<close>

definition stamp_body :: "nat \<Rightarrow> nat \<times> nat \<times> nat \<Rightarrow> nat \<Rightarrow> string" where
  "stamp_body w ymd s =
     zpad w (fst ymd) @ zpad 2 (fst (snd ymd)) @ zpad 2 (snd (snd ymd)) @ ''T''
     @ zpad 2 (s div 3600) @ zpad 2 (s div 60 mod 60) @ zpad 2 (s mod 60) @ ''Z''"

lemma strftime_id_stamp:
  assumes "1000 \<le> wall_year us" "wall_year us < 10000"
  shows "strftime_id us = stamp_body 4 (wall_date us) (wall_sec us)"
proof -
  obtain y m d where ymd: "wall_date us = (y, m, d)" by (cases "wall_date us")
  with assms have "str_nat y = zpad 4 y" by (simp add: str_nat_zpad4 wall_year_def)
  with ymd show ?thesis by (simp add: strftime_id_def stamp_body_def Let_def)
qed

lemma mixed_radix_less:
  fixes h m x :: nat
  assumes "m < 60" "x < 60" "m' < 60" "x' < 60"
  shows "3600 * h + 60 * m + x < 3600 * h' + 60 * m' + x' \<longleftrightarrow>
    h < h' \<or> h = h' \<and> (m < m' \<or> m = m' \<and> x < x')"
  using assms by arith

lemma hms_less:
  assumes "s < 86400" "t < (86400::nat)"
  shows "s < t \<longleftrightarrow> s div 3600 < t div 3600 \<or> s div 3600 = t div 3600 \<and>
    (s div 60 mod 60 < t div 60 mod 60 \<or> s div 60 mod 60 = t div 60 mod 60 \<and> s mod 60 < t mod 60)"
proof -
  have split: "x = 3600 * (x div 3600) + 60 * (x div 60 mod 60) + x mod 60" for x :: nat
  proof -
    have "x = 60 * (x div 60) + x mod 60" by simp
    moreover have "x div 60 = 60 * (x div 60 div 60) + x div 60 mod 60" by simp
    moreover have "x div 60 div 60 = x div 3600" by (simp add: div_mult2_eq [symmetric])
    ultimately show ?thesis by linarith
  qed
  show ?thesis
    by (subst split [of s], subst split [of t], rule mixed_radix_less) simp_all
qed

lemma zpad_append_less:
  "a < 10 ^ w \<Longrightarrow> b < 10 ^ w \<Longrightarrow> 0 < w \<Longrightarrow>
   zpad w a @ xs < zpad w b @ ys \<longleftrightarrow> a < b \<or> a = b \<and> xs < ys"
  by (simp add: append_less_same_length length_zpad zpad_less zpad_inj)

lemma stamp_fields_less:
  assumes "y < 10000" "y' < 10000" "m < 100" "m' < 100" "d < 100" "d' < 100"
    and "h < 100" "h' < 100" "i < 100" "i' < 100" "c < 100" "c' < 100"
  shows "zpad 4 y @ zpad 2 m @ zpad 2 d @ ''T'' @ zpad 2 h @ zpad 2 i @ zpad 2 c @ ''Z''
       < zpad 4 y' @ zpad 2 m' @ zpad 2 d' @ ''T'' @ zpad 2 h' @ zpad 2 i' @ zpad 2 c' @ ''Z''
    \<longleftrightarrow> y < y' \<or> y = y' \<and> (m < m' \<or> m = m' \<and> (d < d' \<or> d = d' \<and>
        (h < h' \<or> h = h' \<and> (i < i' \<or> i = i' \<and> c < c'))))"
  using assms by (simp add: zpad_append_less)

text \<open>On dates of four-digit years the string order of the stamps is the order of time.\<close>

lemma stamp_body_less:
  assumes "fst p < 10000" "fst q < 10000"
    and "fst (snd p) \<le> 12" "fst (snd q) \<le> 12" "snd (snd p) \<le> 31" "snd (snd q) \<le> 31"
    and "s < 86400" "t < 86400"
  shows "stamp_body 4 p s < stamp_body 4 q t \<longleftrightarrow> date_less p q \<or> p = q \<and> s < t"
proof -
  have b: "s div 3600 < 100" "t div 3600 < 100" "s div 60 mod 60 < 100" "t div 60 mod 60 < 100"
    "s mod 60 < 100" "t mod 60 < 100"
    using assms(7,8) less_trans [of _ 60 100] by (simp_all add: less_mult_imp_div_less)
  have m: "fst (snd p) < 100" "fst (snd q) < 100" "snd (snd p) < 100" "snd (snd q) < 100"
    using assms(3-6) by linarith+
  show ?thesis
    unfolding stamp_body_def hms_less [OF assms(7,8)] date_less_def lex2_def prod_eq_iff
    by (subst stamp_fields_less [OF assms(1,2) m b]) blast
qed

lemma stamp_body_eq:
  assumes "fst p < 10000" "fst q < 10000"
    and "fst (snd p) \<le> 12" "fst (snd q) \<le> 12" "snd (snd p) \<le> 31" "snd (snd q) \<le> 31"
    and "s < 86400" "t < 86400" "stamp_body 4 p s = stamp_body 4 q t"
  shows "\<not> (date_less p q \<or> p = q \<and> s < t)" "\<not> (date_less q p \<or> q = p \<and> t < s)"
  using stamp_body_less [OF assms(1-8)]
    stamp_body_less [OF assms(2,1,4,3,6,5,8,7)] assms(9) by simp_all

subsection \<open>Readings in whole seconds\<close>

lemma sec_split: "x div us_per_sec = 86400 * (x div us_per_day) + x mod us_per_day div us_per_sec"
proof -
  have "x div us_per_sec = (x div us_per_day * us_per_day + x mod us_per_day) div us_per_sec" by simp
  also have "x div us_per_day * us_per_day + x mod us_per_day
      = x mod us_per_day + (86400 * (x div us_per_day)) * us_per_sec"
    by (simp add: us_per_day_def us_per_sec_def)
  also have "\<dots> div us_per_sec = 86400 * (x div us_per_day) + x mod us_per_day div us_per_sec"
    by (subst div_mult_self1) (simp_all add: us_per_sec_def)
  finally show ?thesis .
qed

lemma wall_fields_mono:
  assumes "0 \<le> a" "a div us_per_sec < b div us_per_sec"
  shows "date_less (wall_date a) (wall_date b) \<or> wall_date a = wall_date b \<and> wall_sec a < wall_sec b"
proof (cases "a div us_per_day = b div us_per_day")
  case True
  from assms(2) True have "a mod us_per_day div us_per_sec < b mod us_per_day div us_per_sec"
    by (simp add: sec_split [of a] sec_split [of b])
  moreover have "0 \<le> a mod us_per_day div us_per_sec"
    by (simp add: us_per_day_def us_per_sec_def pos_imp_zdiv_nonneg_iff)
  ultimately have "wall_sec a < wall_sec b" by (simp add: wall_sec_def)
  with True show ?thesis by (simp add: wall_date_def)
next
  case False
  have "a < b"
  proof (rule ccontr)
    assume "\<not> a < b"
    then have "b div us_per_sec \<le> a div us_per_sec"
      by (intro zdiv_mono1) (simp_all add: us_per_sec_def)
    with assms(2) show False by simp
  qed
  then have "a div us_per_day \<le> b div us_per_day"
    by (intro zdiv_mono1) (simp_all add: us_per_day_def)
  moreover have "0 \<le> a div us_per_day"
    using assms(1) by (simp add: us_per_day_def pos_imp_zdiv_nonneg_iff)
  ultimately have "nat (a div us_per_day) < nat (b div us_per_day)"
    using False by simp
  then show ?thesis by (simp add: wall_date_def ymd_mono)
qed

lemma same_second_fields:
  assumes "a div us_per_sec = b div us_per_sec"
  shows "wall_date a = wall_date b" "wall_sec a = wall_sec b"
proof -
  have d: "x div us_per_day = x div us_per_sec div 86400" for x
    by (simp add: us_per_day_def us_per_sec_def zdiv_zmult2_eq [symmetric])
  have s: "x mod us_per_day div us_per_sec = x div us_per_sec mod 86400" for x
  proof -
    have "0 \<le> x mod us_per_day div us_per_sec" "x mod us_per_day div us_per_sec < 86400"
      unfolding us_per_day_def us_per_sec_def
      by (simp add: pos_imp_zdiv_nonneg_iff, linarith)
    then show ?thesis by (simp add: sec_split [of x])
  qed
  show "wall_date a = wall_date b" by (simp only: wall_date_def d assms)
  show "wall_sec a = wall_sec b" by (simp only: wall_sec_def s assms)
qed

theorem strftime_id_chronological:
  assumes "0 \<le> a" "0 \<le> b" "1000 \<le> wall_year a" "1000 \<le> wall_year b"
    and "wall_year a < 10000" "wall_year b < 10000"
  shows "strftime_id a < strftime_id b \<longleftrightarrow> a div us_per_sec < b div us_per_sec"
proof -
  have less: "strftime_id a < strftime_id b \<longleftrightarrow>
      date_less (wall_date a) (wall_date b) \<or> wall_date a = wall_date b \<and> wall_sec a < wall_sec b"
    if "1000 \<le> wall_year a" "1000 \<le> wall_year b" "wall_year a < 10000" "wall_year b < 10000" for a b
  proof -
    from that have y: "fst (wall_date a) < 10000" "fst (wall_date b) < 10000"
      by (simp_all add: wall_year_def)
    show ?thesis
      unfolding strftime_id_stamp [OF that(1,3)] strftime_id_stamp [OF that(2,4)]
      by (rule stamp_body_less [OF y]) (simp_all add: wall_date_def ymd_month ymd_day wall_sec_bound)
  qed
  show ?thesis
  proof
    assume "a div us_per_sec < b div us_per_sec"
    with wall_fields_mono [OF assms(1)] less [OF assms(3-6)] show "strftime_id a < strftime_id b" by blast
  next
    assume lt: "strftime_id a < strftime_id b"
    show "a div us_per_sec < b div us_per_sec"
    proof (rule ccontr)
      assume "\<not> a div us_per_sec < b div us_per_sec"
      then consider "b div us_per_sec < a div us_per_sec" | "a div us_per_sec = b div us_per_sec"
        by linarith
      then show False
      proof cases
        case 1
        with wall_fields_mono [OF assms(2)] less [OF assms(4,3,6,5)]
        have "strftime_id b < strftime_id a" by blast
        with lt show False by simp
      next
        case 2
        have "\<not> (date_less (wall_date a) (wall_date b) \<or> wall_date a = wall_date b \<and> wall_sec a < wall_sec b)"
          using same_second_fields [OF 2] by (simp add: date_less_def lex2_def)
        with lt less [OF assms(3-6)] show False by blast
      qed
    qed
  qed
qed

subsection \<open>Aware datetimes\<close>

text \<open>A UTC reading.\<close>

definition utc :: "int \<Rightarrow> datetime" where
  "utc us = \<lparr>dt_wall = us, dt_off = Some 0\<rparr>"

lemma utc_sel [simp]: "dt_wall (utc us) = us" "dt_off (utc us) = Some 0"
  by (simp_all add: utc_def)

text \<open>\<open>d.astimezone(timezone.utc)\<close> of an aware \<open>d\<close> with offset \<open>off\<close>, as a UTC reading.\<close>

definition astimezone_utc :: "int \<Rightarrow> int \<Rightarrow> exn + int" where
  "astimezone_utc wall off =
     (if in_range (wall - off) then Inr (wall - off) else Inl (OverflowError ''date value out of range''))"

text \<open>\<open>a - b\<close> in microseconds: naive and aware readings do not mix.\<close>

definition dt_sub :: "datetime \<Rightarrow> datetime \<Rightarrow> exn + int" where
  "dt_sub a b = (case (dt_off a, dt_off b) of
       (None, None) \<Rightarrow> Inr (dt_wall a - dt_wall b)
     | (Some x, Some y) \<Rightarrow> Inr ((dt_wall a - x) - (dt_wall b - y))
     | _ \<Rightarrow> Inl (TypeError ''can't subtract offset-naive and offset-aware datetimes''))"

text \<open>\<open>timedelta(hours=h)\<close> in microseconds; its day count is bounded.\<close>

definition timedelta_hours :: "int \<Rightarrow> exn + int" where
  "timedelta_hours h =
     (if \<bar>h div 24\<bar> > 999999999 then Inl (OverflowError ''days out of range for timedelta'')
      else Inr (h * 3600000000))"

text \<open>\<open>datetime.fromtimestamp(s, tz=timezone.utc)\<close> of whole seconds since the epoch.\<close>

definition fromtimestamp :: "int \<Rightarrow> exn + datetime" where
  "fromtimestamp s =
     (let us = (epoch_days * 86400 + s) * us_per_sec
      in if in_range us then Inr (utc us) else Inl (ValueError ''year is out of range''))"

lemma dt_sub_aware [simp]:
  "dt_off a = Some x \<Longrightarrow> dt_off b = Some y \<Longrightarrow> dt_sub a b = Inr ((dt_wall a - x) - (dt_wall b - y))"
  by (simp add: dt_sub_def)

end
