(* ===== verification/Py_Path.thy ===== *)
theory Py_Path
  imports Keeper_Prelude
begin

text \<open>
  \<open>pathlib.Path\<close> on POSIX, as the tuple of its parts: an optional root (\<open>/\<close>, or
  \<open>//\<close> for exactly two leading slashes) and the components, with empty and \<open>.\<close>
  components dropped and \<open>..\<close> kept. \<open>path_str\<close> is \<open>str(p)\<close>, \<open>path_join\<close> the
  operator \<open>p / s\<close>, \<open>path_name\<close> the attribute \<open>p.name\<close>.
\<close>

type_synonym path = "string list"

definition path_root :: "string \<Rightarrow> string option" where
  "path_root s =
     (if starts_with ''//'' s \<and> \<not> starts_with ''///'' s then Some ''//''
      else if starts_with ''/'' s then Some ''/'' else None)"

definition rel_parts :: "string \<Rightarrow> string list" where
  "rel_parts s = filter (\<lambda>c. c \<noteq> [] \<and> c \<noteq> ''.'') (py_split (CHR ''/'') s)"

definition path_of :: "string \<Rightarrow> path" where
  "path_of s = (case path_root s of Some r \<Rightarrow> r # rel_parts s | None \<Rightarrow> rel_parts s)"

definition is_root_part :: "string \<Rightarrow> bool" where
  "is_root_part c \<longleftrightarrow> c = ''/'' \<or> c = ''//''"

definition path_str :: "path \<Rightarrow> string" where
  "path_str p = (case p of
       [] \<Rightarrow> ''.''
     | c # cs \<Rightarrow> if is_root_part c then c @ py_join ''/'' cs else py_join ''/'' p)"

definition path_join :: "path \<Rightarrow> string \<Rightarrow> path" where
  "path_join p s = (if starts_with ''/'' s then path_of s else p @ rel_parts s)"

definition path_name :: "path \<Rightarrow> string" where
  "path_name p = (if p = [] \<or> is_root_part (last p) then [] else last p)"

definition path_parent :: "path \<Rightarrow> path" where
  "path_parent p = (if p = [] \<or> is_root_part (last p) then p else butlast p)"

text \<open>A plain component: what a directory listing yields.\<close>

definition plain :: "string \<Rightarrow> bool" where
  "plain c \<longleftrightarrow> c \<noteq> [] \<and> c \<noteq> ''.'' \<and> CHR ''/'' \<notin> set c"

text \<open>The values \<open>path_of\<close> takes.\<close>

definition wf_path :: "path \<Rightarrow> bool" where
  "wf_path p \<longleftrightarrow> (case p of
       [] \<Rightarrow> True
     | c # cs \<Rightarrow> (is_root_part c \<or> plain c) \<and> (\<forall>x \<in> set cs. plain x))"

lemma plain_not_root [simp]: "plain c \<Longrightarrow> \<not> is_root_part c"
  by (auto simp: plain_def is_root_part_def)

lemma py_split_parts: "c \<notin> set (concat (py_split c s))"
  by (induction s) (auto split: list.splits)

lemma rel_parts_plain: "\<forall>x \<in> set (rel_parts s). plain x"
  using py_split_parts [of "CHR ''/''" s] by (auto simp: rel_parts_def plain_def)

lemma wf_path_of: "wf_path (path_of s)"
  using rel_parts_plain [of s]
  by (auto simp: path_of_def wf_path_def path_root_def is_root_part_def split: option.splits list.splits)

lemma rel_parts_single [simp]: "plain s \<Longrightarrow> rel_parts s = [s]"
  by (simp add: rel_parts_def plain_def py_split_no_sep)

lemma plain_no_slash_start: "plain s \<Longrightarrow> \<not> starts_with ''/'' s"
  by (auto simp: plain_def starts_with_iff)

lemma path_join_plain [simp]: "plain s \<Longrightarrow> path_join p s = p @ [s]"
  by (simp add: path_join_def plain_no_slash_start)

lemma path_name_plain [simp]: "plain s \<Longrightarrow> path_name (p @ [s]) = s"
  by (simp add: path_name_def)

lemma py_split_join:
  "\<forall>x \<in> set xs. CHR ''/'' \<notin> set x \<Longrightarrow> xs \<noteq> [] \<Longrightarrow> py_split (CHR ''/'') (py_join ''/'' xs) = xs"
proof (induction "''/''" xs rule: py_join.induct)
  case (3 x y ys)
  then show ?case by (auto simp: py_split_append)
qed (auto simp: py_split_no_sep)

lemma rel_parts_join:
  assumes "\<forall>x \<in> set xs. plain x"
  shows "rel_parts (py_join ''/'' xs) = xs"
proof (cases "xs = []")
  case True
  then show ?thesis by (simp add: rel_parts_def)
next
  case False
  with assms have "py_split (CHR ''/'') (py_join ''/'' xs) = xs"
    by (intro py_split_join) (auto simp: plain_def)
  with assms show ?thesis by (auto simp: rel_parts_def plain_def filter_id_conv)
qed

lemma py_join_start:
  "\<forall>x \<in> set xs. plain x \<Longrightarrow> \<not> starts_with ''/'' (py_join ''/'' xs)"
  by (cases xs rule: remdups_adj.cases)
    (auto simp: plain_def starts_with_iff neq_Nil_conv split: list.splits)

lemma rel_parts_slash: "rel_parts (CHR ''/'' # s) = rel_parts s"
  by (simp add: rel_parts_def)

text \<open>\<open>Path(str(p)) == p\<close>.\<close>

lemma path_of_str: "wf_path p \<Longrightarrow> path_of (path_str p) = p"
proof (cases p)
  case Nil
  then show ?thesis
    by (simp add: path_str_def path_of_def path_root_def starts_with_def rel_parts_def)
next
  case (Cons c cs)
  assume wf: "wf_path p"
  show ?thesis
  proof (cases "is_root_part c")
    case True
    from wf Cons have cs: "\<forall>x \<in> set cs. plain x" by (simp add: wf_path_def)
    then have no: "\<not> starts_with ''/'' (py_join ''/'' cs)" by (rule py_join_start)
    then have "path_root (c @ py_join ''/'' cs) = Some c"
      using True by (auto simp: is_root_part_def path_root_def starts_with_iff)
    moreover have "rel_parts (c @ py_join ''/'' cs) = cs"
      using True rel_parts_join [OF cs] by (auto simp: is_root_part_def rel_parts_slash)
    ultimately show ?thesis using Cons True by (simp add: path_str_def path_of_def)
  next
    case False
    with wf Cons have all: "\<forall>x \<in> set p. plain x" by (simp add: wf_path_def)
    then have no: "\<not> starts_with ''/'' (py_join ''/'' p)" by (rule py_join_start)
    then have "path_root (py_join ''/'' p) = None"
      by (auto simp: path_root_def starts_with_iff)
    with rel_parts_join [OF all] Cons False show ?thesis by (simp add: path_str_def path_of_def)
  qed
qed

lemma path_str_nonempty: "wf_path p \<Longrightarrow> path_str p \<noteq> []"
  by (cases p rule: remdups_adj.cases)
    (auto simp: path_str_def wf_path_def is_root_part_def plain_def split: list.splits)

end
