(* ===== verification/Retention.thy ===== *)
theory Retention
  imports Py_Datetime
begin

text \<open>
  \<open>retention.py\<close>: the purge decision at one destination, a pure function from the
  destination's own listing to a plan. \<open>StoredBackup\<close> is the listing entry of
  \<open>destinations/base.py\<close>. The lemmas show what a plan is: a partition of the listing
  that keeps the newest \<open>keep\<close> complete generations and every incomplete one that is in
  progress or inside the grace period.
\<close>

record stored_backup =
  sb_id :: string
  sb_complete :: bool
  sb_stored_at :: datetime

record purge_plan =
  pp_keep :: "string list"
  pp_delete :: "string list"

text \<open>The loop over the incomplete generations, appending to the two lists of ids.\<close>

fun purge_incomplete ::
  "stored_backup list \<Rightarrow> int \<Rightarrow> datetime \<Rightarrow> string option \<Rightarrow> string list \<Rightarrow> string list
     \<Rightarrow> exn + purge_plan" where
  "purge_incomplete [] grace now in_progress keep_ids delete_ids =
     Inr \<lparr>pp_keep = keep_ids, pp_delete = delete_ids\<rparr>"
| "purge_incomplete (b # bs) grace now in_progress keep_ids delete_ids =
     (if in_progress = Some (sb_id b)
      then purge_incomplete bs grace now in_progress (keep_ids @ [sb_id b]) delete_ids
      else case dt_sub now (sb_stored_at b) of
          Inl e \<Rightarrow> Inl e
        | Inr age \<Rightarrow>
            if age < grace
            then purge_incomplete bs grace now in_progress (keep_ids @ [sb_id b]) delete_ids
            else purge_incomplete bs grace now in_progress keep_ids (delete_ids @ [sb_id b]))"

definition complete_sorted :: "stored_backup list \<Rightarrow> stored_backup list" where
  "complete_sorted stored = py_sorted_rev sb_id (filter sb_complete stored)"

definition incompletes :: "stored_backup list \<Rightarrow> stored_backup list" where
  "incompletes stored = filter (\<lambda>b. \<not> sb_complete b) stored"

definition select_purge ::
  "stored_backup list \<Rightarrow> int \<Rightarrow> int \<Rightarrow> datetime \<Rightarrow> string option \<Rightarrow> exn + purge_plan" where
  "select_purge stored keep grace_hours now in_progress =
     (let complete = complete_sorted stored;
          keep_ids = map sb_id (py_take keep complete);
          delete_ids = map sb_id (py_drop keep complete)
      in case timedelta_hours grace_hours of
           Inl e \<Rightarrow> Inl e
         | Inr grace \<Rightarrow>
             purge_incomplete (incompletes stored) grace now in_progress keep_ids delete_ids)"

subsection \<open>The loop, in closed form\<close>

text \<open>An incomplete generation that is protected: in progress, or inside the grace period.\<close>

definition protected :: "int \<Rightarrow> datetime \<Rightarrow> string option \<Rightarrow> stored_backup \<Rightarrow> bool" where
  "protected grace now in_progress b \<longleftrightarrow>
     in_progress = Some (sb_id b) \<or> (\<exists>age. dt_sub now (sb_stored_at b) = Inr age \<and> age < grace)"

definition aware :: "datetime \<Rightarrow> bool" where
  "aware d \<longleftrightarrow> dt_off d \<noteq> None"

lemma dt_sub_aware_Inr: "aware a \<Longrightarrow> aware b \<Longrightarrow> \<exists>age. dt_sub a b = Inr age"
  by (auto simp: aware_def)

lemma purge_incomplete_Inr:
  "purge_incomplete bs grace now ip ks ds = Inr plan \<Longrightarrow>
     pp_keep plan = ks @ map sb_id (filter (protected grace now ip) bs) \<and>
     pp_delete plan = ds @ map sb_id (filter (\<lambda>b. \<not> protected grace now ip b) bs)"
proof (induction bs grace now ip ks ds rule: purge_incomplete.induct)
  case (1 grace now ip ks ds)
  then show ?case by auto
next
  case (2 b bs grace now ip ks ds)
  show ?case
  proof (cases "ip = Some (sb_id b)")
    case True
    with 2 show ?thesis by (auto simp: protected_def)
  next
    case False
    with "2.prems" obtain age where age: "dt_sub now (sb_stored_at b) = Inr age"
      by (auto split: sum.splits)
    with False have "protected grace now ip b \<longleftrightarrow> age < grace" by (simp add: protected_def)
    with 2 False age show ?thesis by (auto split: if_splits)
  qed
qed

lemma purge_incomplete_total:
  assumes "aware now" "\<forall>b \<in> set bs. aware (sb_stored_at b)"
  shows "\<exists>plan. purge_incomplete bs grace now ip ks ds = Inr plan"
  using assms(2)
proof (induction bs arbitrary: ks ds)
  case (Cons b bs)
  from Cons.prems assms(1) obtain age where "dt_sub now (sb_stored_at b) = Inr age"
    using dt_sub_aware_Inr by fastforce
  with Cons show ?case by (cases "ip = Some (sb_id b)") auto
qed simp

text \<open>The whole plan in closed form; every property of the plan is read off from it.\<close>

lemma select_purge_Inr:
  assumes "select_purge stored keep gh now ip = Inr plan"
  obtains grace where
    "timedelta_hours gh = Inr grace"
    "pp_keep plan = map sb_id (py_take keep (complete_sorted stored))
       @ map sb_id (filter (protected grace now ip) (incompletes stored))"
    "pp_delete plan = map sb_id (py_drop keep (complete_sorted stored))
       @ map sb_id (filter (\<lambda>b. \<not> protected grace now ip b) (incompletes stored))"
proof -
  from assms obtain grace where g: "timedelta_hours gh = Inr grace"
    and p: "purge_incomplete (incompletes stored) grace now ip
      (map sb_id (py_take keep (complete_sorted stored)))
      (map sb_id (py_drop keep (complete_sorted stored))) = Inr plan"
    by (auto simp: select_purge_def Let_def split: sum.splits)
  from purge_incomplete_Inr [OF p] g show ?thesis by (auto intro: that)
qed

lemma mset_complete_sorted: "mset (complete_sorted stored) = mset (filter sb_complete stored)"
  by (simp add: complete_sorted_def)

lemma set_complete_sorted [simp]: "set (complete_sorted stored) = {b \<in> set stored. sb_complete b}"
  by (simp add: complete_sorted_def)

lemma set_incompletes [simp]: "set (incompletes stored) = {b \<in> set stored. \<not> sb_complete b}"
  by (simp add: incompletes_def)

lemma mset_split_complete: "mset (complete_sorted stored) + mset (incompletes stored) = mset stored"
  by (simp add: mset_complete_sorted incompletes_def)

lemma complete_sorted_desc:
  "a \<in> set (py_take k (complete_sorted stored)) \<Longrightarrow> b \<in> set (py_drop k (complete_sorted stored)) \<Longrightarrow>
   sb_id b \<le> sb_id a"
  by (auto simp: py_take_def py_drop_def complete_sorted_def
      intro: sorted_rev_take_drop [OF sorted_py_sorted_rev] split: if_splits)

subsection \<open>Rank in a descending list\<close>

lemma strictly_desc_newer:
  fixes f :: "'a \<Rightarrow> 'k::linorder"
  assumes "sorted (rev (map f xs))" "distinct (map f xs)" "i < length xs"
  shows "{c \<in> set xs. f (xs ! i) < f c} = set (take i xs)"
proof -
  have desc: "f (xs ! k) \<le> f (xs ! j)" if "j \<le> k" "k < length xs" for j k
    using sorted_nth_mono [OF assms(1), of "length xs - Suc k" "length xs - Suc j"] that
    by (simp add: rev_nth)
  have inj: "f (xs ! k) \<noteq> f (xs ! j)" if "j < length xs" "k < length xs" "j \<noteq> k" for j k
    using assms(2) that nth_eq_iff_index_eq [of "map f xs" j k] by simp
  have iff: "f (xs ! i) < f (xs ! j) \<longleftrightarrow> j < i" if "j < length xs" for j
  proof (cases "j < i")
    case True
    with desc [of j i] inj [of i j] assms(3) that show ?thesis by simp
  next
    case False
    with desc [of i j] that show ?thesis by (simp add: not_less)
  qed
  have "set (take i xs) = {xs ! j |j. j < i}"
    using nth_image [of i xs] assms(3) by (auto simp flip: nth_image)
  moreover have "{c \<in> set xs. f (xs ! i) < f c} = {xs ! j |j. j < length xs \<and> f (xs ! i) < f (xs ! j)}"
    by (auto simp: in_set_conv_nth)
  ultimately show ?thesis using iff assms(3) by (auto intro: less_trans)
qed

lemma in_take_iff_rank:
  fixes f :: "'a \<Rightarrow> 'k::linorder"
  assumes "sorted (rev (map f xs))" "distinct (map f xs)" "x \<in> set xs"
  shows "x \<in> set (take k xs) \<longleftrightarrow> card {c \<in> set xs. f x < f c} < k"
proof -
  from assms(3) obtain i where i: "i < length xs" "x = xs ! i" by (auto simp: in_set_conv_nth)
  have d: "distinct xs" using assms(2) by (simp add: distinct_map)
  have "card {c \<in> set xs. f x < f c} = i"
    using strictly_desc_newer [OF assms(1,2) i(1)] i d by (simp add: distinct_card)
  moreover have "x \<in> set (take k xs) \<longleftrightarrow> i < k"
    using i d nth_eq_iff_index_eq [OF d] by (auto simp: in_set_conv_nth)
  ultimately show ?thesis by simp
qed

text \<open>The complete generations strictly newer than an id, by the program's order on ids.\<close>

definition newer_complete :: "stored_backup list \<Rightarrow> string \<Rightarrow> stored_backup set" where
  "newer_complete stored i = {c \<in> set stored. sb_complete c \<and> i < sb_id c}"

lemma distinct_complete_sorted:
  assumes "distinct (map sb_id stored)"
  shows "distinct (map sb_id (complete_sorted stored))"
proof -
  have "mset (map sb_id (complete_sorted stored)) = mset (map sb_id (filter sb_complete stored))"
    by (simp only: mset_map mset_complete_sorted)
  moreover have "distinct (map sb_id (filter sb_complete stored))"
    using assms by (simp add: distinct_map_filter)
  ultimately show ?thesis by (metis mset_eq_imp_distinct_iff)
qed

lemma complete_kept_rank:
  assumes "distinct (map sb_id stored)" "b \<in> set stored" "sb_complete b" "0 \<le> keep"
  shows "b \<in> set (py_take keep (complete_sorted stored)) \<longleftrightarrow> int (card (newer_complete stored (sb_id b))) < keep"
proof -
  have "{c \<in> set (complete_sorted stored). sb_id b < sb_id c} = newer_complete stored (sb_id b)"
    by (auto simp: newer_complete_def)
  moreover have "b \<in> set (complete_sorted stored)" using assms by simp
  moreover have "sorted (rev (map sb_id (complete_sorted stored)))"
    by (simp add: complete_sorted_def sorted_py_sorted_rev)
  ultimately show ?thesis
    using in_take_iff_rank [of sb_id "complete_sorted stored" b "nat keep"] assms
      distinct_complete_sorted [OF assms(1)]
    by (simp add: py_take_def zless_nat_eq_int_zless)
qed

lemma take_drop_disjoint: "distinct xs \<Longrightarrow> x \<in> set (py_drop k xs) \<longleftrightarrow> x \<in> set xs \<and> x \<notin> set (py_take k xs)"
proof -
  assume "distinct xs"
  then have "set (py_take k xs) \<inter> set (py_drop k xs) = {}"
    by (metis distinct_append py_take_drop)
  moreover have "set xs = set (py_take k xs) \<union> set (py_drop k xs)"
    by (metis py_take_drop set_append)
  ultimately show ?thesis by auto
qed

text \<open>Membership of a listed generation in the two parts of a plan, ids being distinct.\<close>

lemma plan_membership:
  assumes "select_purge stored keep gh now ip = Inr plan" "distinct (map sb_id stored)" "b \<in> set stored"
    and "timedelta_hours gh = Inr grace"
  shows "sb_id b \<in> set (pp_keep plan) \<longleftrightarrow>
      (if sb_complete b then b \<in> set (py_take keep (complete_sorted stored)) else protected grace now ip b)"
    and "sb_id b \<in> set (pp_delete plan) \<longleftrightarrow> sb_id b \<notin> set (pp_keep plan)"
proof -
  obtain g where g: "timedelta_hours gh = Inr g"
    and k: "pp_keep plan = map sb_id (py_take keep (complete_sorted stored))
       @ map sb_id (filter (protected g now ip) (incompletes stored))"
    and d: "pp_delete plan = map sb_id (py_drop keep (complete_sorted stored))
       @ map sb_id (filter (\<lambda>b. \<not> protected g now ip b) (incompletes stored))"
    by (rule select_purge_Inr [OF assms(1)])
  from g assms(4) have [simp]: "g = grace" by simp
  have inj: "inj_on sb_id (set stored)" using assms(2) by (simp add: distinct_map)
  have dis: "distinct (complete_sorted stored)"
    using distinct_complete_sorted [OF assms(2)] by (simp add: distinct_map)
  have sub: "set (py_take keep (complete_sorted stored)) \<subseteq> set (complete_sorted stored)"
    using py_take_drop [of keep "complete_sorted stored"] by (metis Un_upper1 set_append)
  show 1: "sb_id b \<in> set (pp_keep plan) \<longleftrightarrow>
      (if sb_complete b then b \<in> set (py_take keep (complete_sorted stored)) else protected grace now ip b)"
    using inj sub assms(3) by (auto simp: k dest: inj_onD)
  show "sb_id b \<in> set (pp_delete plan) \<longleftrightarrow> sb_id b \<notin> set (pp_keep plan)"
    unfolding 1 using inj assms(3) take_drop_disjoint [OF dis, of _ keep]
    by (auto simp: d dest: inj_onD)
qed

lemma mset_map_filter_split:
  "mset (map f (filter P xs)) + mset (map f (filter (\<lambda>x. \<not> P x) xs)) = mset (map f xs)"
  by (induction xs) auto

lemma mset_map_take_drop: "mset (map f (py_take k xs)) + mset (map f (py_drop k xs)) = mset (map f xs)"
  by (metis map_append mset_append py_take_drop)

lemma plan_partition:
  assumes "select_purge stored keep gh now ip = Inr plan"
  shows "mset (pp_keep plan @ pp_delete plan) = mset (map sb_id stored)"
proof -
  obtain g where
    k: "pp_keep plan = map sb_id (py_take keep (complete_sorted stored))
       @ map sb_id (filter (protected g now ip) (incompletes stored))" and
    d: "pp_delete plan = map sb_id (py_drop keep (complete_sorted stored))
       @ map sb_id (filter (\<lambda>b. \<not> protected g now ip b) (incompletes stored))"
    by (rule select_purge_Inr [OF assms])
  have "mset (pp_keep plan @ pp_delete plan) =
      (mset (map sb_id (py_take keep (complete_sorted stored)))
        + mset (map sb_id (py_drop keep (complete_sorted stored))))
      + (mset (map sb_id (filter (protected g now ip) (incompletes stored)))
        + mset (map sb_id (filter (\<lambda>b. \<not> protected g now ip b) (incompletes stored))))"
    unfolding k d mset_append by (simp only: ac_simps)
  also have "\<dots> = image_mset sb_id (mset (complete_sorted stored) + mset (incompletes stored))"
    unfolding mset_map_filter_split mset_map_take_drop by (simp only: image_mset_union mset_map)
  also have "\<dots> = mset (map sb_id stored)"
    by (simp only: mset_split_complete mset_map)
  finally show ?thesis .
qed

lemma plan_ids: "select_purge stored keep gh now ip = Inr plan \<Longrightarrow>
  set (pp_keep plan) \<union> set (pp_delete plan) = sb_id ` set stored"
  using mset_eq_setD [OF plan_partition] by simp

lemma plan_complete_rank:
  assumes "select_purge stored keep gh now ip = Inr plan"
    and "distinct (map sb_id stored)" "0 \<le> keep" "b \<in> set stored" "sb_complete b"
  shows "sb_id b \<in> set (pp_keep plan) \<longleftrightarrow> int (card (newer_complete stored (sb_id b))) < keep"
    and "sb_id b \<in> set (pp_delete plan) \<longleftrightarrow> keep \<le> int (card (newer_complete stored (sb_id b)))"
proof -
  obtain g where g: "timedelta_hours gh = Inr g"
    by (rule select_purge_Inr [OF assms(1)])
  show 1: "sb_id b \<in> set (pp_keep plan) \<longleftrightarrow> int (card (newer_complete stored (sb_id b))) < keep"
    using plan_membership(1) [OF assms(1,2,4) g] complete_kept_rank [OF assms(2,4,5,3)] assms(5) by simp
  show "sb_id b \<in> set (pp_delete plan) \<longleftrightarrow> keep \<le> int (card (newer_complete stored (sb_id b)))"
    using plan_membership(2) [OF assms(1,2,4) g] 1 by auto
qed

lemma plan_disjoint:
  assumes "select_purge stored keep gh now ip = Inr plan" "distinct (map sb_id stored)"
  shows "i \<in> set (pp_keep plan) \<Longrightarrow> i \<notin> set (pp_delete plan)"
proof -
  obtain g where g: "timedelta_hours gh = Inr g" by (rule select_purge_Inr [OF assms(1)])
  assume i: "i \<in> set (pp_keep plan)"
  then obtain b where "b \<in> set stored" "i = sb_id b" using plan_ids [OF assms(1)] by auto
  with plan_membership(2) [OF assms _ g] i show ?thesis by blast
qed

text \<open>Evaluating the decision on concrete listings.\<close>

lemmas select_purge_eval = select_purge_def complete_sorted_def incompletes_def py_sorted_rev_def
  py_take_def py_drop_def timedelta_hours_def dt_sub_def Let_def

definition gen :: "string \<Rightarrow> bool \<Rightarrow> int \<Rightarrow> stored_backup" where
  "gen i c t = \<lparr>sb_id = i, sb_complete = c, sb_stored_at = utc t\<rparr>"

lemma gen_sel [simp]:
  "sb_id (gen i c t) = i" "sb_complete (gen i c t) = c" "sb_stored_at (gen i c t) = utc t"
  by (simp_all add: gen_def)

subsection \<open>Properties of the purge decision\<close>

text \<open>C8. Ids being distinct and \<open>keep\<close> not negative, a complete generation is kept exactly
  when fewer than \<open>keep\<close> complete generations have a greater id, and deleted otherwise.\<close>

theorem select_purge_keeps_newest:
  assumes "select_purge stored keep grace_hours now in_progress = Inr plan"
    and "distinct (map sb_id stored)" "0 \<le> keep" "b \<in> set stored" "sb_complete b"
  shows "(sb_id b \<in> set (pp_keep plan) \<longleftrightarrow> int (card (newer_complete stored (sb_id b))) < keep) \<and>
    (sb_id b \<in> set (pp_delete plan) \<longleftrightarrow> keep \<le> int (card (newer_complete stored (sb_id b))))"
  using plan_complete_rank [OF assms] by simp

theorem select_purge_keeps_newest_witness:
  "\<exists>plan. select_purge [gen ''a'' True 0, gen ''b'' True 0] 1 24 (utc 0) None = Inr plan \<and>
     ''b'' \<in> set (pp_keep plan) \<and> int (card (newer_complete [gen ''a'' True 0, gen ''b'' True 0] ''b'')) < 1"
proof -
  have p: "select_purge [gen ''a'' True 0, gen ''b'' True 0] 1 24 (utc 0) None
      = Inr \<lparr>pp_keep = [''b''], pp_delete = [''a'']\<rparr>"
    by (simp add: select_purge_eval)
  from select_purge_keeps_newest [OF p, of "gen ''b'' True 0"] show ?thesis by (simp add: p)
qed

text \<open>C9. Ids being distinct, an incomplete generation is kept exactly when it is the one in
  progress or was touched less than \<open>grace_hours\<close> hours before \<open>now\<close>, and deleted otherwise.\<close>

theorem select_purge_incomplete:
  assumes "select_purge stored keep grace_hours now in_progress = Inr plan"
    and "distinct (map sb_id stored)" "b \<in> set stored" "\<not> sb_complete b"
    and "dt_sub now (sb_stored_at b) = Inr age"
  shows "(sb_id b \<in> set (pp_keep plan) \<longleftrightarrow> in_progress = Some (sb_id b) \<or> age < grace_hours * 3600000000) \<and>
    (sb_id b \<in> set (pp_delete plan) \<longleftrightarrow> in_progress \<noteq> Some (sb_id b) \<and> grace_hours * 3600000000 \<le> age)"
proof -
  obtain g where g: "timedelta_hours grace_hours = Inr g"
    by (rule select_purge_Inr [OF assms(1)])
  then have g': "g = grace_hours * 3600000000" by (simp add: timedelta_hours_def split: if_splits)
  have 1: "sb_id b \<in> set (pp_keep plan) \<longleftrightarrow> in_progress = Some (sb_id b) \<or> age < grace_hours * 3600000000"
    using plan_membership(1) [OF assms(1,2,3) g] assms(4,5) g' by (simp add: protected_def)
  then show ?thesis
    using plan_membership(2) [OF assms(1,2,3) g] by auto
qed

theorem select_purge_incomplete_witness:
  "\<exists>plan. select_purge [gen ''x'' False 0, gen ''y'' False 0] 1 24 (utc 86400000000) (Some ''x'') = Inr plan \<and>
     ''x'' \<in> set (pp_keep plan) \<and> ''y'' \<in> set (pp_delete plan)"
proof -
  have p: "select_purge [gen ''x'' False 0, gen ''y'' False 0] 1 24 (utc 86400000000) (Some ''x'')
      = Inr \<lparr>pp_keep = [''x''], pp_delete = [''y'']\<rparr>"
    by (simp add: select_purge_eval)
  from select_purge_incomplete [OF p, of "gen ''x'' False 0" 86400000000]
    select_purge_incomplete [OF p, of "gen ''y'' False 0" 86400000000]
  show ?thesis by (simp add: p)
qed

text \<open>C35. Purging converges: on the generations that survive a plan, the same decision at the
  same time deletes nothing more.\<close>

theorem select_purge_converges:
  assumes "select_purge stored keep grace_hours now in_progress = Inr plan"
    and "distinct (map sb_id stored)" "0 \<le> keep"
    and "select_purge (filter (\<lambda>b. sb_id b \<notin> set (pp_delete plan)) stored) keep grace_hours now in_progress
         = Inr plan'"
  shows "pp_delete plan' = []"
proof (rule ccontr)
  let ?rest = "filter (\<lambda>b. sb_id b \<notin> set (pp_delete plan)) stored"
  obtain g where g: "timedelta_hours grace_hours = Inr g"
    by (rule select_purge_Inr [OF assms(1)])
  have dis: "distinct (map sb_id ?rest)" using assms(2) by (simp add: distinct_map_filter)
  assume "pp_delete plan' \<noteq> []"
  then obtain i where i: "i \<in> set (pp_delete plan')" by (cases "pp_delete plan'") auto
  with plan_ids [OF assms(4)] have "i \<in> sb_id ` set ?rest" by (metis UnI2)
  then obtain b where b: "b \<in> set ?rest" "sb_id b = i" by (metis imageE)
  from b(1) have b': "b \<in> set stored" and kept: "sb_id b \<in> set (pp_keep plan)"
    using plan_membership(2) [OF assms(1,2) _ g, of b] by auto
  have "sb_id b \<in> set (pp_keep plan')"
  proof (cases "sb_complete b")
    case True
    have sub: "newer_complete ?rest (sb_id b) \<subseteq> newer_complete stored (sb_id b)"
      by (auto simp: newer_complete_def)
    have "finite (newer_complete stored (sb_id b))" by (simp add: newer_complete_def)
    from card_mono [OF this sub] plan_complete_rank(1) [OF assms(1-3) b' True]
      plan_complete_rank(1) [OF assms(4) dis assms(3) b(1) True] kept
    show ?thesis by linarith
  next
    case False
    with plan_membership(1) [OF assms(1,2) b' g] plan_membership(1) [OF assms(4) dis b(1) g] kept
    show ?thesis by simp
  qed
  with plan_disjoint [OF assms(4) dis] i b(2) show False by simp
qed

theorem select_purge_converges_witness:
  "\<exists>plan. select_purge [gen ''b'' True 0] 1 24 (utc 0) None = Inr plan \<and> pp_delete plan = []"
proof -
  have p: "select_purge [gen ''a'' True 0, gen ''b'' True 0] 1 24 (utc 0) None
      = Inr \<lparr>pp_keep = [''b''], pp_delete = [''a'']\<rparr>"
    and q: "select_purge [gen ''b'' True 0] 1 24 (utc 0) None = Inr \<lparr>pp_keep = [''b''], pp_delete = []\<rparr>"
    by (simp_all add: select_purge_eval)
  from select_purge_converges [OF p, of "\<lparr>pp_keep = [''b''], pp_delete = []\<rparr>"] q
  show ?thesis by (simp add: q)
qed

text \<open>C36. The decision returns a plan for timezone-aware inputs exactly when a \<open>timedelta\<close> can hold
  the grace period, and raises OverflowError otherwise.\<close>

theorem select_purge_returns:
  assumes "aware now" "\<forall>b \<in> set stored. aware (sb_stored_at b)"
  shows "if \<bar>grace_hours div 24\<bar> \<le> 999999999
    then \<exists>plan. select_purge stored keep grace_hours now in_progress = Inr plan
    else \<exists>m. select_purge stored keep grace_hours now in_progress = Inl (OverflowError m)"
  using purge_incomplete_total [OF assms(1), of "incompletes stored"] assms(2)
  by (simp add: select_purge_def timedelta_hours_def Let_def)

theorem select_purge_returns_witness:
  "(\<exists>plan. select_purge [gen ''a'' False 0] 1 24 (utc 0) None = Inr plan)
   \<and> (\<exists>m. select_purge [gen ''a'' False 0] 1 24000000000 (utc 0) None = Inl (OverflowError m))"
  using select_purge_returns [of "utc 0" "[gen ''a'' False 0]" 24 1 None]
    select_purge_returns [of "utc 0" "[gen ''a'' False 0]" 24000000000 1 None]
  by (simp add: aware_def)

text \<open>When an expired incomplete entry has the id of a kept complete generation (as
  \<open>id\<close> and \<open>id.partial\<close> side by side give it), the plan both keeps and deletes that id.\<close>

theorem select_purge_shadowed:
  assumes "select_purge stored keep grace_hours now in_progress = Inr plan"
    and "b \<in> set (py_take keep (complete_sorted stored))"
    and "c \<in> set stored" "\<not> sb_complete c" "sb_id c = sb_id b" "in_progress \<noteq> Some (sb_id c)"
    and "dt_sub now (sb_stored_at c) = Inr age" "grace_hours * 3600000000 \<le> age"
  shows "sb_id b \<in> set (pp_keep plan) \<and> sb_id b \<in> set (pp_delete plan)"
proof -
  obtain g where g: "timedelta_hours grace_hours = Inr g"
    "pp_keep plan = map sb_id (py_take keep (complete_sorted stored))
       @ map sb_id (filter (protected g now in_progress) (incompletes stored))"
    "pp_delete plan = map sb_id (py_drop keep (complete_sorted stored))
       @ map sb_id (filter (\<lambda>b. \<not> protected g now in_progress b) (incompletes stored))"
    by (rule select_purge_Inr [OF assms(1)])
  have "\<not> protected g now in_progress c"
    using g(1) assms(6-8) by (simp add: protected_def timedelta_hours_def split: if_splits)
  then have "sb_id c \<in> set (pp_delete plan)" using g(3) assms(3,4) by simp
  moreover have "sb_id b \<in> set (pp_keep plan)" using g(2) assms(2) by simp
  ultimately show ?thesis using assms(5) by simp
qed

theorem select_purge_shadowed_witness:
  "\<exists>plan. select_purge [gen ''a'' True 0, gen ''a'' False 0] 1 24 (utc 86400000000) None = Inr plan
     \<and> ''a'' \<in> set (pp_keep plan) \<and> ''a'' \<in> set (pp_delete plan)"
proof -
  have p: "select_purge [gen ''a'' True 0, gen ''a'' False 0] 1 24 (utc 86400000000) None
      = Inr \<lparr>pp_keep = [''a''], pp_delete = [''a'']\<rparr>"
    by (simp add: select_purge_eval)
  from select_purge_shadowed [OF p, of "gen ''a'' True 0" "gen ''a'' False 0" 86400000000]
  show ?thesis by (simp add: p select_purge_eval)
qed

end
