(* ===== verification/Config_Parse.thy ===== *)
theory Config_Parse
  imports Config
begin

text \<open>
  The section parsers of \<open>config.py\<close> and \<open>parse_config\<close> itself. Every parser threads
  the error list; \<open>parse_destinations\<close> can also raise a TypeError, from \<open>tuple(ssh_options)\<close>
  on a value that was not checked.
\<close>

definition reject_unknown_keys :: "pydict \<Rightarrow> string list \<Rightarrow> string \<Rightarrow> errors \<Rightarrow> errors" where
  "reject_unknown_keys table allowed context errs =
     errs @ map (\<lambda>(k, _). UnknownKey k context) (filter (\<lambda>(k, _). k \<notin> set allowed) table)"

definition require_str :: "pydict \<Rightarrow> string \<Rightarrow> string \<Rightarrow> errors \<Rightarrow> string option \<times> errors" where
  "require_str table key context errs =
     (case dict_get table key of
        None \<Rightarrow> (None, errs @ [MissingKey key context])
      | Some value \<Rightarrow>
          if \<not> is_str value \<or> \<not> truthy value then (None, errs @ [NotNonEmptyStr key context])
          else (Some (as_str value), errs))"

text \<open>The three-part test the source repeats: not an int, or a bool, or below the bound.\<close>

definition not_int_from :: "int \<Rightarrow> pyval \<Rightarrow> bool" where
  "not_int_from lo v \<longleftrightarrow> \<not> is_int v \<or> is_bool v \<or> as_int v < lo"

definition not_str_list :: "pyval \<Rightarrow> bool" where
  "not_str_list v \<longleftrightarrow> \<not> is_list v \<or> \<not> list_all is_str (as_list v)"

definition sets_reserved :: "string \<Rightarrow> string \<Rightarrow> bool" where
  "sets_reserved reserved a \<longleftrightarrow> a = reserved \<or> starts_with (reserved @ ''='') a"

definition parse_backup :: "pyval option \<Rightarrow> errors \<Rightarrow> backup_config option \<times> errors" where
  "parse_backup table errs =
     (let context = ''[backup]'' in
      case table of
        None \<Rightarrow> (None, errs @ [MissingSection context])
      | Some v \<Rightarrow>
          if \<not> is_dict v then (None, errs @ [NotATable context])
          else
            (let t = as_dict v;
                 errs = reject_unknown_keys t [''work_dir'', ''name_prefix'', ''mariabackup_path'',
                   ''defaults_file'', ''defaults_extra_file'', ''extra_args'', ''prepare'',
                   ''timeout_seconds''] context errs;
                 (work_dir_str, errs) = require_str t ''work_dir'' context errs;
                 name_prefix = dict_get_or t ''name_prefix'' (PStr ''full'');
                 errs = err_if (\<not> is_str name_prefix \<or> \<not> truthy name_prefix)
                   (NotNonEmptyStr ''name_prefix'' context) errs;
                 extra = dict_get_or t ''extra_args'' (PList []);
                 errs = err_if (not_str_list extra) (NotStrList ''extra_args'' context) errs;
                 extra_args = (if not_str_list extra then [] else map as_str (as_list extra));
                 errs = errs @ map ReservedArg
                   (filter (\<lambda>r. list_ex (sets_reserved r) extra_args) reserved_mariabackup_args);
                 timeout = dict_get_or t ''timeout_seconds'' (PInt 0);
                 errs = err_if (not_int_from 0 timeout) (NotNonNegInt ''timeout_seconds'' context) errs;
                 timeout_seconds = (if not_int_from 0 timeout then 0 else as_int timeout);
                 prep = dict_get_or t ''prepare'' (PBool True);
                 errs = err_if (\<not> is_bool prep) (NotBool ''prepare'' context) errs;
                 prepare = (if \<not> is_bool prep then True else as_bool prep)
             in case work_dir_str of
                  None \<Rightarrow> (None, errs)
                | Some wd \<Rightarrow> (Some
                    \<lparr>b_work_dir = path_of wd,
                     b_name_prefix = (if is_str name_prefix then as_str name_prefix else ''full''),
                     b_mariabackup_path = dict_get_or t ''mariabackup_path'' (PStr ''mariabackup''),
                     b_defaults_file = dict_get_or t ''defaults_file'' (PStr []),
                     b_defaults_extra_file = dict_get_or t ''defaults_extra_file'' (PStr []),
                     b_extra_args = extra_args,
                     b_prepare = prepare,
                     b_timeout_seconds = timeout_seconds\<rparr>, errs)))"

definition parse_replication :: "pyval option \<Rightarrow> errors \<Rightarrow> replication_config \<times> errors" where
  "parse_replication table errs =
     (let context = ''[replication]'' in
      case table of
        None \<Rightarrow> (default_replication, errs)
      | Some v \<Rightarrow>
          if \<not> is_dict v then (default_replication, errs @ [NotATable context])
          else
            (let t = as_dict v;
                 errs = reject_unknown_keys t [''mode'', ''max_lag_seconds'', ''safe_slave_backup'',
                   ''client_path''] context errs;
                 m = dict_get_or t ''mode'' (PStr ''off'');
                 errs = err_if (\<not> py_in_strs m valid_replication_modes)
                   (NotOneOf ''mode'' context valid_replication_modes (Some m)) errs;
                 mode = (if \<not> py_in_strs m valid_replication_modes then ''off'' else as_str m);
                 lag = dict_get_or t ''max_lag_seconds'' (PInt 0);
                 errs = err_if (not_int_from 0 lag) (NotNonNegInt ''max_lag_seconds'' context) errs;
                 max_lag = (if not_int_from 0 lag then 0 else as_int lag);
                 ssb = dict_get_or t ''safe_slave_backup'' (PBool True);
                 errs = err_if (\<not> is_bool ssb) (NotBool ''safe_slave_backup'' context) errs;
                 safe = (if \<not> is_bool ssb then True else as_bool ssb)
             in (\<lparr>r_mode = mode, r_max_lag_seconds = max_lag, r_safe_slave_backup = safe,
                  r_client_path = dict_get_or t ''client_path'' (PStr ''mariadb'')\<rparr>, errs)))"

definition parse_transfer :: "pyval option \<Rightarrow> errors \<Rightarrow> transfer_config \<times> errors" where
  "parse_transfer table errs =
     (let context = ''[transfer]'' in
      case table of
        None \<Rightarrow> (default_transfer, errs)
      | Some v \<Rightarrow>
          if \<not> is_dict v then (default_transfer, errs @ [NotATable context])
          else
            (let t = as_dict v;
                 errs = reject_unknown_keys t [''on_destination_failure'', ''retries'', ''rsync_path'']
                   context errs;
                 f = dict_get_or t ''on_destination_failure'' (PStr ''continue'');
                 errs = err_if (\<not> py_in_strs f valid_on_destination_failure)
                   (NotOneOf ''on_destination_failure'' context valid_on_destination_failure (Some f)) errs;
                 on_failure = (if \<not> py_in_strs f valid_on_destination_failure then ''continue'' else as_str f);
                 r = dict_get_or t ''retries'' (PInt 2);
                 errs = err_if (not_int_from 0 r) (NotNonNegInt ''retries'' context) errs;
                 retries = (if not_int_from 0 r then 2 else as_int r)
             in (\<lparr>t_on_destination_failure = on_failure, t_retries = retries,
                  t_rsync_path = dict_get_or t ''rsync_path'' (PStr ''rsync'')\<rparr>, errs)))"

definition parse_retention :: "pyval option \<Rightarrow> errors \<Rightarrow> retention_config \<times> errors" where
  "parse_retention table errs =
     (let context = ''[retention]'' in
      case table of
        None \<Rightarrow> (default_retention, errs)
      | Some v \<Rightarrow>
          if \<not> is_dict v then (default_retention, errs @ [NotATable context])
          else
            (let t = as_dict v;
                 errs = reject_unknown_keys t [''incomplete_grace_hours''] context errs;
                 g = dict_get_or t ''incomplete_grace_hours'' (PInt 24);
                 errs = err_if (not_int_from 0 g) (NotNonNegInt ''incomplete_grace_hours'' context) errs;
                 grace = (if not_int_from 0 g then 24 else as_int g)
             in (\<lparr>rt_incomplete_grace_hours = grace\<rparr>, errs)))"

definition parse_logging :: "pyval option \<Rightarrow> errors \<Rightarrow> logging_config \<times> errors" where
  "parse_logging table errs =
     (let context = ''[logging]'' in
      case table of
        None \<Rightarrow> (default_logging, errs)
      | Some v \<Rightarrow>
          if \<not> is_dict v then (default_logging, errs @ [NotATable context])
          else
            (let t = as_dict v;
                 errs = reject_unknown_keys t [''level'', ''format'', ''file''] context errs;
                 l = dict_get_or t ''level'' (PStr ''info'');
                 errs = err_if (\<not> py_in_strs l valid_log_levels)
                   (NotOneOf ''level'' context valid_log_levels (Some l)) errs;
                 level = (if \<not> py_in_strs l valid_log_levels then ''info'' else as_str l);
                 f = dict_get_or t ''format'' (PStr ''text'');
                 errs = err_if (\<not> py_in_strs f valid_log_formats)
                   (NotOneOf ''format'' context valid_log_formats (Some f)) errs;
                 fmt = (if \<not> py_in_strs f valid_log_formats then ''text'' else as_str f)
             in (\<lparr>l_level = level, l_format = fmt, l_file = dict_get_or t ''file'' (PStr [])\<rparr>, errs)))"

definition parse_lock :: "pyval option \<Rightarrow> errors \<Rightarrow> lock_config \<times> errors" where
  "parse_lock table errs =
     (let context = ''[lock]'' in
      case table of
        None \<Rightarrow> (default_lock, errs)
      | Some v \<Rightarrow>
          if \<not> is_dict v then (default_lock, errs @ [NotATable context])
          else
            (let t = as_dict v;
                 errs = reject_unknown_keys t [''file''] context errs;
                 f = dict_get_or t ''file'' (PStr default_lock_file);
                 errs = err_if (\<not> is_str f \<or> \<not> truthy f) (NotNonEmptyStr ''file'' context) errs;
                 file_str = (if \<not> is_str f \<or> \<not> truthy f then default_lock_file else as_str f)
             in (\<lparr>lk_file = path_of file_str\<rparr>, errs)))"

text \<open>
  The source iterates over a set of the four keys, in an order Python does not fix; the
  model takes them in the order written.
\<close>

definition parse_hook :: "pydict \<Rightarrow> string \<Rightarrow> errors \<Rightarrow> string \<times> errors" where
  "parse_hook t key errs =
     (let v = dict_get_or t key (PStr [])
      in (if \<not> is_str v then [] else as_str v, err_if (\<not> is_str v) (NotStr key ''[hooks]'') errs))"

definition parse_hooks :: "pyval option \<Rightarrow> errors \<Rightarrow> hooks_config \<times> errors" where
  "parse_hooks table errs =
     (let context = ''[hooks]'' in
      case table of
        None \<Rightarrow> (default_hooks, errs)
      | Some v \<Rightarrow>
          if \<not> is_dict v then (default_hooks, errs @ [NotATable context])
          else
            (let t = as_dict v;
                 errs = reject_unknown_keys t [''pre_backup'', ''post_backup'', ''pre_purge'', ''post_run'']
                   context errs;
                 (pre_backup, errs) = parse_hook t ''pre_backup'' errs;
                 (post_backup, errs) = parse_hook t ''post_backup'' errs;
                 (pre_purge, errs) = parse_hook t ''pre_purge'' errs;
                 (post_run, errs) = parse_hook t ''post_run'' errs
             in (\<lparr>h_pre_backup = pre_backup, h_post_backup = post_backup,
                  h_pre_purge = pre_purge, h_post_run = post_run\<rparr>, errs)))"

subsection \<open>Destinations\<close>

definition dest_context :: "nat \<Rightarrow> string" where
  "dest_context index = ''destinations['' @ str_nat index @ '']''"

definition ssh_keys :: "string list" where
  "ssh_keys = [''host'', ''port'', ''user'', ''ssh_key'', ''ssh_options'', ''bwlimit_kbps'']"

text \<open>The checks of \<open>type = "ssh"\<close> and the values of the six fields after them.\<close>

definition parse_ssh_fields ::
  "pydict \<Rightarrow> string \<Rightarrow> string \<Rightarrow> errors \<Rightarrow> (pyval \<times> pyval \<times> pyval \<times> pyval \<times> pyval \<times> pyval) \<times> errors" where
  "parse_ssh_fields t context dest_type errs =
     (let host = dict_get_or t ''host'' (PStr []);
          user = dict_get_or t ''user'' (PStr []);
          ssh_key = dict_get_or t ''ssh_key'' (PStr []);
          port = dict_get_or t ''port'' (PInt 22);
          ssh_options = dict_get_or t ''ssh_options'' (PList []);
          bwlimit = dict_get_or t ''bwlimit_kbps'' (PInt 0)
      in if dest_type = ''ssh'' then
           (let errs = err_if (\<not> truthy host) (RequiredForSsh ''host'' context) errs;
                errs = err_if (\<not> truthy user) (RequiredForSsh ''user'' context) errs;
                errs = err_if (\<not> truthy ssh_key) (RequiredForSsh ''ssh_key'' context) errs;
                bad_port = (\<not> is_int port \<or> is_bool port \<or> \<not> (0 < as_int port \<and> as_int port < 65536));
                errs = err_if bad_port (BadPort context) errs;
                port = (if bad_port then PInt 22 else port);
                errs = err_if (not_str_list ssh_options) (NotStrList ''ssh_options'' context) errs;
                ssh_options = (if not_str_list ssh_options then PList [] else ssh_options);
                errs = err_if (not_int_from 0 bwlimit) (NotNonNegInt ''bwlimit_kbps'' context) errs;
                bwlimit = (if not_int_from 0 bwlimit then PInt 0 else bwlimit)
            in ((host, port, user, ssh_key, ssh_options, bwlimit), errs))
         else ((host, port, user, ssh_key, ssh_options, bwlimit), errs))"

definition destination_keys :: "string \<Rightarrow> string list" where
  "destination_keys dest_type =
     [''name'', ''type'', ''path'', ''keep''] @ (if dest_type = ''ssh'' then ssh_keys else [])"

text \<open>The duplicate test on a valid name, and the set of names seen.\<close>

definition note_name :: "string option \<Rightarrow> string list \<Rightarrow> errors \<Rightarrow> string list \<times> errors" where
  "note_name name seen errs =
     (case name of
        None \<Rightarrow> (seen, errs)
      | Some n \<Rightarrow> (seen @ [n], err_if (n \<in> set seen) (DuplicateName n) errs))"

definition parse_keep :: "pydict \<Rightarrow> string \<Rightarrow> errors \<Rightarrow> int option \<times> errors" where
  "parse_keep t context errs =
     (case dict_get t ''keep'' of
        None \<Rightarrow> (None, errs @ [BadKeep context])
      | Some k \<Rightarrow> if not_int_from 1 k then (None, errs @ [BadKeep context]) else (Some (as_int k), errs))"

text \<open>The end of an iteration: append the destination when its three required values are there.\<close>

definition make_destination ::
  "string option \<Rightarrow> string option \<Rightarrow> int option \<Rightarrow> string
     \<Rightarrow> pyval \<times> pyval \<times> pyval \<times> pyval \<times> pyval \<times> pyval \<Rightarrow> exn + destination_config option" where
  "make_destination name path keep dest_type ssh_vals =
     (case (name, path, keep) of
        (Some n, Some p, Some k) \<Rightarrow>
          (case ssh_vals of (host, port, user, ssh_key, ssh_options, bwlimit) \<Rightarrow>
            (case py_tuple ssh_options of
               None \<Rightarrow> Inl (TypeError ''object is not iterable'')
             | Some opts \<Rightarrow> Inr (Some
                 \<lparr>d_name = n, d_type = dest_type, d_keep = k, d_path = p, d_host = host,
                  d_port = port, d_user = user, d_ssh_key = ssh_key,
                  d_ssh_options = opts, d_bwlimit_kbps = bwlimit\<rparr>)))
      | _ \<Rightarrow> Inr None)"

text \<open>One table of a valid type.\<close>

definition parse_destination_table ::
  "pydict \<Rightarrow> string \<Rightarrow> string \<Rightarrow> string list \<Rightarrow> errors
     \<Rightarrow> exn + (destination_config option \<times> string list \<times> errors)" where
  "parse_destination_table t dest_type context seen errs =
     (let errs = reject_unknown_keys t (destination_keys dest_type) context errs;
          (name, errs) = require_str t ''name'' context errs;
          (seen, errs) = note_name name seen errs;
          (path, errs) = require_str t ''path'' context errs;
          (keep, errs) = parse_keep t context errs;
          (ssh_vals, errs) = parse_ssh_fields t context dest_type errs
      in case make_destination name path keep dest_type ssh_vals of
           Inl e \<Rightarrow> Inl e
         | Inr d \<Rightarrow> Inr (d, seen, errs))"

text \<open>
  One iteration of the loop: the destination it appends (if any), the names seen, the
  errors; or the TypeError.
\<close>

definition parse_destination ::
  "nat \<Rightarrow> pyval \<Rightarrow> string list \<Rightarrow> errors
     \<Rightarrow> exn + (destination_config option \<times> string list \<times> errors)" where
  "parse_destination index table seen errs =
     (let context = dest_context index in
      if \<not> is_dict table then Inr (None, seen, errs @ [NotATable context])
      else
        (let t = as_dict table
         in case dict_get t ''type'' of
              None \<Rightarrow> Inr (None, seen, errs @ [NotOneOf ''type'' context valid_destination_types None])
            | Some ty \<Rightarrow>
                if \<not> py_in_strs ty valid_destination_types
                then Inr (None, seen, errs @ [NotOneOf ''type'' context valid_destination_types (Some ty)])
                else parse_destination_table t (as_str ty) context seen errs))"

fun parse_destination_loop ::
  "nat \<Rightarrow> pyval list \<Rightarrow> string list \<Rightarrow> destination_config list \<Rightarrow> errors
     \<Rightarrow> exn + (destination_config list \<times> errors)" where
  "parse_destination_loop index [] seen dests errs = Inr (dests, errs)"
| "parse_destination_loop index (table # rest) seen dests errs =
     (case parse_destination index table seen errs of
        Inl e \<Rightarrow> Inl e
      | Inr (d, seen', errs') \<Rightarrow>
          parse_destination_loop (Suc index) rest seen'
            (dests @ (case d of None \<Rightarrow> [] | Some x \<Rightarrow> [x])) errs')"

definition parse_destinations ::
  "pyval option \<Rightarrow> errors \<Rightarrow> exn + (destination_config list \<times> errors)" where
  "parse_destinations raw_list errs =
     (case raw_list of
        None \<Rightarrow> Inr ([], errs @ [NoDestinations])
      | Some v \<Rightarrow>
          if v = PList [] then Inr ([], errs @ [NoDestinations])
          else if \<not> is_list v then Inr ([], errs @ [DestinationsNotList])
          else parse_destination_loop 0 (as_list v) [] [] errs)"

subsection \<open>The whole document\<close>

definition top_level_keys :: "string list" where
  "top_level_keys = [''schema_version'', ''backup'', ''replication'', ''transfer'', ''retention'',
     ''destinations'', ''logging'', ''lock'', ''hooks'']"

text \<open>The final cross-check of the work directory against the local destinations.\<close>

definition work_dir_errors :: "backup_config option \<Rightarrow> destination_config list \<Rightarrow> errors" where
  "work_dir_errors backup dests =
     (case backup of None \<Rightarrow> []
      | Some b \<Rightarrow> map (\<lambda>d. WorkDirClash (d_name d))
          (filter (\<lambda>d. d_type d = ''local'' \<and> path_str (b_work_dir b) = d_path d) dests))"

text \<open>Everything before \<open>errors.raise_if_any()\<close>: the parsed parts and all the errors.\<close>

definition validate_config ::
  "pydict \<Rightarrow> exn + ((backup_config option \<times> (replication_config \<times> transfer_config \<times> retention_config)
     \<times> destination_config list \<times> (logging_config \<times> lock_config \<times> hooks_config)) \<times> errors)" where
  "validate_config raw =
     (let errs = reject_unknown_keys raw top_level_keys ''top-level'' [];
          sv = dict_get raw ''schema_version'';
          bad_version = (case sv of None \<Rightarrow> True | Some v \<Rightarrow> \<not> py_eq_int v supported_schema_version);
          errs = err_if bad_version (BadSchemaVersion sv) errs;
          (backup, errs) = parse_backup (dict_get raw ''backup'') errs;
          (replication, errs) = parse_replication (dict_get raw ''replication'') errs;
          (transfer, errs) = parse_transfer (dict_get raw ''transfer'') errs;
          (retention, errs) = parse_retention (dict_get raw ''retention'') errs
      in case parse_destinations (dict_get raw ''destinations'') errs of
           Inl e \<Rightarrow> Inl e
         | Inr (destinations, errs) \<Rightarrow>
             (let (logging, errs) = parse_logging (dict_get raw ''logging'') errs;
                  (lock, errs) = parse_lock (dict_get raw ''lock'') errs;
                  (hooks, errs) = parse_hooks (dict_get raw ''hooks'') errs;
                  errs = errs @ work_dir_errors backup destinations
              in Inr ((backup, (replication, transfer, retention), destinations, (logging, lock, hooks)), errs)))"

text \<open>
  With no error collected the backup section is present; the last branch stands for the
  source's \<open>assert\<close>.
\<close>

definition parse_config :: "pydict \<Rightarrow> exn + config" where
  "parse_config raw =
     (case validate_config raw of
        Inl e \<Rightarrow> Inl e
      | Inr ((backup, (replication, transfer, retention), destinations, (logging, lock, hooks)), errs) \<Rightarrow>
          (case raise_if_any errs of
             Inl e \<Rightarrow> Inl e
           | Inr _ \<Rightarrow>
               (case (backup, dict_get raw ''schema_version'') of
                  (Some b, Some sv) \<Rightarrow> Inr
                    \<lparr>c_schema_version = sv, c_backup = b, c_destinations = destinations,
                     c_replication = replication, c_transfer = transfer, c_retention = retention,
                     c_logging = logging, c_lock = lock, c_hooks = hooks\<rparr>
                | _ \<Rightarrow> Inl AssertionError)))"

end
