(* ===== verification/Config_Accept.thy ===== *)
theory Config_Accept
  imports Config_Correct
begin

text \<open>
  What \<open>parse_config\<close> accepts and reports: an accepted configuration is well-formed, a
  rejected one is rejected with all the problems of all its sections, and the only other
  outcome is the TypeError of an unchecked \<open>ssh_options\<close>.
\<close>

lemma parse_config_Inr:
  assumes "parse_destinations (dict_get raw ''destinations'') [] = Inr (ds, es)"
  shows "parse_config raw =
     (if the (document_errors raw) \<noteq> [] then Inl (ConfigError (invalid_message (the (document_errors raw))))
      else Inr \<lparr>c_schema_version = the (dict_get raw ''schema_version''),
        c_backup = the (fst (parse_backup (dict_get raw ''backup'') [])), c_destinations = ds,
        c_replication = fst (parse_replication (dict_get raw ''replication'') []),
        c_transfer = fst (parse_transfer (dict_get raw ''transfer'') []),
        c_retention = fst (parse_retention (dict_get raw ''retention'') []),
        c_logging = fst (parse_logging (dict_get raw ''logging'') []),
        c_lock = fst (parse_lock (dict_get raw ''lock'') []),
        c_hooks = fst (parse_hooks (dict_get raw ''hooks'') [])\<rparr>)"
proof (cases "the (document_errors raw) = []")
  case True
  with assms have h: "header_errors raw = []" and b: "snd (parse_backup (dict_get raw ''backup'') []) = []"
    by (simp_all add: document_errors_def)
  from b parse_backup_wf obtain x where "fst (parse_backup (dict_get raw ''backup'') []) = Some x"
    by (metis prod.collapse)
  moreover from h obtain v where "dict_get raw ''schema_version'' = Some v"
    by (auto simp: header_errors_def split: option.splits)
  ultimately show ?thesis
    by (simp add: parse_config_def validate_config_eq assms True raise_if_any_def built_def)
qed (simp add: parse_config_def validate_config_eq assms raise_if_any_def built_def)

lemma parse_destinations_ok:
  assumes "parse_destinations t [] = Inr (ds, [])"
  shows "ds \<noteq> [] \<and> list_all wf_destination ds \<and> distinct (map d_name ds)"
proof -
  from assms obtain v where v: "t = Some v" "v \<noteq> PList []" "is_list v"
    and l: "parse_destination_loop 0 (as_list v) [] [] [] = Inr (ds, [])"
    by (simp add: parse_destinations_def split: option.splits if_splits)
  from parse_destination_loop_ok [OF l] v(2,3) show ?thesis by (cases v) auto
qed

text \<open>
  C11. An accepted configuration is well-formed: the schema version equals 1, the backup
  section has a work directory and a non-empty prefix and none of its extra arguments sets
  a reserved option, there is at least one destination, names are unique, every local
  destination has only defaults in the ssh fields and a path textually different from the
  work directory, every ssh destination has host, user, key, a port in 1..65535 and string
  options, every keep is at least 1, enumerated settings are in their sets and numeric ones
  are not negative.
\<close>

theorem parse_config_wf:
  assumes "parse_config raw = Inr c"
  shows "wf_config c"
proof -
  obtain ds es where d: "parse_destinations (dict_get raw ''destinations'') [] = Inr (ds, es)"
    using assms parse_config_Inl by (cases "parse_destinations (dict_get raw ''destinations'') []") fastforce+
  with assms have nil: "the (document_errors raw) = []" by (auto simp: parse_config_Inr split: if_splits)
  with d have es: "es = []" and h: "header_errors raw = []" and b: "snd (parse_backup (dict_get raw ''backup'') []) = []"
    and w: "work_dir_errors (fst (parse_backup (dict_get raw ''backup'') [])) ds = []"
    by (simp_all add: document_errors_def)
  from b parse_backup_wf obtain x where x: "fst (parse_backup (dict_get raw ''backup'') []) = Some x" "wf_backup x"
    by (metis prod.collapse)
  from h obtain v where v: "dict_get raw ''schema_version'' = Some v" "py_eq_int v supported_schema_version"
    by (auto simp: header_errors_def split: option.splits if_splits)
  have l: "list_all (\<lambda>d. d_type d = ''local'' \<longrightarrow> d_path d \<noteq> path_str (b_work_dir x)) ds"
    using w x(1) by (auto simp: work_dir_errors_def filter_empty_conv list_all_iff)
  show ?thesis
    using assms nil x v l parse_destinations_ok [OF d [unfolded es]]
      parse_replication_wf parse_transfer_wf parse_retention_wf parse_logging_wf parse_lock_wf
    by (auto simp: parse_config_Inr [OF d] wf_config_def)
qed

text \<open>The smallest document: a work directory and one local destination.\<close>

definition sample_raw :: pydict where
  "sample_raw = [(''schema_version'', PInt 1), (''backup'', PDict [(''work_dir'', PStr ''/w'')]),
     (''destinations'', PList [PDict [(''name'', PStr ''a''), (''type'', PStr ''local''), (''path'', PStr ''/a''),
        (''keep'', PInt 7)]])]"

definition sample_backup :: backup_config where
  "sample_backup = \<lparr>b_work_dir = [''/'', ''w''], b_name_prefix = ''full'', b_mariabackup_path = PStr ''mariabackup'',
     b_defaults_file = PStr [], b_defaults_extra_file = PStr [], b_extra_args = [], b_prepare = True,
     b_timeout_seconds = 0\<rparr>"

definition sample_destination :: destination_config where
  "sample_destination = \<lparr>d_name = ''a'', d_type = ''local'', d_keep = 7, d_path = ''/a'', d_host = PStr [],
     d_port = PInt 22, d_user = PStr [], d_ssh_key = PStr [], d_ssh_options = [], d_bwlimit_kbps = PInt 0\<rparr>"

definition sample_config :: config where
  "sample_config = \<lparr>c_schema_version = PInt 1, c_backup = sample_backup, c_destinations = [sample_destination],
     c_replication = default_replication, c_transfer = default_transfer, c_retention = default_retention,
     c_logging = default_logging, c_lock = default_lock, c_hooks = default_hooks\<rparr>"

lemma sample_parsed: "parse_config sample_raw = Inr sample_config"
  by code_simp

theorem parse_config_wf_witness:
  "parse_config sample_raw = Inr sample_config \<and> wf_config sample_config"
  by (intro conjI sample_parsed parse_config_wf [OF sample_parsed])

subsection \<open>The escape\<close>

text \<open>
  A local destination table whose name, path and keep are right and whose \<open>ssh_options\<close>
  (an unknown key there, so reported, but read all the same) is a number, a boolean or a
  date.
\<close>

definition tuple_escapes :: "pyval \<Rightarrow> bool" where
  "tuple_escapes table \<longleftrightarrow> is_dict table \<and>
     (let t = as_dict table in
      dict_get t ''type'' = Some (PStr ''local'') \<and>
      fst (require_str t ''name'' [] []) \<noteq> None \<and> fst (require_str t ''path'' [] []) \<noteq> None \<and>
      fst (parse_keep t [] []) \<noteq> None \<and>
      (case dict_get t ''ssh_options'' of None \<Rightarrow> False | Some v \<Rightarrow> py_tuple v = None))"

lemma require_str_fst: "fst (require_str t k c errs) = fst (require_str t k c' errs')"
  by (simp add: require_str_def split: option.split)

lemma parse_keep_fst: "fst (parse_keep t c errs) = fst (parse_keep t c' errs')"
  by (simp add: parse_keep_def split: option.split)

lemma ssh_options_tuple: "py_tuple (fst (snd (snd (snd (snd (fst (parse_ssh_fields t c ''ssh'' errs))))))) \<noteq> None"
  by (auto simp: parse_ssh_fields_def Let_def not_str_list_def is_list_conv)

lemma make_destination_Inl:
  "make_destination name path keep ty vs = Inl e \<longleftrightarrow>
     name \<noteq> None \<and> path \<noteq> None \<and> keep \<noteq> None \<and> py_tuple (fst (snd (snd (snd (snd vs))))) = None
     \<and> e = TypeError ''object is not iterable''"
  by (auto simp: make_destination_def split: option.split prod.split)

lemma local_options_tuple:
  "py_tuple (dict_get_or t ''ssh_options'' (PList [])) = None \<longleftrightarrow>
     (case dict_get t ''ssh_options'' of None \<Rightarrow> False | Some v \<Rightarrow> py_tuple v = None)"
  by (simp add: dict_get_or_def dict_get_def split: option.split)

lemma case_sum_eq_Inl: "(case r of Inl x \<Rightarrow> Inl x | Inr y \<Rightarrow> Inr (f y)) = Inl e \<longleftrightarrow> r = Inl e"
  by (cases r) auto

lemma parse_destination_table_Inl:
  assumes "ty \<in> set valid_destination_types" "dict_get t ''type'' = Some (PStr ty)"
  shows "parse_destination_table t ty c seen errs = Inl e \<longleftrightarrow>
    tuple_escapes (PDict t) \<and> e = TypeError ''object is not iterable''"
proof (cases "ty = ''ssh''")
  case True
  with assms show ?thesis
    by (auto simp: ssh_options_tuple parse_destination_table_def Let_def split_beta make_destination_Inl tuple_escapes_def
        case_sum_eq_Inl)
next
  case False
  with assms(1) have "ty = ''local''" using valid_destination_types_iff by blast
  then show ?thesis
    using assms(2)
    by (auto simp: parse_destination_table_def Let_def split_beta make_destination_Inl tuple_escapes_def
        parse_ssh_fields_local local_options_tuple
        require_str_fst [of t _ c _ "[]" "[]"] parse_keep_fst [of t c _ "[]" "[]"] case_sum_eq_Inl)
qed

lemma parse_destination_Inl:
  "parse_destination i v seen errs = Inl e \<longleftrightarrow> tuple_escapes v \<and> e = TypeError ''object is not iterable''"
proof (cases "\<exists>t ty. v = PDict t \<and> dict_get t ''type'' = Some (PStr ty) \<and> ty \<in> set valid_destination_types")
  case True
  then show ?thesis
    by (auto simp: parse_destination_def py_in_strs_def parse_destination_table_Inl)
next
  case False
  then have "\<not> tuple_escapes v"
    by (auto simp: tuple_escapes_def is_dict_conv Let_def valid_destination_types_def)
  with False show ?thesis
    by (auto simp: parse_destination_def py_in_strs_def is_dict_conv is_str_conv Let_def split: option.splits)
qed

lemma parse_destination_loop_Inl:
  "parse_destination_loop i vs seen ds errs = Inl e \<longleftrightarrow>
     list_ex tuple_escapes vs \<and> e = TypeError ''object is not iterable''"
proof (induction i vs seen ds errs rule: parse_destination_loop.induct)
  case (2 i v vs seen ds errs)
  then show ?case
    using parse_destination_Inl [of i v seen errs]
    by (cases "parse_destination i v seen errs") auto
qed simp


text \<open>
  C37. The exceptions of \<open>parse_config\<close> are ConfigErrors, but for one: a TypeError, raised
  exactly when some entry of \<open>destinations\<close> is a local destination, complete otherwise,
  whose \<open>ssh_options\<close> cannot be iterated. It takes the place of the report of all errors.
\<close>

theorem parse_config_type_error:
  "(\<exists>e. parse_config raw = Inl e \<and> \<not> is_keeper_error e) \<longleftrightarrow>
   (\<exists>vs. dict_get raw ''destinations'' = Some (PList vs) \<and> (\<exists>v \<in> set vs. tuple_escapes v))"
proof -
  have "(\<exists>e. parse_config raw = Inl e \<and> \<not> is_keeper_error e) \<longleftrightarrow>
      (\<exists>e. parse_destinations (dict_get raw ''destinations'') [] = Inl e)"
  proof (cases "parse_destinations (dict_get raw ''destinations'') []")
    case (Inl e)
    then show ?thesis
      by (auto simp: parse_config_Inl parse_destinations_def parse_destination_loop_Inl
          is_keeper_error_def split: option.splits if_splits)
  next
    case (Inr r)
    then show ?thesis by (cases r) (auto simp: parse_config_Inr is_keeper_error_def split: if_splits)
  qed
  also have "\<dots> \<longleftrightarrow> (\<exists>vs. dict_get raw ''destinations'' = Some (PList vs) \<and> (\<exists>v \<in> set vs. tuple_escapes v))"
    by (auto simp: parse_destinations_def is_list_conv parse_destination_loop_Inl list_ex_iff split: option.split)
  finally show ?thesis .
qed

text \<open>The bounded quantifier at a concrete document: a local destination with \<open>ssh_options = 1\<close>.\<close>

definition escaping_raw :: pydict where
  "escaping_raw = [(''destinations'', PList [PDict [(''name'', PStr ''a''), (''type'', PStr ''local''),
     (''path'', PStr ''/a''), (''keep'', PInt 7), (''ssh_options'', PInt 1)]])]"

theorem parse_config_type_error_witness:
  "\<exists>e. parse_config escaping_raw = Inl e \<and> \<not> is_keeper_error e"
proof -
  have "\<exists>vs. dict_get escaping_raw ''destinations'' = Some (PList vs) \<and> (\<exists>v \<in> set vs. tuple_escapes v)"
    by (simp add: escaping_raw_def dict_get_def tuple_escapes_def require_str_def parse_keep_def not_int_from_def)
  then show ?thesis using parse_config_type_error [of escaping_raw] by blast
qed

end
