(* ===== verification/Config_Roundtrip.thy ===== *)
theory Config_Roundtrip
  imports Config_Accept
begin

text \<open>
  Completeness of the validation: every well-formed configuration has a document, and
  parsing that document gives the configuration back. With \<open>parse_config_wf\<close> it says that
  \<open>wf_config\<close> is exactly what \<open>parse_config\<close> accepts.
\<close>

definition backup_doc :: "backup_config \<Rightarrow> pydict" where
  "backup_doc b = [(''work_dir'', PStr (path_str (b_work_dir b))), (''name_prefix'', PStr (b_name_prefix b)),
     (''mariabackup_path'', b_mariabackup_path b), (''defaults_file'', b_defaults_file b),
     (''defaults_extra_file'', b_defaults_extra_file b), (''extra_args'', PList (map PStr (b_extra_args b))),
     (''prepare'', PBool (b_prepare b)), (''timeout_seconds'', PInt (b_timeout_seconds b))]"

definition replication_doc :: "replication_config \<Rightarrow> pydict" where
  "replication_doc r = [(''mode'', PStr (r_mode r)), (''max_lag_seconds'', PInt (r_max_lag_seconds r)),
     (''safe_slave_backup'', PBool (r_safe_slave_backup r)), (''client_path'', r_client_path r)]"

definition transfer_doc :: "transfer_config \<Rightarrow> pydict" where
  "transfer_doc t = [(''on_destination_failure'', PStr (t_on_destination_failure t)),
     (''retries'', PInt (t_retries t)), (''rsync_path'', t_rsync_path t)]"

definition retention_doc :: "retention_config \<Rightarrow> pydict" where
  "retention_doc r = [(''incomplete_grace_hours'', PInt (rt_incomplete_grace_hours r))]"

definition logging_doc :: "logging_config \<Rightarrow> pydict" where
  "logging_doc l = [(''level'', PStr (l_level l)), (''format'', PStr (l_format l)), (''file'', l_file l)]"

definition lock_doc :: "lock_config \<Rightarrow> pydict" where
  "lock_doc l = [(''file'', PStr (path_str (lk_file l)))]"

definition hooks_doc :: "hooks_config \<Rightarrow> pydict" where
  "hooks_doc h = [(''pre_backup'', PStr (h_pre_backup h)), (''post_backup'', PStr (h_post_backup h)),
     (''pre_purge'', PStr (h_pre_purge h)), (''post_run'', PStr (h_post_run h))]"

definition destination_doc :: "destination_config \<Rightarrow> pydict" where
  "destination_doc d = [(''name'', PStr (d_name d)), (''type'', PStr (d_type d)), (''path'', PStr (d_path d)),
     (''keep'', PInt (d_keep d))] @
     (if d_type d = ''ssh'' then [(''host'', d_host d), (''port'', d_port d), (''user'', d_user d),
        (''ssh_key'', d_ssh_key d), (''ssh_options'', PList (d_ssh_options d)),
        (''bwlimit_kbps'', d_bwlimit_kbps d)] else [])"

definition config_doc :: "config \<Rightarrow> pydict" where
  "config_doc c = [(''schema_version'', c_schema_version c), (''backup'', PDict (backup_doc (c_backup c))),
     (''replication'', PDict (replication_doc (c_replication c))), (''transfer'', PDict (transfer_doc (c_transfer c))),
     (''retention'', PDict (retention_doc (c_retention c))),
     (''destinations'', PList (map (\<lambda>d. PDict (destination_doc d)) (c_destinations c))),
     (''logging'', PDict (logging_doc (c_logging c))), (''lock'', PDict (lock_doc (c_lock c))),
     (''hooks'', PDict (hooks_doc (c_hooks c)))]"

subsection \<open>Section by section\<close>

lemma strs_of_list [simp]: "\<not> not_str_list (PList (map PStr xs))" "map (as_str \<circ> PStr) xs = xs"
  by (simp_all add: not_str_list_def list_all_iff comp_def)

lemma not_int_from_PInt [simp]: "not_int_from lo (PInt i) \<longleftrightarrow> i < lo"
  by (simp add: not_int_from_def)

lemma py_in_strs_PStr [simp]: "py_in_strs (PStr s) ss \<longleftrightarrow> s \<in> set ss"
  by (simp add: py_in_strs_def)

lemmas section_doc = Let_def err_if_def reject_unknown_keys_def require_str_def dict_get_def dict_get_or_def
  parse_hook_def

lemma parse_backup_doc:
  assumes "wf_backup b"
  shows "parse_backup (Some (PDict (backup_doc b))) errs = (Some b, errs)"
proof -
  from assms have "filter (\<lambda>r. list_ex (sets_reserved r) (b_extra_args b)) reserved_mariabackup_args = []"
    by (auto simp: wf_backup_def filter_empty_conv list_ex_iff)
  with assms show ?thesis
    by (simp add: parse_backup_def backup_doc_def section_doc wf_backup_def path_of_str path_str_nonempty)
qed

lemma parse_replication_doc:
  "wf_replication r \<Longrightarrow> parse_replication (Some (PDict (replication_doc r))) errs = (r, errs)"
  by (simp add: parse_replication_def replication_doc_def section_doc wf_replication_def)

lemma parse_transfer_doc:
  "wf_transfer t \<Longrightarrow> parse_transfer (Some (PDict (transfer_doc t))) errs = (t, errs)"
  by (simp add: parse_transfer_def transfer_doc_def section_doc wf_transfer_def)

lemma parse_retention_doc:
  "wf_retention r \<Longrightarrow> parse_retention (Some (PDict (retention_doc r))) errs = (r, errs)"
  by (simp add: parse_retention_def retention_doc_def section_doc wf_retention_def)

lemma parse_logging_doc:
  "wf_logging l \<Longrightarrow> parse_logging (Some (PDict (logging_doc l))) errs = (l, errs)"
  by (simp add: parse_logging_def logging_doc_def section_doc wf_logging_def)

lemma parse_lock_doc: "wf_lock l \<Longrightarrow> parse_lock (Some (PDict (lock_doc l))) errs = (l, errs)"
  by (simp add: parse_lock_def lock_doc_def section_doc wf_lock_def path_of_str path_str_nonempty)

lemma parse_hooks_doc: "parse_hooks (Some (PDict (hooks_doc h))) errs = (h, errs)"
  by (simp add: parse_hooks_def hooks_doc_def section_doc)

subsection \<open>Destinations\<close>

lemma ssh_doc_values:
  "d_type d = ''ssh'' \<Longrightarrow>
     dict_get_or (destination_doc d) ''host'' v = d_host d \<and> dict_get_or (destination_doc d) ''port'' v = d_port d \<and>
     dict_get_or (destination_doc d) ''user'' v = d_user d \<and> dict_get_or (destination_doc d) ''ssh_key'' v = d_ssh_key d \<and>
     dict_get_or (destination_doc d) ''ssh_options'' v = PList (d_ssh_options d) \<and>
     dict_get_or (destination_doc d) ''bwlimit_kbps'' v = d_bwlimit_kbps d"
  "d_type d \<noteq> ''ssh'' \<Longrightarrow> k \<in> set ssh_keys \<Longrightarrow> dict_get_or (destination_doc d) k v = v"
  by (auto simp: destination_doc_def dict_get_or_def ssh_keys_def)

lemma parse_ssh_fields_doc:
  assumes "wf_destination d"
  shows "parse_ssh_fields (destination_doc d) c (d_type d) errs =
     ((d_host d, d_port d, d_user d, d_ssh_key d, PList (d_ssh_options d), d_bwlimit_kbps d), errs)"
proof (cases "d_type d = ''ssh''")
  case True
  with assms obtain p b where "d_port d = PInt p" "0 < p" "p < 65536" "d_bwlimit_kbps d = PInt b" "0 \<le> b"
    "truthy (d_host d)" "truthy (d_user d)" "truthy (d_ssh_key d)" "list_all is_str (d_ssh_options d)"
    by (auto simp: wf_destination_def wf_ssh_fields_def)
  with True show ?thesis
    by (simp add: parse_ssh_fields_def ssh_doc_values(1) Let_def err_if_def not_str_list_def)
next
  case False
  with assms show ?thesis
    by (simp add: parse_ssh_fields_local ssh_doc_values(2) ssh_keys_def wf_destination_def default_ssh_fields_def)
qed

lemma parse_destination_doc:
  assumes "wf_destination d"
  shows "parse_destination i (PDict (destination_doc d)) seen errs =
    Inr (Some d, seen @ [d_name d], err_if (d_name d \<in> set seen) (DuplicateName (d_name d)) errs)"
proof -
  have ty: "d_type d \<in> set valid_destination_types"
    using assms by (auto simp: wf_destination_def valid_destination_types_iff)
  have keys: "reject_unknown_keys (destination_doc d) (destination_keys (d_type d)) c es = es" for c es
    by (simp add: reject_unknown_keys_def destination_doc_def destination_keys_def ssh_keys_def)
  have get: "dict_get (destination_doc d) ''type'' = Some (PStr (d_type d))"
    "require_str (destination_doc d) ''name'' c es = (Some (d_name d), es)"
    "require_str (destination_doc d) ''path'' c es = (Some (d_path d), es)"
    "parse_keep (destination_doc d) c es = (Some (d_keep d), es)" for c es
    using assms by (simp_all add: section_doc destination_doc_def parse_keep_def wf_destination_def)
  show ?thesis
    by (simp add: parse_destination_def get ty parse_destination_table_def keys note_name_def
        parse_ssh_fields_doc [OF assms] make_destination_def)
qed

lemma parse_destination_loop_doc:
  "list_all wf_destination ds \<Longrightarrow> distinct (map d_name ds) \<Longrightarrow> set (map d_name ds) \<inter> set seen = {} \<Longrightarrow>
   parse_destination_loop i (map (\<lambda>d. PDict (destination_doc d)) ds) seen acc errs = Inr (acc @ ds, errs)"
proof (induction ds arbitrary: i seen acc)
  case (Cons d ds)
  then show ?case by (auto simp: parse_destination_doc err_if_def)
qed simp

text \<open>
  C12. Every well-formed configuration is accepted: parsing its document gives it back
  unchanged, every field of every section included.
\<close>

theorem parse_config_roundtrip:
  assumes "wf_config c"
  shows "parse_config (config_doc c) = Inr c"
proof -
  let ?raw = "config_doc c"
  have get: "dict_get ?raw ''schema_version'' = Some (c_schema_version c)"
    "dict_get ?raw ''backup'' = Some (PDict (backup_doc (c_backup c)))"
    "dict_get ?raw ''replication'' = Some (PDict (replication_doc (c_replication c)))"
    "dict_get ?raw ''transfer'' = Some (PDict (transfer_doc (c_transfer c)))"
    "dict_get ?raw ''retention'' = Some (PDict (retention_doc (c_retention c)))"
    "dict_get ?raw ''destinations'' = Some (PList (map (\<lambda>d. PDict (destination_doc d)) (c_destinations c)))"
    "dict_get ?raw ''logging'' = Some (PDict (logging_doc (c_logging c)))"
    "dict_get ?raw ''lock'' = Some (PDict (lock_doc (c_lock c)))"
    "dict_get ?raw ''hooks'' = Some (PDict (hooks_doc (c_hooks c)))"
    by (simp_all add: config_doc_def dict_get_def)
  note wf = assms [unfolded wf_config_def]
  have d: "parse_destinations (dict_get ?raw ''destinations'') [] = Inr (c_destinations c, [])"
    using wf parse_destination_loop_doc [of "c_destinations c" "[]" 0 "[]" "[]"]
    by (simp add: get parse_destinations_def)
  have "reject_unknown_keys ?raw top_level_keys ''top-level'' [] = []"
    by (simp add: reject_unknown_keys_def config_doc_def top_level_keys_def)
  then have h: "header_errors ?raw = []"
    using wf by (simp add: header_errors_def get)
  have w: "work_dir_errors (Some (c_backup c)) (c_destinations c) = []"
    using wf by (auto simp: work_dir_errors_def filter_empty_conv list_all_iff)
  show ?thesis
    using wf by (simp add: parse_config_Inr [OF d] document_errors_def d [unfolded get] h w get parse_backup_doc
        parse_replication_doc parse_transfer_doc parse_retention_doc parse_logging_doc parse_lock_doc
        parse_hooks_doc)
qed

theorem parse_config_roundtrip_witness:
  "wf_config sample_config \<and> parse_config (config_doc sample_config) = Inr sample_config"
proof -
  have "wf_backup sample_backup"
    by (auto simp: wf_backup_def sample_backup_def wf_path_def is_root_part_def plain_def)
  moreover have "wf_destination sample_destination"
    by (simp add: wf_destination_def sample_destination_def default_ssh_fields_def)
  moreover have "path_str (b_work_dir sample_backup) = ''/w''"
    by (simp add: sample_backup_def path_str_def is_root_part_def)
  moreover have "wf_replication default_replication" "wf_transfer default_transfer"
    "wf_retention default_retention" "wf_logging default_logging" "wf_lock default_lock"
    by (simp_all add: wf_replication_def default_replication_def wf_transfer_def default_transfer_def
        wf_retention_def default_retention_def wf_logging_def default_logging_def wf_lock_def default_lock_def
        wf_path_of)
  ultimately have "wf_config sample_config"
    by (simp add: wf_config_def sample_config_def supported_schema_version_def sample_destination_def)
  with parse_config_roundtrip show ?thesis by blast
qed

end
