(* ===== verification/File_Tree.thy ===== *)
theory File_Tree
  imports Py_Path
begin

text \<open>
  The file system as a tree: a file with its contents or a directory with its named
  entries. A path is the list of parts of \<open>Py_Path\<close>; the empty path is the working
  directory, which holds the root \<open>/\<close> as its entry of that name. There are no symbolic
  links and no permissions: an operation the system would refuse for such a reason is a
  failing system call of the layer above. \<open>lookup_tree\<close> reads a subtree, \<open>alter\<close> sets or
  removes one; the lemmas say what an alteration leaves alone.
\<close>

datatype ftree = FFile string | FDir "(string \<times> ftree) list"

fun is_dir_tree :: "ftree \<Rightarrow> bool" where
  "is_dir_tree (FDir _) = True"
| "is_dir_tree (FFile _) = False"

lemma is_dir_tree_conv: "is_dir_tree t \<longleftrightarrow> (\<exists>es. t = FDir es)"
  by (cases t) auto

lemma not_dir_tree_conv: "\<not> is_dir_tree t \<longleftrightarrow> (\<exists>s. t = FFile s)"
  by (cases t) auto

fun lookup_tree :: "ftree \<Rightarrow> path \<Rightarrow> ftree option" where
  "lookup_tree t [] = Some t"
| "lookup_tree (FFile s) (c # cs) = None"
| "lookup_tree (FDir es) (c # cs) = (case map_of es c of None \<Rightarrow> None | Some t \<Rightarrow> lookup_tree t cs)"

text \<open>Set (\<open>Some\<close>) or remove (\<open>None\<close>) one entry, keeping the order of the others.\<close>

definition set_entry :: "string \<Rightarrow> ftree option \<Rightarrow> (string \<times> ftree) list \<Rightarrow> (string \<times> ftree) list" where
  "set_entry c x es = (case x of
       None \<Rightarrow> filter (\<lambda>kv. fst kv \<noteq> c) es
     | Some t \<Rightarrow> if c \<in> fst ` set es then map (\<lambda>kv. (fst kv, if fst kv = c then t else snd kv)) es else es @ [(c, t)])"

text \<open>The subtree at a path, replaced; nothing changes when the parent is not a directory.\<close>

fun alter :: "path \<Rightarrow> ftree option \<Rightarrow> ftree \<Rightarrow> ftree" where
  "alter [] x t = (case x of None \<Rightarrow> t | Some u \<Rightarrow> u)"
| "alter (c # cs) x (FFile s) = FFile s"
| "alter (c # cs) x (FDir es) =
     (if cs = [] then FDir (set_entry c x es)
      else case map_of es c of None \<Rightarrow> FDir es | Some t \<Rightarrow> FDir (set_entry c (Some (alter cs x t)) es))"

definition is_dir_at :: "ftree \<Rightarrow> path \<Rightarrow> bool" where
  "is_dir_at fs p \<longleftrightarrow> (case lookup_tree fs p of Some t \<Rightarrow> is_dir_tree t | None \<Rightarrow> False)"

definition is_file_at :: "ftree \<Rightarrow> path \<Rightarrow> bool" where
  "is_file_at fs p \<longleftrightarrow> (case lookup_tree fs p of Some t \<Rightarrow> \<not> is_dir_tree t | None \<Rightarrow> False)"

definition exists_at :: "ftree \<Rightarrow> path \<Rightarrow> bool" where
  "exists_at fs p \<longleftrightarrow> lookup_tree fs p \<noteq> None"

text \<open>No two entries of a directory share a name.\<close>

fun wf_tree :: "ftree \<Rightarrow> bool" where
  "wf_tree (FFile s) = True"
| "wf_tree (FDir es) = (distinct (map fst es) \<and> (\<forall>(c, t) \<in> set es. wf_tree t))"

subsection \<open>Entries\<close>

lemma map_of_set_entry [simp]: "map_of (set_entry c x es) = (map_of es)(c := x)"
proof (cases x)
  case None
  then show ?thesis
    by (auto simp: set_entry_def fun_eq_iff map_of_filter_key [of "\<lambda>k. k \<noteq> c"])
next
  case (Some t)
  have *: "map_of (map (\<lambda>kv. (fst kv, if fst kv = c then t else snd kv)) es) k =
      (if k = c then map_option (\<lambda>_. t) (map_of es c) else map_of es k)" for k
    by (induction es) auto
  show ?thesis
  proof (cases "c \<in> fst ` set es")
    case True
    then obtain u where "map_of es c = Some u" by (metis map_of_eq_None_iff not_None_eq)
    with Some * True show ?thesis by (simp add: set_entry_def fun_eq_iff)
  next
    case False
    then have "map_of es c = None" by (simp add: map_of_eq_None_iff)
    with Some False show ?thesis
      by (simp add: set_entry_def fun_eq_iff map_add_def split: option.split)
  qed
qed

lemma set_set_entry: "set (set_entry c x es) \<subseteq> set es \<union> (case x of None \<Rightarrow> {} | Some t \<Rightarrow> {(c, t)})"
  by (auto simp: set_entry_def split: option.splits if_splits)

lemma distinct_set_entry: "distinct (map fst es) \<Longrightarrow> distinct (map fst (set_entry c x es))"
  by (cases x) (auto simp: set_entry_def comp_def distinct_map inj_on_def rev_image_eqI)

lemma wf_tree_map_of: "wf_tree (FDir es) \<Longrightarrow> map_of es c = Some t \<Longrightarrow> wf_tree t"
  by (auto dest: map_of_SomeD)

lemma wf_tree_lookup: "wf_tree fs \<Longrightarrow> lookup_tree fs p = Some t \<Longrightarrow> wf_tree t"
proof (induction fs p rule: lookup_tree.induct)
  case (3 es c cs)
  then show ?case using wf_tree_map_of [of es c] by (auto split: option.splits)
qed auto

lemma wf_tree_alter: "wf_tree fs \<Longrightarrow> (\<And>t. x = Some t \<Longrightarrow> wf_tree t) \<Longrightarrow> wf_tree (alter p x fs)"
proof (induction p x fs rule: alter.induct)
  case (3 c cs x es)
  have *: "wf_tree (FDir (set_entry c y es))" if "\<And>t. y = Some t \<Longrightarrow> wf_tree t" for y
    using 3(2) that set_set_entry [of c y es] distinct_set_entry [of es c y]
    by (fastforce split: option.splits)
  show ?case
  proof (cases "cs = []")
    case True
    then have "alter (c # cs) x (FDir es) = FDir (set_entry c x es)" by simp
    moreover have "wf_tree (FDir (set_entry c x es))" by (rule *) (rule 3(3))
    ultimately show ?thesis by (simp only:)
  next
    case False
    show ?thesis
    proof (cases "map_of es c")
      case (Some t)
      from 3(1) [OF False Some wf_tree_map_of [OF 3(2) Some] 3(3)] have "wf_tree (alter cs x t)" .
      moreover have "alter (c # cs) x (FDir es) = FDir (set_entry c (Some (alter cs x t)) es)"
        using False Some by simp
      ultimately show ?thesis using * [of "Some (alter cs x t)"] by fastforce
    qed (use False 3(2) in simp)
  qed
qed (auto split: option.split)

subsection \<open>What an alteration changes\<close>

lemma lookup_append:
  "lookup_tree fs (p @ q) = (case lookup_tree fs p of None \<Rightarrow> None | Some t \<Rightarrow> lookup_tree t q)"
  by (induction fs p rule: lookup_tree.induct) (auto split: option.split)

lemma lookup_snoc:
  "lookup_tree fs (p @ [c]) = (case lookup_tree fs p of Some (FDir es) \<Rightarrow> map_of es c | _ \<Rightarrow> None)"
  by (auto simp: lookup_append split: option.split ftree.split)

lemma parent_is_dir: "lookup_tree fs (p @ c # cs) = Some t \<Longrightarrow> is_dir_at fs p"
  by (auto simp: lookup_append is_dir_at_def split: option.splits) (case_tac x2; simp)

lemma lookup_alter_same:
  "is_dir_at fs p \<Longrightarrow> lookup_tree (alter (p @ [c]) x fs) (p @ [c]) = x"
proof (induction p arbitrary: fs)
  case Nil
  then show ?case by (cases fs) (auto simp: is_dir_at_def split: option.split)
next
  case (Cons d p)
  then show ?case by (cases fs) (auto simp: is_dir_at_def split: option.split option.splits)
qed

lemma lookup_alter_below:
  "is_dir_at fs p \<Longrightarrow> lookup_tree (alter (p @ [c]) x fs) (p @ c # q) =
     (case x of None \<Rightarrow> None | Some t \<Rightarrow> lookup_tree t q)"
  using lookup_alter_same [of fs p c x] lookup_append [of "alter (p @ [c]) x fs" "p @ [c]" q] by simp

text \<open>A path that is neither above nor below the altered one.\<close>

definition apart :: "path \<Rightarrow> path \<Rightarrow> bool" where
  "apart p q \<longleftrightarrow> \<not> is_prefix p q \<and> \<not> is_prefix q p"

lemma apart_sym: "apart p q \<Longrightarrow> apart q p"
  by (simp add: apart_def)

lemma apart_below: "apart p q \<Longrightarrow> apart (p @ r) (q @ s)"
  unfolding apart_def is_prefix_iff by (metis append_assoc append_eq_append_conv2)

lemma apart_siblings [simp]: "apart (p @ c # r) (p @ d # s) \<longleftrightarrow> c \<noteq> d \<or> apart r s"
  by (auto simp: apart_def)

lemma apart_Cons: "apart (c # p) (d # q) \<longleftrightarrow> c \<noteq> d \<or> apart p q"
  by (auto simp: apart_def)

lemma apart_not_Nil: "apart p q \<Longrightarrow> p \<noteq> [] \<and> q \<noteq> []"
  by (auto simp: apart_def)

lemma lookup_alter_apart: "apart p q \<Longrightarrow> lookup_tree (alter p x fs) q = lookup_tree fs q"
proof (induction p x fs arbitrary: q rule: alter.induct)
  case (3 c cs x es)
  then obtain d ds where q: "q = d # ds" by (cases q) (auto simp: apart_def)
  with 3(2) have "c \<noteq> d \<or> apart cs ds" by (simp add: apart_Cons)
  then show ?case using 3(1) q apart_not_Nil [of cs ds] by (auto split: option.split)
qed (auto simp: apart_def)

lemma is_prefix_of_Nil [simp]: "is_prefix p [] \<longleftrightarrow> p = []"
  by (cases p) auto

text \<open>Above the altered path a directory stays a directory.\<close>

lemma is_dir_alter_above: "is_prefix q p \<Longrightarrow> q \<noteq> p \<Longrightarrow> is_dir_at (alter p x fs) q = is_dir_at fs q"
proof (induction p x fs arbitrary: q rule: alter.induct)
  case (3 c cs x es)
  show ?case
  proof (cases q)
    case (Cons d ds)
    with 3 show ?thesis by (auto simp: is_dir_at_def split: option.split)
  qed (simp add: is_dir_at_def split: option.split)
qed (auto simp: is_dir_at_def is_prefix_def)

lemma is_file_alter_above: "is_prefix q p \<Longrightarrow> q \<noteq> p \<Longrightarrow> is_file_at (alter p x fs) q = is_file_at fs q"
proof (induction p x fs arbitrary: q rule: alter.induct)
  case (3 c cs x es)
  show ?case
  proof (cases q)
    case (Cons d ds)
    with 3 show ?thesis by (auto simp: is_file_at_def split: option.split)
  qed (simp add: is_file_at_def split: option.split)
qed (auto simp: is_file_at_def is_prefix_def)

lemma kind_alter [simp]:
  assumes "\<not> is_prefix p q"
  shows "is_dir_at (alter p x fs) q = is_dir_at fs q" "is_file_at (alter p x fs) q = is_file_at fs q"
proof -
  have "is_dir_at (alter p x fs) q = is_dir_at fs q \<and> is_file_at (alter p x fs) q = is_file_at fs q"
  proof (cases "is_prefix q p")
    case True
    with assms have "q \<noteq> p" by auto
    with True show ?thesis by (simp add: is_dir_alter_above is_file_alter_above)
  next
    case False
    with assms have "apart p q" by (simp add: apart_def)
    then show ?thesis by (simp add: is_dir_at_def is_file_at_def lookup_alter_apart)
  qed
  then show "is_dir_at (alter p x fs) q = is_dir_at fs q" "is_file_at (alter p x fs) q = is_file_at fs q"
    by simp_all
qed

lemma exists_at_iff: "exists_at fs p \<longleftrightarrow> is_dir_at fs p \<or> is_file_at fs p"
  by (auto simp: exists_at_def is_dir_at_def is_file_at_def split: option.split)

lemma is_dir_at_conv: "is_dir_at fs p \<longleftrightarrow> (\<exists>es. lookup_tree fs p = Some (FDir es))"
  by (auto simp: is_dir_at_def is_dir_tree_conv split: option.split)

lemma is_file_at_conv: "is_file_at fs p \<longleftrightarrow> (\<exists>s. lookup_tree fs p = Some (FFile s))"
  by (auto simp: is_file_at_def not_dir_tree_conv split: option.split)

lemma is_file_at_below: "is_file_at fs (p @ q) \<Longrightarrow> exists_at fs p"
  by (auto simp: is_file_at_def exists_at_def lookup_append split: option.splits)

lemma is_file_at_parent: "is_file_at fs (p @ [c]) \<Longrightarrow> is_dir_at fs p"
  using parent_is_dir [of fs p c "[]"] by (auto simp: is_file_at_conv)

lemma alter_Nil_tree: "p \<noteq> [] \<Longrightarrow> is_dir_tree (alter p x fs) = is_dir_tree fs"
  by (cases p; cases fs) (auto split: option.split)

text \<open>The names of a directory.\<close>

definition names_at :: "ftree \<Rightarrow> path \<Rightarrow> string list" where
  "names_at fs p = (case lookup_tree fs p of Some (FDir es) \<Rightarrow> map fst es | _ \<Rightarrow> [])"

lemma names_at_iff: "c \<in> set (names_at fs p) \<longleftrightarrow> exists_at fs (p @ [c])"
  by (auto simp: names_at_def exists_at_def lookup_snoc domIff dom_map_of_conv_image_fst [symmetric]
      split: option.split ftree.split)

lemma distinct_names_at: "wf_tree fs \<Longrightarrow> distinct (names_at fs p)"
  using wf_tree_lookup [of fs p] by (auto simp: names_at_def split: option.split ftree.split)

end
