(* ===== verification/Io_Monad.thy ===== *)
theory Io_Monad
  imports File_Tree Py_Datetime
begin

text \<open>
  Effects as explicit passing of a world: the file tree with its modification times, the
  wall clock, the log, standard output and error, this process's number and the locks held, and a state \<open>'e\<close>
  outside this host (remote machines, the database) that only external processes touch.
  A computation yields an exception or a value, and the world after it.

  Every system call first consults \<open>w_fault\<close>: at step \<open>n\<close> the call may fail with an
  \<open>OSError\<close>, or the process may be killed there (after part of a write has reached the
  file). A statement about all \<open>w_fault\<close> is a statement about every schedule of failures
  and about every point of interruption.
\<close>

datatype fault = NoFault | Fail string nat | Kill nat

record 'e world =
  w_fs :: ftree
  w_mtime :: "path \<Rightarrow> int"
  w_tick :: nat
  w_fault :: "nat \<Rightarrow> fault"
  w_clock :: "nat \<Rightarrow> int"
  w_log :: "(string \<times> string) list"
  w_out :: "string list"
  w_err :: "string list"
  w_pid :: nat
  w_held :: "(path \<times> nat) list"
  w_ext :: 'e

type_synonym ('e, 'a) io = "'e world \<Rightarrow> (exn + 'a) \<times> 'e world"

subsection \<open>Combinators\<close>

definition ret :: "'a \<Rightarrow> ('e, 'a) io" where
  "ret x w = (Inr x, w)"

definition raise :: "exn \<Rightarrow> ('e, 'a) io" where
  "raise e w = (Inl e, w)"

definition bnd :: "('e, 'a) io \<Rightarrow> ('a \<Rightarrow> ('e, 'b) io) \<Rightarrow> ('e, 'b) io" where
  "bnd m k w = (case m w of (Inl e, w') \<Rightarrow> (Inl e, w') | (Inr x, w') \<Rightarrow> k x w')"

definition sq :: "('e, 'a) io \<Rightarrow> ('e, 'b) io \<Rightarrow> ('e, 'b) io" where
  "sq m n = bnd m (\<lambda>_. n)"

text \<open>\<open>try: m except <c> as e: h e\<close>. No handler sees \<open>Killed\<close>.\<close>

definition except :: "('e, 'a) io \<Rightarrow> (exn \<Rightarrow> bool) \<Rightarrow> (exn \<Rightarrow> ('e, 'a) io) \<Rightarrow> ('e, 'a) io" where
  "except m c h w = (case m w of
       (Inl e, w') \<Rightarrow> if e \<noteq> Killed \<and> c e then h e w' else (Inl e, w')
     | (Inr x, w') \<Rightarrow> (Inr x, w'))"

text \<open>\<open>try: m except <c> as e: h e else: k\<close>: \<open>k\<close> is outside the handler.\<close>

definition except_else ::
  "('e, 'a) io \<Rightarrow> (exn \<Rightarrow> bool) \<Rightarrow> (exn \<Rightarrow> ('e, 'b) io) \<Rightarrow> ('a \<Rightarrow> ('e, 'b) io) \<Rightarrow> ('e, 'b) io" where
  "except_else m c h k w = (case m w of
       (Inl e, w') \<Rightarrow> if e \<noteq> Killed \<and> c e then h e w' else (Inl e, w')
     | (Inr x, w') \<Rightarrow> k x w')"

text \<open>\<open>try: m finally: f\<close>. An exception of \<open>f\<close> replaces the one of \<open>m\<close>; a killed process runs nothing.\<close>

definition finally_do :: "('e, 'a) io \<Rightarrow> ('e, unit) io \<Rightarrow> ('e, 'a) io" where
  "finally_do m f w = (case m w of
       (Inl Killed, w') \<Rightarrow> (Inl Killed, w')
     | (r, w') \<Rightarrow> (case f w' of (Inl e, w'') \<Rightarrow> (Inl e, w'') | (Inr _, w'') \<Rightarrow> (r, w'')))"

fun for_each :: "'a list \<Rightarrow> ('a \<Rightarrow> ('e, unit) io) \<Rightarrow> ('e, unit) io" where
  "for_each [] f = ret ()"
| "for_each (x # xs) f = sq (f x) (for_each xs f)"

text \<open>A loop with an accumulator; the body also says whether to go on.\<close>

fun fold_io :: "'a list \<Rightarrow> 'b \<Rightarrow> ('a \<Rightarrow> 'b \<Rightarrow> ('e, 'b \<times> bool) io) \<Rightarrow> ('e, 'b) io" where
  "fold_io [] acc f = ret acc"
| "fold_io (x # xs) acc f = bnd (f x acc) (\<lambda>(acc', go). if go then fold_io xs acc' f else ret acc')"

definition gets :: "('e world \<Rightarrow> 'a) \<Rightarrow> ('e, 'a) io" where
  "gets f w = (Inr (f w), w)"

definition do_when :: "bool \<Rightarrow> ('e, unit) io \<Rightarrow> ('e, unit) io" where
  "do_when b m = (if b then m else ret ())"

text \<open>Lift a pure function that can raise.\<close>

definition lift :: "exn + 'a \<Rightarrow> ('e, 'a) io" where
  "lift r w = (r, w)"

subsection \<open>System calls\<close>

definition tick :: "'e world \<Rightarrow> 'e world" where
  "tick w = w\<lparr>w_tick := Suc (w_tick w)\<rparr>"

text \<open>
  One system call: \<open>act\<close> is what it does when nothing interferes, \<open>torn n\<close> what has
  happened to the world when it is interrupted after \<open>n\<close> characters.
\<close>

definition sys_torn ::
  "('e world \<Rightarrow> (exn + 'a) \<times> 'e world) \<Rightarrow> (nat \<Rightarrow> 'e world \<Rightarrow> 'e world) \<Rightarrow> ('e, 'a) io" where
  "sys_torn act torn w = (case w_fault w (w_tick w) of
       NoFault \<Rightarrow> act (tick w)
     | Fail msg n \<Rightarrow> (Inl (OSError msg), torn n (tick w))
     | Kill n \<Rightarrow> (Inl Killed, torn n (tick w)))"

definition sys :: "('e world \<Rightarrow> (exn + 'a) \<times> 'e world) \<Rightarrow> ('e, 'a) io" where
  "sys act = sys_torn act (\<lambda>_ w. w)"

definition is_os_error :: "exn \<Rightarrow> bool" where
  "is_os_error e \<longleftrightarrow> (case e of OSError _ \<Rightarrow> True | _ \<Rightarrow> False)"

definition is_destination_error :: "exn \<Rightarrow> bool" where
  "is_destination_error e \<longleftrightarrow> (case e of DestinationError _ \<Rightarrow> True | _ \<Rightarrow> False)"

definition is_precondition_error :: "exn \<Rightarrow> bool" where
  "is_precondition_error e \<longleftrightarrow> (case e of PreconditionError _ \<Rightarrow> True | _ \<Rightarrow> False)"

definition is_backup_error :: "exn \<Rightarrow> bool" where
  "is_backup_error e \<longleftrightarrow> (case e of BackupError _ \<Rightarrow> True | _ \<Rightarrow> False)"

text \<open>\<open>datetime.now(timezone.utc)\<close>, the log, and the two output streams. These never fail.\<close>

definition now_utc :: "('e, datetime) io" where
  "now_utc w = (Inr (utc (w_clock w (w_tick w))), tick w)"

definition log_msg :: "string \<Rightarrow> string \<Rightarrow> ('e, unit) io" where
  "log_msg level msg w = (Inr (), w\<lparr>w_log := w_log w @ [(level, msg)]\<rparr>)"

definition print_out :: "string \<Rightarrow> ('e, unit) io" where
  "print_out s w = (Inr (), w\<lparr>w_out := w_out w @ [s]\<rparr>)"

definition print_err :: "string \<Rightarrow> ('e, unit) io" where
  "print_err s w = (Inr (), w\<lparr>w_err := w_err w @ [s]\<rparr>)"

subsection \<open>Triples\<close>

text \<open>
  \<open>triple P m Q E\<close>: from a world with \<open>P\<close>, a value and its world satisfy \<open>Q\<close>, an
  exception and its world satisfy \<open>E\<close>. Computations are total, so this is total
  correctness.
\<close>

definition triple ::
  "('e world \<Rightarrow> bool) \<Rightarrow> ('e, 'a) io \<Rightarrow> ('a \<Rightarrow> 'e world \<Rightarrow> bool) \<Rightarrow> (exn \<Rightarrow> 'e world \<Rightarrow> bool) \<Rightarrow> bool" where
  "triple P m Q E \<longleftrightarrow> (\<forall>w. P w \<longrightarrow> (case m w of (Inl e, w') \<Rightarrow> E e w' | (Inr x, w') \<Rightarrow> Q x w'))"

abbreviation keeps :: "('e world \<Rightarrow> bool) \<Rightarrow> ('e, 'a) io \<Rightarrow> bool" where
  "keeps I m \<equiv> triple I m (\<lambda>_. I) (\<lambda>_. I)"

named_theorems triples \<open>triples of the operations\<close>

lemma tripleI: "(\<And>w. P w \<Longrightarrow> (case m w of (Inl e, w') \<Rightarrow> E e w' | (Inr x, w') \<Rightarrow> Q x w')) \<Longrightarrow> triple P m Q E"
  by (simp add: triple_def)

lemma tripleD: "triple P m Q E \<Longrightarrow> P w \<Longrightarrow> m w = (r, w') \<Longrightarrow>
   (\<forall>e. r = Inl e \<longrightarrow> E e w') \<and> (\<forall>x. r = Inr x \<longrightarrow> Q x w')"
  unfolding triple_def by (fastforce split: sum.splits)

lemma keepsD: "keeps I m \<Longrightarrow> I w \<Longrightarrow> I (snd (m w))"
  unfolding triple_def by (cases "m w"; cases "fst (m w)") fastforce+

lemma triple_weaken:
  assumes "triple P' m Q' E'" "\<And>w. P w \<Longrightarrow> P' w" "\<And>x w. Q' x w \<Longrightarrow> Q x w" "\<And>e w. E' e w \<Longrightarrow> E e w"
  shows "triple P m Q E"
  unfolding triple_def
proof (intro allI impI)
  fix w assume "P w"
  then have "case m w of (Inl e, w') \<Rightarrow> E' e w' | (Inr x, w') \<Rightarrow> Q' x w'"
    using assms(1,2) by (simp add: triple_def)
  with assms(3,4) show "case m w of (Inl e, w') \<Rightarrow> E e w' | (Inr x, w') \<Rightarrow> Q x w'"
    by (auto split: prod.splits sum.splits)
qed

lemma triple_ret [triples]: "(\<And>w. P w \<Longrightarrow> Q x w) \<Longrightarrow> triple P (ret x) Q E"
  by (simp add: triple_def ret_def)

lemma triple_raise [triples]: "(\<And>w. P w \<Longrightarrow> E e w) \<Longrightarrow> triple P (raise e) Q E"
  by (simp add: triple_def raise_def)

lemma triple_lift [triples]:
  "(\<And>w x. P w \<Longrightarrow> r = Inr x \<Longrightarrow> Q x w) \<Longrightarrow> (\<And>w e. P w \<Longrightarrow> r = Inl e \<Longrightarrow> E e w) \<Longrightarrow> triple P (lift r) Q E"
  by (cases r) (auto simp: triple_def lift_def)

lemma triple_gets [triples]: "(\<And>w. P w \<Longrightarrow> Q (f w) w) \<Longrightarrow> triple P (gets f) Q E"
  by (simp add: triple_def gets_def)

lemma triple_bnd:
  assumes "triple P m R E" "\<And>x. triple (R x) (k x) Q E"
  shows "triple P (bnd m k) Q E"
  using assms unfolding triple_def bnd_def by (fastforce split: prod.splits sum.splits)

lemma triple_sq: "triple P m (\<lambda>_. R) E \<Longrightarrow> triple R n Q E \<Longrightarrow> triple P (sq m n) Q E"
  unfolding sq_def by (rule triple_bnd)

lemma triple_except:
  assumes "triple P m Q R" "\<And>e. e \<noteq> Killed \<Longrightarrow> c e \<Longrightarrow> triple (R e) (h e) Q E"
    and "\<And>e w. e = Killed \<or> \<not> c e \<Longrightarrow> R e w \<Longrightarrow> E e w"
  shows "triple P (except m c h) Q E"
  unfolding triple_def
proof (intro allI impI)
  fix w assume P: "P w"
  obtain r w' where m: "m w = (r, w')" by (cases "m w")
  show "case except m c h w of (Inl e, w') \<Rightarrow> E e w' | (Inr x, w') \<Rightarrow> Q x w'"
  proof (cases r)
    case (Inl e)
    with tripleD [OF assms(1) P m] have R: "R e w'" by simp
    show ?thesis
    proof (cases "e \<noteq> Killed \<and> c e")
      case True
      with assms(2) [of e] R m Inl show ?thesis by (simp add: except_def triple_def)
    next
      case False
      with assms(3) [of e w'] R m Inl show ?thesis by (auto simp: except_def)
    qed
  qed (use tripleD [OF assms(1) P m] m in \<open>simp add: except_def\<close>)
qed

lemma except_else_eq:
  "except_else m c h k w = (case m w of (Inr x, w') \<Rightarrow> k x w' | (Inl e, w') \<Rightarrow> except (raise e) c h w')"
  by (simp add: except_else_def except_def raise_def split: prod.split sum.split)

lemma triple_except_else:
  assumes "triple P m S R" "\<And>e. e \<noteq> Killed \<Longrightarrow> c e \<Longrightarrow> triple (R e) (h e) Q E"
    and "\<And>e w. e = Killed \<or> \<not> c e \<Longrightarrow> R e w \<Longrightarrow> E e w" "\<And>x. triple (S x) (k x) Q E"
  shows "triple P (except_else m c h k) Q E"
  unfolding triple_def
proof (intro allI impI)
  fix w assume P: "P w"
  obtain r w' where m: "m w = (r, w')" by (cases "m w")
  show "case except_else m c h k w of (Inl e, w') \<Rightarrow> E e w' | (Inr x, w') \<Rightarrow> Q x w'"
  proof (cases r)
    case (Inl e)
    with tripleD [OF assms(1) P m] have R: "R e w'" by simp
    show ?thesis
    proof (cases "e \<noteq> Killed \<and> c e")
      case True
      with assms(2) [of e] R m Inl show ?thesis by (simp add: except_else_def triple_def)
    next
      case False
      with assms(3) [of e w'] R m Inl show ?thesis by (auto simp: except_else_def)
    qed
  next
    case (Inr x)
    with tripleD [OF assms(1) P m] have "S x w'" by simp
    with assms(4) [of x] m Inr show ?thesis by (simp add: except_else_def triple_def)
  qed
qed

lemma triple_finally:
  assumes "triple P m Q E" "\<And>x. triple (Q x) f (\<lambda>_. Q' x) E'" "\<And>e. e \<noteq> Killed \<Longrightarrow> triple (E e) f (\<lambda>_. E' e) E'"
    and "\<And>w. E Killed w \<Longrightarrow> E' Killed w"
  shows "triple P (finally_do m f) Q' E'"
  unfolding triple_def
proof (intro allI impI)
  fix w assume P: "P w"
  obtain r w' where m: "m w = (r, w')" by (cases "m w")
  obtain s w'' where f: "f w' = (s, w'')" by (cases "f w'")
  show "case finally_do m f w of (Inl e, w') \<Rightarrow> E' e w' | (Inr x, w') \<Rightarrow> Q' x w'"
  proof (cases r)
    case (Inl e)
    with tripleD [OF assms(1) P m] have R: "E e w'" by simp
    show ?thesis
    proof (cases "e = Killed")
      case True
      with R assms(4) m Inl show ?thesis by (simp add: finally_do_def)
    next
      case False
      from tripleD [OF assms(3) [OF False] R f] m Inl False f show ?thesis
        by (cases e; cases s) (simp_all add: finally_do_def)
    qed
  next
    case (Inr x)
    with tripleD [OF assms(1) P m] have R: "Q x w'" by simp
    from tripleD [OF assms(2) R f] m Inr f show ?thesis by (cases s) (simp_all add: finally_do_def)
  qed
qed

lemma triple_sys_torn:
  assumes "\<And>w. P w \<Longrightarrow> (case act (tick w) of (Inl e, w') \<Rightarrow> E e w' | (Inr x, w') \<Rightarrow> Q x w')"
    and "\<And>w msg n. P w \<Longrightarrow> w_fault w (w_tick w) = Fail msg n \<Longrightarrow> E (OSError msg) (torn n (tick w))"
    and "\<And>w n. P w \<Longrightarrow> w_fault w (w_tick w) = Kill n \<Longrightarrow> E Killed (torn n (tick w))"
  shows "triple P (sys_torn act torn) Q E"
  using assms by (auto simp: triple_def sys_torn_def split: fault.split)

subsection \<open>Invariants\<close>

text \<open>A world predicate that the clock, the log and the output streams do not affect.\<close>

definition fs_only :: "('e world \<Rightarrow> bool) \<Rightarrow> bool" where
  "fs_only I \<longleftrightarrow> (\<forall>w w'. w_fs w = w_fs w' \<longrightarrow> I w = I w')"

lemma fs_onlyD: "fs_only I \<Longrightarrow> w_fs w = w_fs w' \<Longrightarrow> I w = I w'"
  unfolding fs_only_def by blast

lemma fs_only_same: "fs_only I \<Longrightarrow> I w \<Longrightarrow> w_fs w' = w_fs w \<Longrightarrow> I w'"
  using fs_onlyD by blast

lemma fs_only_fs [intro!, simp]: "fs_only (\<lambda>w. P (w_fs w))"
  by (simp add: fs_only_def)

lemma tick_fs [simp]: "w_fs (tick w) = w_fs w"
  by (simp add: tick_def)

lemma keeps_ret [triples]: "keeps I (ret x)"
  by (rule triple_ret)

lemma keeps_raise [triples]: "keeps I (raise e)"
  by (rule triple_raise)

lemma keeps_bnd [triples]: "keeps I m \<Longrightarrow> (\<And>x. keeps I (k x)) \<Longrightarrow> keeps I (bnd m k)"
  by (rule triple_bnd)

lemma keeps_sq [triples]: "keeps I m \<Longrightarrow> keeps I n \<Longrightarrow> keeps I (sq m n)"
  by (rule triple_sq)

lemma keeps_except [triples]: "keeps I m \<Longrightarrow> (\<And>e. keeps I (h e)) \<Longrightarrow> keeps I (except m c h)"
  by (rule triple_except)

lemma keeps_except_else [triples]:
  "keeps I m \<Longrightarrow> (\<And>e. keeps I (h e)) \<Longrightarrow> (\<And>x. keeps I (k x)) \<Longrightarrow> keeps I (except_else m c h k)"
  by (rule triple_except_else)

lemma keeps_finally [triples]: "keeps I m \<Longrightarrow> keeps I f \<Longrightarrow> keeps I (finally_do m f)"
  by (rule triple_finally)

lemma keeps_lift [triples]: "keeps I (lift r)"
  by (rule triple_lift)

lemma keeps_gets [triples]: "keeps I (gets f)"
  by (rule triple_gets)

lemma keeps_do_when [triples]: "keeps I m \<Longrightarrow> keeps I (do_when b m)"
  by (simp add: do_when_def keeps_ret)

lemma keeps_for_each: "(\<And>x. x \<in> set xs \<Longrightarrow> keeps I (f x)) \<Longrightarrow> keeps I (for_each xs f)"
  by (induction xs) (auto intro: triples)

lemma keeps_fold_io:
  "(\<And>x acc. x \<in> set xs \<Longrightarrow> keeps I (f x acc)) \<Longrightarrow> keeps I (fold_io xs acc f)"
  by (induction xs arbitrary: acc) (auto intro!: triples)

lemma keeps_log [triples]: "fs_only I \<Longrightarrow> keeps I (log_msg l m)"
  by (auto simp: triple_def log_msg_def intro: fs_only_same)

lemma keeps_print [triples]: "fs_only I \<Longrightarrow> keeps I (print_out s)" "fs_only I \<Longrightarrow> keeps I (print_err s)"
  by (auto simp: triple_def print_out_def print_err_def intro: fs_only_same)

lemma keeps_now [triples]: "fs_only I \<Longrightarrow> keeps I now_utc"
  by (auto simp: triple_def now_utc_def intro: fs_only_same)

lemma fs_only_tick: "fs_only I \<Longrightarrow> I (tick w) = I w"
  by (rule fs_onlyD) simp_all

text \<open>A system call that reads.\<close>

definition read_sys :: "('e world \<Rightarrow> exn + 'a) \<Rightarrow> ('e, 'a) io" where
  "read_sys f = sys (\<lambda>w. (f w, w))"

lemma triple_read_sys:
  assumes "fs_only P" "\<And>w x. P w \<Longrightarrow> f w = Inr x \<Longrightarrow> Q x w" "\<And>w e. P w \<Longrightarrow> E e w"
  shows "triple P (read_sys f) Q E"
  unfolding read_sys_def sys_def
  using assms(2,3) by (rule_tac triple_sys_torn) (auto simp: fs_only_tick [OF assms(1)] split: sum.split)

lemma keeps_read_sys [triples]: "fs_only I \<Longrightarrow> keeps I (read_sys f)"
  by (rule triple_read_sys)

subsection \<open>Without failures\<close>

definition calm :: "'e world \<Rightarrow> bool" where
  "calm w \<longleftrightarrow> (\<forall>n. w_fault w n = NoFault)"

lemma calm_tick [simp]: "calm (tick w) = calm w"
  by (simp add: calm_def tick_def)

lemma triple_calm_sys:
  assumes "\<And>w. P w \<Longrightarrow> calm w" "\<And>w. P w \<Longrightarrow> (case act (tick w) of (Inl e, w') \<Rightarrow> E e w' | (Inr x, w') \<Rightarrow> Q x w')"
  shows "triple P (sys_torn act torn) Q E"
  using assms by (auto simp: triple_def sys_torn_def calm_def)

lemma triple_conj:
  "triple P m Q E \<Longrightarrow> triple P' m Q' E' \<Longrightarrow>
   triple (\<lambda>w. P w \<and> P' w) m (\<lambda>x w. Q x w \<and> Q' x w) (\<lambda>e w. E e w \<and> E' e w)"
  unfolding triple_def by (fastforce split: prod.splits sum.splits)

lemma triple_pre: "(\<And>w. P w \<Longrightarrow> triple ((=) w) m Q E) \<Longrightarrow> triple P m Q E"
  by (simp add: triple_def)

lemma triple_assume: "(C \<Longrightarrow> triple P m Q E) \<Longrightarrow> triple (\<lambda>w. P w \<and> C) m Q E"
  by (auto simp: triple_def)

lemma triple_False [simp]: "triple (\<lambda>_. False) m Q E"
  by (simp add: triple_def)

lemma triple_True [simp]: "triple P m (\<lambda>_ _. True) (\<lambda>_ _. True)"
  by (simp add: triple_def split: prod.split sum.split)

end
