(* ===== verification/Filesystem.thy ===== *)
theory Filesystem
  imports Io_Monad
begin

text \<open>
  The file operations of \<open>pathlib\<close>, \<open>os\<close> and \<open>shutil\<close> that the program uses, as
  sequences of system calls on the tree, so that a failure or an interruption can fall
  between any two of them. The text of an operating system error is abbreviated.
\<close>

subsection \<open>Single system calls\<close>

definition path_is_dir :: "path \<Rightarrow> ('e, bool) io" where
  "path_is_dir p = read_sys (\<lambda>w. Inr (is_dir_at (w_fs w) p))"

definition path_is_file :: "path \<Rightarrow> ('e, bool) io" where
  "path_is_file p = read_sys (\<lambda>w. Inr (is_file_at (w_fs w) p))"

definition path_exists :: "path \<Rightarrow> ('e, bool) io" where
  "path_exists p = read_sys (\<lambda>w. Inr (exists_at (w_fs w) p))"

definition no_such_file :: exn where
  "no_such_file = OSError ''No such file or directory''"

definition file_exists :: exn where
  "file_exists = OSError ''File exists''"

definition not_a_directory :: exn where
  "not_a_directory = OSError ''Not a directory''"

definition is_a_directory :: exn where
  "is_a_directory = OSError ''Is a directory''"

definition not_empty :: exn where
  "not_empty = OSError ''Directory not empty''"

definition the_clock :: "'e world \<Rightarrow> int" where
  "the_clock w = w_clock w (w_tick w)"

text \<open>Set or remove the entry at a path; its own and its parent's modification times are now.\<close>

definition set_at :: "path \<Rightarrow> ftree option \<Rightarrow> 'e world \<Rightarrow> 'e world" where
  "set_at p x w = w\<lparr>w_fs := alter p x (w_fs w),
     w_mtime := (w_mtime w)(p := the_clock w, butlast p := the_clock w)\<rparr>"

text \<open>New contents of an existing file: the directory's own time stays.\<close>

definition set_contents :: "path \<Rightarrow> string \<Rightarrow> 'e world \<Rightarrow> 'e world" where
  "set_contents p s w = w\<lparr>w_fs := alter p (Some (FFile s)) (w_fs w),
     w_mtime := (w_mtime w)(p := the_clock w)\<rparr>"

text \<open>\<open>os.listdir\<close>; the order is the one the directory happens to have.\<close>

definition list_dir :: "path \<Rightarrow> ('e, string list) io" where
  "list_dir p = read_sys (\<lambda>w.
     if is_dir_at (w_fs w) p then Inr (names_at (w_fs w) p)
     else Inl (if exists_at (w_fs w) p then not_a_directory else no_such_file))"

definition st_mtime :: "path \<Rightarrow> ('e, int) io" where
  "st_mtime p = read_sys (\<lambda>w. if exists_at (w_fs w) p then Inr (w_mtime w p) else Inl no_such_file)"

definition read_file :: "path \<Rightarrow> ('e, string) io" where
  "read_file p = read_sys (\<lambda>w. case lookup_tree (w_fs w) p of
       Some (FFile s) \<Rightarrow> Inr s | Some (FDir _) \<Rightarrow> Inl is_a_directory | None \<Rightarrow> Inl no_such_file)"

text \<open>\<open>open(p, "w")\<close>: create or truncate.\<close>

definition open_write :: "path \<Rightarrow> ('e, unit) io" where
  "open_write p = sys (\<lambda>w.
     if is_file_at (w_fs w) p then (Inr (), set_contents p [] w)
     else if exists_at (w_fs w) p then (Inl is_a_directory, w)
     else if is_dir_at (w_fs w) (butlast p) then (Inr (), set_at p (Some (FFile [])) w)
     else (Inl no_such_file, w))"

text \<open>Write to the file just opened; an interruption leaves a prefix.\<close>

definition write_data :: "path \<Rightarrow> string \<Rightarrow> ('e, unit) io" where
  "write_data p s = sys_torn (\<lambda>w. (Inr (), set_contents p s w)) (\<lambda>n w. set_contents p (take n s) w)"

definition write_text :: "path \<Rightarrow> string \<Rightarrow> ('e, unit) io" where
  "write_text p s = sq (open_write p) (write_data p s)"

definition unlink :: "path \<Rightarrow> ('e, unit) io" where
  "unlink p = sys (\<lambda>w.
     if is_file_at (w_fs w) p then (Inr (), set_at p None w)
     else (Inl (if exists_at (w_fs w) p then is_a_directory else no_such_file), w))"

text \<open>\<open>unlink\<close> or \<open>rmdir\<close>, as the removal of a tree does it.\<close>

definition os_remove :: "path \<Rightarrow> ('e, unit) io" where
  "os_remove p = sys (\<lambda>w. case lookup_tree (w_fs w) p of
       None \<Rightarrow> (Inl no_such_file, w)
     | Some (FDir (e # es)) \<Rightarrow> (Inl not_empty, w)
     | Some _ \<Rightarrow> (Inr (), set_at p None w))"

datatype mkdir_result = Created | Parent_Missing | Already_There

definition os_mkdir :: "path \<Rightarrow> ('e, mkdir_result) io" where
  "os_mkdir p = sys (\<lambda>w.
     if exists_at (w_fs w) p then (Inr Already_There, w)
     else if is_dir_at (w_fs w) (butlast p) then (Inr Created, set_at p (Some (FDir [])) w)
     else if exists_at (w_fs w) (butlast p) then (Inl not_a_directory, w)
     else (Inr Parent_Missing, w))"

text \<open>
  \<open>rename(2)\<close>: a directory can replace an empty directory only, and nothing moves into
  itself. The times of the moved entries move with them.
\<close>

definition move_tree :: "path \<Rightarrow> path \<Rightarrow> ftree \<Rightarrow> 'e world \<Rightarrow> 'e world" where
  "move_tree src dst t w = w\<lparr>w_fs := alter dst (Some t) (alter src None (w_fs w)),
     w_mtime := (\<lambda>q. if is_prefix dst q then w_mtime w (src @ drop (length dst) q)
        else if q = butlast src \<or> q = butlast dst then the_clock w else w_mtime w q)\<rparr>"

definition os_rename :: "path \<Rightarrow> path \<Rightarrow> ('e, unit) io" where
  "os_rename src dst = sys (\<lambda>w.
     case lookup_tree (w_fs w) src of
       None \<Rightarrow> (Inl no_such_file, w)
     | Some t \<Rightarrow>
         if src = dst then (Inr (), w)
         else if is_prefix src dst then (Inl (OSError ''Invalid argument''), w)
         else (case lookup_tree (w_fs w) dst of
             None \<Rightarrow> if is_dir_at (w_fs w) (butlast dst) then (Inr (), move_tree src dst t w)
                      else (Inl no_such_file, w)
           | Some (FDir []) \<Rightarrow> if is_dir_tree t then (Inr (), move_tree src dst t w) else (Inl is_a_directory, w)
           | Some (FDir (e # es)) \<Rightarrow> (Inl (if is_dir_tree t then not_empty else is_a_directory), w)
           | Some (FFile _) \<Rightarrow> if is_dir_tree t then (Inl not_a_directory, w) else (Inr (), move_tree src dst t w)))"

text \<open>\<open>shutil.copystat\<close>, as far as the modification time goes.\<close>

definition copystat :: "path \<Rightarrow> path \<Rightarrow> ('e, unit) io" where
  "copystat src dst = sys (\<lambda>w. (Inr (), w\<lparr>w_mtime := (w_mtime w)(dst := w_mtime w src)\<rparr>))"

subsection \<open>Creating directories\<close>

text \<open>\<open>except OSError: if not exist_ok or not self.is_dir(): raise\<close>\<close>

definition mkdir_settle :: "path \<Rightarrow> exn \<Rightarrow> ('e, unit) io" where
  "mkdir_settle p e = bnd (path_is_dir p) (\<lambda>d. if d then ret () else raise e)"

text \<open>\<open>p.mkdir(parents=False, exist_ok=True)\<close>\<close>

definition mkdir_here :: "path \<Rightarrow> ('e, unit) io" where
  "mkdir_here p = except_else (os_mkdir p) is_os_error (mkdir_settle p)
     (\<lambda>r. case r of Created \<Rightarrow> ret () | Already_There \<Rightarrow> mkdir_settle p file_exists
                  | Parent_Missing \<Rightarrow> raise no_such_file)"

text \<open>\<open>p.mkdir(parents=True, exist_ok=True)\<close>, along the reversed path.\<close>

fun mkdir_rev :: "string list \<Rightarrow> ('e, unit) io" where
  "mkdir_rev [] = mkdir_here []"
| "mkdir_rev (c # rp) = (let p = rev (c # rp) in
     except_else (os_mkdir p) is_os_error (mkdir_settle p)
       (\<lambda>r. case r of Created \<Rightarrow> ret () | Already_There \<Rightarrow> mkdir_settle p file_exists
                    | Parent_Missing \<Rightarrow> sq (mkdir_rev rp) (mkdir_here p)))"

definition mkdir_p :: "path \<Rightarrow> ('e, unit) io" where
  "mkdir_p p = mkdir_rev (rev p)"

text \<open>\<open>os.makedirs(p)\<close>: the directory itself must be new.\<close>

definition os_mkdir_new :: "path \<Rightarrow> ('e, unit) io" where
  "os_mkdir_new p = bnd (os_mkdir p) (\<lambda>r. case r of Created \<Rightarrow> ret () | Already_There \<Rightarrow> raise file_exists
                  | Parent_Missing \<Rightarrow> raise no_such_file)"

text \<open>\<open>os.path.exists\<close> takes an error for a no.\<close>

definition os_path_exists :: "path \<Rightarrow> ('e, bool) io" where
  "os_path_exists p = except (path_exists p) is_os_error (\<lambda>_. ret False)"

fun makedirs_rev :: "string list \<Rightarrow> ('e, unit) io" where
  "makedirs_rev [] = os_mkdir_new []"
| "makedirs_rev (c # rp) = (let p = rev (c # rp) in
     if rp = [] then os_mkdir_new p
     else bnd (os_path_exists (rev rp)) (\<lambda>h.
       sq (do_when (\<not> h) (except (makedirs_rev rp) (\<lambda>e. e = file_exists) (\<lambda>_. ret ())))
          (os_mkdir_new p)))"

definition os_makedirs :: "path \<Rightarrow> ('e, unit) io" where
  "os_makedirs p = makedirs_rev (rev p)"

subsection \<open>Removing a tree\<close>

text \<open>
  The paths \<open>shutil.rmtree\<close> removes, each directory after its entries. (That it also
  opens each directory adds failures, but no state that those of the removals do not
  reach.)
\<close>

fun removal :: "path \<Rightarrow> ftree \<Rightarrow> path list" and removal_entries :: "path \<Rightarrow> (string \<times> ftree) list \<Rightarrow> path list" where
  "removal p (FFile s) = [p]"
| "removal p (FDir es) = removal_entries p es @ [p]"
| "removal_entries p [] = []"
| "removal_entries p ((c, t) # es) = removal (p @ [c]) t @ removal_entries p es"

definition scan_tree :: "path \<Rightarrow> ('e, ftree) io" where
  "scan_tree p = read_sys (\<lambda>w. case lookup_tree (w_fs w) p of
       None \<Rightarrow> Inl no_such_file | Some (FFile _) \<Rightarrow> Inl not_a_directory | Some t \<Rightarrow> Inr t)"

text \<open>\<open>shutil.rmtree(p)\<close> stops at the first error; with \<open>ignore_errors=True\<close> it goes on.\<close>

definition rmtree :: "path \<Rightarrow> ('e, unit) io" where
  "rmtree p = bnd (scan_tree p) (\<lambda>t. for_each (removal p t) os_remove)"

definition rmtree_ignore :: "path \<Rightarrow> ('e, unit) io" where
  "rmtree_ignore p = except_else (scan_tree p) is_os_error (\<lambda>_. ret ())
     (\<lambda>t. for_each (removal p t) (\<lambda>q. except (os_remove q) is_os_error (\<lambda>_. ret ())))"

subsection \<open>Copying a tree\<close>

text \<open>\<open>shutil.copy2\<close> of a file with contents \<open>s\<close>: open the source, create, write, copy the times.\<close>

definition copy_file :: "path \<Rightarrow> string \<Rightarrow> path \<Rightarrow> ('e, unit) io" where
  "copy_file src s dst = sq (read_sys (\<lambda>_. Inr ())) (sq (write_text dst s) (copystat src dst))"

definition copy2 :: "path \<Rightarrow> path \<Rightarrow> ('e, unit) io" where
  "copy2 src dst = bnd (read_file src) (\<lambda>s. sq (write_text dst s) (copystat src dst))"

text \<open>
  \<open>shutil.copytree(src, dst, ignore=ignore_patterns(name))\<close>: the name is ignored at every
  level, the error of an entry is recorded and the copy goes on, and the errors are raised
  together at the end. The source is the tree \<open>t\<close> as it was listed; nothing else writes
  to it meanwhile.
\<close>

definition note_error :: "('e, unit) io \<Rightarrow> ('e, string list) io" where
  "note_error m = except (sq m (ret [])) is_os_error (\<lambda>e. ret [exn_msg e])"

fun copy_tree :: "string \<Rightarrow> path \<Rightarrow> ftree \<Rightarrow> path \<Rightarrow> ('e, unit) io"
  and copy_entries :: "string \<Rightarrow> path \<Rightarrow> (string \<times> ftree) list \<Rightarrow> path \<Rightarrow> ('e, string list) io" where
  "copy_tree ign src (FFile s) dst = copy_file src s dst"
| "copy_tree ign src (FDir es) dst =
     sq (os_makedirs dst)
     (bnd (copy_entries ign src es dst) (\<lambda>errs.
      bnd (note_error (copystat src dst)) (\<lambda>errs'.
      if errs @ errs' = [] then ret () else raise (OSError (py_join '', '' (errs @ errs'))))))"
| "copy_entries ign src [] dst = ret []"
| "copy_entries ign src ((c, t) # es) dst =
     (if c = ign then copy_entries ign src es dst
      else bnd (note_error (copy_tree ign (src @ [c]) t (dst @ [c]))) (\<lambda>errs.
           bnd (copy_entries ign src es dst) (\<lambda>errs'. ret (errs @ errs'))))"

definition copytree :: "string \<Rightarrow> path \<Rightarrow> path \<Rightarrow> ('e, unit) io" where
  "copytree ign src dst = bnd (scan_tree src) (\<lambda>t. copy_tree ign src t dst)"

text \<open>What a copy is: the tree without the ignored name, at every level.\<close>

fun copied :: "string \<Rightarrow> ftree \<Rightarrow> ftree" and copied_entries :: "string \<Rightarrow> (string \<times> ftree) list \<Rightarrow> (string \<times> ftree) list" where
  "copied ign (FFile s) = FFile s"
| "copied ign (FDir es) = FDir (copied_entries ign es)"
| "copied_entries ign [] = []"
| "copied_entries ign ((c, t) # es) =
     (if c = ign then copied_entries ign es else (c, copied ign t) # copied_entries ign es)"

end
