(* ===== verification/Filesystem_Laws.thy ===== *)
theory Filesystem_Laws
  imports Filesystem
begin

text \<open>
  Which parts of the tree each operation can change, whatever fails and wherever the
  process is interrupted; and what the operations do when nothing fails.
\<close>

subsection \<open>Predicates an alteration at or below a path keeps\<close>

definition stable :: "path \<Rightarrow> (ftree \<Rightarrow> bool) \<Rightarrow> bool" where
  "stable p I \<longleftrightarrow> (\<forall>f x q. is_prefix p q \<longrightarrow> I f \<longrightarrow> (\<forall>t. x = Some t \<longrightarrow> wf_tree t) \<longrightarrow> I (alter q x f))"

text \<open>Kept when a missing directory on the way to \<open>p\<close> is created.\<close>

definition grows :: "path \<Rightarrow> (ftree \<Rightarrow> bool) \<Rightarrow> bool" where
  "grows p I \<longleftrightarrow> (\<forall>f q. is_prefix q p \<longrightarrow> I f \<longrightarrow> \<not> exists_at f q \<longrightarrow> I (alter q (Some (FDir [])) f))"

named_theorems frames \<open>what an operation keeps of the tree\<close>

lemma stableD: "stable p I \<Longrightarrow> is_prefix p q \<Longrightarrow> I f \<Longrightarrow> (\<And>t. x = Some t \<Longrightarrow> wf_tree t) \<Longrightarrow> I (alter q x f)"
  unfolding stable_def by blast

lemma stable_mono: "stable p I \<Longrightarrow> is_prefix p q \<Longrightarrow> stable q I"
  unfolding stable_def using is_prefix_trans by blast

lemma stable_conj [frames]: "stable p I \<Longrightarrow> stable p J \<Longrightarrow> stable p (\<lambda>f. I f \<and> J f)"
  unfolding stable_def by blast

lemma grows_conj [frames]: "grows p I \<Longrightarrow> grows p J \<Longrightarrow> grows p (\<lambda>f. I f \<and> J f)"
  unfolding grows_def by blast

lemma stable_wf [frames]: "stable p wf_tree"
  by (simp add: stable_def wf_tree_alter)

lemma grows_wf [frames]: "grows p wf_tree"
  by (auto simp: grows_def intro: wf_tree_alter)

lemma apart_mono: "apart p q \<Longrightarrow> is_prefix p r \<Longrightarrow> apart r q"
  unfolding apart_def is_prefix_iff by (metis append_assoc append_eq_append_conv2)

lemma stable_lookup [frames]: "apart p q \<Longrightarrow> stable p (\<lambda>f. P (lookup_tree f q))"
  unfolding stable_def using lookup_alter_apart apart_mono by metis

lemma missing_below:
  assumes "\<not> exists_at f p"
  shows "lookup_tree f (p @ r) = None"
  using assms by (simp add: exists_at_def lookup_append)

lemma alter_new_dir_below: "r \<noteq> [] \<Longrightarrow> \<not> exists_at f p \<Longrightarrow> lookup_tree (alter p (Some (FDir [])) f) (p @ r) = None"
proof (induction p arbitrary: f)
  case Nil
  then show ?case by (simp add: exists_at_def)
next
  case (Cons c p)
  then show ?case by (cases f; cases r) (auto simp: exists_at_def split: option.splits)
qed

lemma grows_lookup [frames]: "\<not> is_prefix q p \<Longrightarrow> grows p (\<lambda>f. P (lookup_tree f q))"
  unfolding grows_def
proof (intro allI impI)
  fix f q' assume a: "\<not> is_prefix q p" "is_prefix q' p" "P (lookup_tree f q)" "\<not> exists_at f q'"
  have nq: "\<not> is_prefix q q'" using a(1,2) is_prefix_trans by blast
  have "lookup_tree (alter q' (Some (FDir [])) f) q = lookup_tree f q"
  proof (cases "is_prefix q' q")
    case True
    then obtain r where "q = q' @ r" by (auto simp: is_prefix_iff)
    moreover have "r \<noteq> []" using nq calculation by auto
    ultimately show ?thesis using a(4) alter_new_dir_below missing_below by metis
  next
    case False
    with nq show ?thesis by (simp add: lookup_alter_apart apart_def)
  qed
  with a(3) show "P (lookup_tree (alter q' (Some (FDir [])) f) q)" by simp
qed

lemma stable_is_dir [frames]: "\<not> is_prefix p q \<Longrightarrow> stable p (\<lambda>f. is_dir_at f q)"
  unfolding stable_def using kind_alter is_prefix_trans by metis

lemma stable_is_file [frames]: "\<not> is_prefix p q \<Longrightarrow> stable p (\<lambda>f. is_file_at f q)"
  unfolding stable_def using kind_alter is_prefix_trans by metis

lemma exists_at_prefix: "exists_at f (p @ r) \<Longrightarrow> exists_at f p"
  by (auto simp: exists_at_def lookup_append split: option.splits)

lemma grows_is_dir [frames]: "grows p (\<lambda>f. is_dir_at f q)"
  unfolding grows_def using exists_at_prefix exists_at_iff kind_alter(1) is_prefix_iff by metis

lemma grows_is_file [frames]: "grows p (\<lambda>f. is_file_at f q)"
  unfolding grows_def using exists_at_prefix exists_at_iff kind_alter(2) is_prefix_iff by metis

lemma grows_deeper:
  assumes "stable p I" "grows p I"
  shows "grows (p @ r) I"
  unfolding grows_def
proof (intro allI impI)
  fix f q assume q: "is_prefix q (p @ r)" "I f" "\<not> exists_at f q"
  show "I (alter q (Some (FDir [])) f)"
  proof (cases "is_prefix p q")
    case True
    with q assms(1) show ?thesis by (simp add: stable_def)
  next
    case False
    with q(1) have "is_prefix q p" unfolding is_prefix_iff by (metis append_eq_append_conv2)
    with q assms(2) show ?thesis by (simp add: grows_def)
  qed
qed

subsection \<open>What every operation keeps\<close>

lemma set_at_fs [simp]: "w_fs (set_at p x w) = alter p x (w_fs w)"
  by (simp add: set_at_def)

lemma set_contents_fs [simp]: "w_fs (set_contents p s w) = alter p (Some (FFile s)) (w_fs w)"
  by (simp add: set_contents_def)

lemma move_tree_fs [simp]: "w_fs (move_tree src dst t w) = alter dst (Some t) (alter src None (w_fs w))"
  by (simp add: move_tree_def)

abbreviation fs_keeps :: "(ftree \<Rightarrow> bool) \<Rightarrow> ('e, 'a) io \<Rightarrow> bool" where
  "fs_keeps I m \<equiv> keeps (\<lambda>w. I (w_fs w)) m"

lemma keeps_reads [frames]:
  "fs_keeps I (path_is_dir p)" "fs_keeps I (path_is_file p)" "fs_keeps I (path_exists p)"
  "fs_keeps I (list_dir p)" "fs_keeps I (st_mtime p)" "fs_keeps I (read_file p)" "fs_keeps I (scan_tree p)"
  "fs_keeps I (read_sys f)"
  by (simp_all add: path_is_dir_def path_is_file_def path_exists_def list_dir_def st_mtime_def read_file_def
      scan_tree_def keeps_read_sys)

lemma keeps_sys:
  assumes "\<And>w. I (w_fs w) \<Longrightarrow> I (w_fs (snd (act w)))"
  shows "fs_keeps I (sys act)"
  unfolding sys_def
proof (rule triple_sys_torn)
  fix w :: "'a world" assume "I (w_fs w)"
  then have "I (w_fs (snd (act (tick w))))" using assms [of "tick w"] by simp
  then show "case act (tick w) of (Inl e, w') \<Rightarrow> I (w_fs w') | (Inr x, w') \<Rightarrow> I (w_fs w')"
    by (auto split: prod.split sum.split)
qed simp_all

lemma keeps_open_write [frames]: "stable p I \<Longrightarrow> is_prefix p q \<Longrightarrow> fs_keeps I (open_write q)"
  unfolding open_write_def by (rule keeps_sys) (auto elim: stableD)

lemma keeps_write_data [frames]: "stable p I \<Longrightarrow> is_prefix p q \<Longrightarrow> fs_keeps I (write_data q s)"
  unfolding write_data_def by (rule triple_sys_torn) (auto elim: stableD)

lemma keeps_write_text [frames]: "stable p I \<Longrightarrow> is_prefix p q \<Longrightarrow> fs_keeps I (write_text q s)"
  unfolding write_text_def by (intro triples frames)

lemma keeps_unlink [frames]: "stable p I \<Longrightarrow> is_prefix p q \<Longrightarrow> fs_keeps I (unlink q)"
  unfolding unlink_def by (rule keeps_sys) (auto elim: stableD)

lemma keeps_os_remove [frames]: "stable p I \<Longrightarrow> is_prefix p q \<Longrightarrow> fs_keeps I (os_remove q)"
  unfolding os_remove_def
  by (rule keeps_sys) (auto elim: stableD split: option.split ftree.split list.split)

lemma keeps_os_mkdir [frames]: "stable p I \<Longrightarrow> is_prefix p q \<Longrightarrow> fs_keeps I (os_mkdir q)"
  unfolding os_mkdir_def by (rule keeps_sys) (auto elim: stableD)

lemma keeps_os_mkdir_grows [frames]: "grows p I \<Longrightarrow> is_prefix q p \<Longrightarrow> fs_keeps I (os_mkdir q)"
  unfolding os_mkdir_def by (rule keeps_sys) (auto simp: grows_def)

lemma keeps_copystat [frames]: "fs_keeps I (copystat p q)"
  unfolding copystat_def by (rule keeps_sys) simp

lemma keeps_os_rename [frames]:
  assumes "stable src I" "stable dst I" "\<And>f t. I f \<Longrightarrow> lookup_tree f src = Some t \<Longrightarrow> wf_tree t"
  shows "fs_keeps I (os_rename src dst)"
  unfolding os_rename_def
proof (rule keeps_sys)
  fix w :: "'a world" assume I: "I (w_fs w)"
  have "I (alter dst (Some t) (alter src None (w_fs w)))" if "lookup_tree (w_fs w) src = Some t" for t
    using assms I that by (auto simp: stable_def)
  with I show "I (w_fs (snd (case lookup_tree (w_fs w) src of
       None \<Rightarrow> (Inl no_such_file, w)
     | Some t \<Rightarrow>
         if src = dst then (Inr (), w)
         else if is_prefix src dst then (Inl (OSError ''Invalid argument''), w)
         else (case lookup_tree (w_fs w) dst of
             None \<Rightarrow> if is_dir_at (w_fs w) (butlast dst) then (Inr (), move_tree src dst t w)
                      else (Inl no_such_file, w)
           | Some (FDir []) \<Rightarrow> if is_dir_tree t then (Inr (), move_tree src dst t w) else (Inl is_a_directory, w)
           | Some (FDir (e # es)) \<Rightarrow> (Inl (if is_dir_tree t then not_empty else is_a_directory), w)
           | Some (FFile _) \<Rightarrow> if is_dir_tree t then (Inl not_a_directory, w) else (Inr (), move_tree src dst t w)))))"
    by (simp split: option.split ftree.split list.split)
qed

lemma keeps_mkdir_settle [frames]: "fs_keeps I (mkdir_settle p e)"
  unfolding mkdir_settle_def by (auto intro!: triples frames)

lemma keeps_mkdir_here [frames]: "grows p I \<Longrightarrow> is_prefix q p \<Longrightarrow> fs_keeps I (mkdir_here q)"
  unfolding mkdir_here_def by (auto intro!: keeps_except_else frames triples split: mkdir_result.split)

lemma keeps_mkdir_rev: "grows p I \<Longrightarrow> is_prefix (rev rp) p \<Longrightarrow> fs_keeps I (mkdir_rev rp)"
proof (induction rp)
  case (Cons c rp)
  then have "is_prefix (rev rp) p" by (auto simp: is_prefix_iff)
  with Cons show ?case
    by (auto simp: Let_def intro!: keeps_except_else keeps_sq frames triples split: mkdir_result.split)
qed (auto intro: frames)

lemma keeps_mkdir_p [frames]: "grows p I \<Longrightarrow> fs_keeps I (mkdir_p p)"
  by (simp add: mkdir_p_def keeps_mkdir_rev)

lemma keeps_os_mkdir_new: "grows p I \<Longrightarrow> is_prefix q p \<Longrightarrow> fs_keeps I (os_mkdir_new q)"
  unfolding os_mkdir_new_def by (auto intro!: keeps_bnd frames triples split: mkdir_result.split)

lemma keeps_makedirs_rev: "grows p I \<Longrightarrow> is_prefix (rev rp) p \<Longrightarrow> fs_keeps I (makedirs_rev rp)"
proof (induction rp)
  case (Cons c rp)
  then have "is_prefix (rev rp) p" by (auto simp: is_prefix_iff)
  with Cons show ?case
    by (auto simp: Let_def os_path_exists_def intro!: keeps_sq keeps_bnd keeps_do_when keeps_except frames triples
        keeps_os_mkdir_new)
qed (auto intro: keeps_os_mkdir_new)

lemma keeps_os_makedirs [frames]: "grows p I \<Longrightarrow> fs_keeps I (os_makedirs p)"
  by (simp add: os_makedirs_def keeps_makedirs_rev)

lemma removal_prefix:
  "q \<in> set (removal p t) \<Longrightarrow> is_prefix p q" "q \<in> set (removal_entries p es) \<Longrightarrow> is_prefix p q"
proof (induction p t and p es arbitrary: q and q rule: removal_removal_entries.induct)
  case (4 p c t es)
  then show ?case using is_prefix_trans [OF is_prefix_append [of p "[c]"]] by auto
qed auto

lemma keeps_rmtree [frames]: "stable p I \<Longrightarrow> fs_keeps I (rmtree p)"
  unfolding rmtree_def by (intro keeps_bnd keeps_for_each frames) (auto intro: removal_prefix)

lemma keeps_rmtree_ignore [frames]: "stable p I \<Longrightarrow> fs_keeps I (rmtree_ignore p)"
  unfolding rmtree_ignore_def
  by (intro keeps_except_else keeps_except keeps_for_each frames triples) (auto intro: removal_prefix)

lemma keeps_note_error: "fs_keeps I m \<Longrightarrow> fs_keeps I (note_error m)"
  unfolding note_error_def by (intro triples)

lemma keeps_copy_file: "stable p I \<Longrightarrow> is_prefix p dst \<Longrightarrow> fs_keeps I (copy_file src s dst)"
  unfolding copy_file_def by (intro triples frames)

lemma keeps_copy2 [frames]: "stable p I \<Longrightarrow> is_prefix p dst \<Longrightarrow> fs_keeps I (copy2 src dst)"
  unfolding copy2_def by (intro triples frames)

lemma keeps_copy_tree:
  assumes "stable p I" "grows p I"
  shows "is_prefix p dst \<Longrightarrow> fs_keeps I (copy_tree ign src t dst :: ('e, unit) io)"
    and "is_prefix p dst \<Longrightarrow> fs_keeps I (copy_entries ign src es dst :: ('e, string list) io)"
proof (induction ign src t dst and ign src es dst rule: copy_tree_copy_entries.induct)
  case (1 ign src s dst)
  with assms show ?case by (simp add: keeps_copy_file)
next
  case (2 ign src es dst)
  then obtain r where "dst = p @ r" by (auto simp: is_prefix_iff)
  with assms have "grows dst I" using grows_deeper by blast
  with 2 show ?case
    by (auto intro!: keeps_sq keeps_bnd keeps_note_error frames triples)
next
  case (4 ign src c t es dst)
  moreover have "is_prefix p (dst @ [c])" using 4(4) is_prefix_trans [OF _ is_prefix_append] by blast
  ultimately show ?case by (auto intro!: keeps_bnd keeps_note_error triples)
qed (auto intro: triples)

lemma keeps_copytree [frames]: "stable dst I \<Longrightarrow> grows dst I \<Longrightarrow> fs_keeps I (copytree ign src dst)"
  unfolding copytree_def by (intro keeps_bnd frames keeps_copy_tree(1)) auto

end
