(* ===== verification/Json.thy ===== *)
theory Json
  imports Py_Values
begin

text \<open>
  \<open>json.dumps\<close> with its default \<open>ensure_ascii\<close>: the values the program prints, on one
  line or, for a flat object, indented by two.
\<close>

datatype jval =
    JNull
  | JBool bool
  | JInt int
  | JStr string
  | JList "jval list"
  | JObj "(string \<times> jval) list"

definition json_char :: "char \<Rightarrow> string" where
  "json_char c =
     (let n = code_pt c in
      if n = 0x22 then [CHR 0x5C, CHR 0x22]
      else if n = 0x5C then [CHR 0x5C, CHR 0x5C]
      else if n = 0x0A then [CHR 0x5C, CHR ''n'']
      else if n = 0x0D then [CHR 0x5C, CHR ''r'']
      else if n = 0x09 then [CHR 0x5C, CHR ''t'']
      else if n = 0x0C then [CHR 0x5C, CHR ''f'']
      else if n = 0x08 then [CHR 0x5C, CHR ''b'']
      else if 0x20 \<le> n \<and> n < 0x7F then [c]
      else [CHR 0x5C, CHR ''u'', CHR ''0'', CHR ''0'', hex_digit (n div 16), hex_digit (n mod 16)])"

definition json_str :: "string \<Rightarrow> string" where
  "json_str s = [CHR 0x22] @ concat (map json_char s) @ [CHR 0x22]"

fun json_dumps :: "jval \<Rightarrow> string" where
  "json_dumps JNull = ''null''"
| "json_dumps (JBool b) = (if b then ''true'' else ''false'')"
| "json_dumps (JInt i) = str_int i"
| "json_dumps (JStr s) = json_str s"
| "json_dumps (JList xs) = ''['' @ py_join '', '' (map json_dumps xs) @ '']''"
| "json_dumps (JObj kvs) = ''{'' @ py_join '', '' (map (\<lambda>(k, v). json_str k @ '': '' @ json_dumps v) kvs) @ ''}''"

text \<open>\<open>json.dumps(d, indent=2)\<close> of a non-empty object whose values are scalars.\<close>

definition json_dumps_indented :: "(string \<times> jval) list \<Rightarrow> string" where
  "json_dumps_indented kvs =
     ''{'' @ [CHR 0x0A]
     @ py_join ('','' @ [CHR 0x0A]) (map (\<lambda>(k, v). ''  '' @ json_str k @ '': '' @ json_dumps v) kvs)
     @ [CHR 0x0A] @ ''}''"

end
