(* ===== verification/Copy_Laws.thy ===== *)
theory Copy_Laws
  imports Filesystem_Laws
begin

text \<open>
  What the file operations achieve: a copy that reports no error has copied everything,
  a rename that succeeds has moved the whole tree, a removal without failures leaves
  nothing, and a directory that could be created is there.
\<close>

abbreviation achieves :: "('e world \<Rightarrow> bool) \<Rightarrow> ('e, 'a) io \<Rightarrow> ('a \<Rightarrow> 'e world \<Rightarrow> bool) \<Rightarrow> bool" where
  "achieves P m Q \<equiv> triple P m Q (\<lambda>_ _. True)"

lemma achieves_sys:
  "(\<And>w x w'. P (tick w) \<Longrightarrow> act (tick w) = (Inr x, w') \<Longrightarrow> Q x w') \<Longrightarrow> (\<And>w. P w \<Longrightarrow> P (tick w)) \<Longrightarrow>
   achieves P (sys act) Q"
  unfolding sys_def by (rule triple_sys_torn) (auto split: prod.split sum.split)

lemma open_write_post:
  "achieves (\<lambda>w. is_dir_at (w_fs w) p) (open_write (p @ [c])) (\<lambda>_ w. is_dir_at (w_fs w) p)"
  unfolding open_write_def
  by (rule achieves_sys) (auto split: if_splits simp: is_prefix_iff)

lemma write_data_post:
  "achieves (\<lambda>w. is_dir_at (w_fs w) p) (write_data (p @ [c]) s)
     (\<lambda>_ w. lookup_tree (w_fs w) (p @ [c]) = Some (FFile s))"
  unfolding write_data_def by (rule triple_sys_torn) (auto simp: lookup_alter_same)

lemma write_text_post:
  "achieves (\<lambda>w. is_dir_at (w_fs w) p) (write_text (p @ [c]) s)
     (\<lambda>_ w. lookup_tree (w_fs w) (p @ [c]) = Some (FFile s))"
  unfolding write_text_def by (rule triple_sq [OF open_write_post write_data_post])

lemma copy_file_post:
  "achieves (\<lambda>w. is_dir_at (w_fs w) p) (copy_file src s (p @ [c]))
     (\<lambda>_ w. lookup_tree (w_fs w) (p @ [c]) = Some (FFile s))"
  unfolding copy_file_def
  by (rule triple_sq [OF triple_read_sys triple_sq [OF write_text_post]])
     (auto intro: triple_weaken [OF keeps_copystat [of "\<lambda>f. lookup_tree f (p @ [c]) = Some (FFile s)"]])

lemma os_mkdir_new_post:
  "achieves (\<lambda>_. True) (os_mkdir_new (p @ [c])) (\<lambda>_ w. lookup_tree (w_fs w) (p @ [c]) = Some (FDir []))"
  unfolding os_mkdir_new_def
proof (rule triple_bnd)
  show "achieves (\<lambda>_. True) (os_mkdir (p @ [c]))
      (\<lambda>r w. r = Created \<longrightarrow> lookup_tree (w_fs w) (p @ [c]) = Some (FDir []))"
    unfolding os_mkdir_def by (rule achieves_sys) (auto simp: lookup_alter_same split: if_splits)
  fix r
  show "achieves (\<lambda>w. r = Created \<longrightarrow> lookup_tree (w_fs w) (p @ [c]) = Some (FDir []))
      (case r of Created \<Rightarrow> ret () | Already_There \<Rightarrow> raise file_exists | Parent_Missing \<Rightarrow> raise no_such_file)
      (\<lambda>_ w. lookup_tree (w_fs w) (p @ [c]) = Some (FDir []))"
    by (cases r) (auto intro: triples)
qed

lemma os_makedirs_post:
  "achieves (\<lambda>_. True) (os_makedirs (p @ [c])) (\<lambda>_ w. lookup_tree (w_fs w) (p @ [c]) = Some (FDir []))"
proof (cases "p = []")
  case True
  with os_mkdir_new_post [of p c] show ?thesis by (simp add: os_makedirs_def)
next
  case False
  then have eq: "os_makedirs (p @ [c]) = bnd (os_path_exists p) (\<lambda>h.
      sq (do_when (\<not> h) (except (makedirs_rev (rev p)) (\<lambda>e. e = file_exists) (\<lambda>_. ret ()))) (os_mkdir_new (p @ [c])))"
    by (simp add: os_makedirs_def Let_def)
  show ?thesis unfolding eq
    by (rule triple_bnd [OF triple_True triple_sq [OF triple_True os_mkdir_new_post]])
qed

subsection \<open>Copies\<close>

lemma lookup_alter_child:
  "lookup_tree f p = Some (FDir es) \<Longrightarrow>
   lookup_tree (alter (p @ c # r) x f) p = Some (FDir es) \<or>
   (\<exists>y. lookup_tree (alter (p @ c # r) x f) p = Some (FDir (set_entry c y es)))"
proof (induction p arbitrary: f)
  case Nil
  then show ?case by (auto split: option.split)
next
  case (Cons d p)
  then show ?case by (cases f) (auto split: option.splits)
qed

text \<open>While the entry \<open>c\<close> is being written, the directory has the old entries and perhaps \<open>c\<close> last.\<close>

definition adding :: "path \<Rightarrow> (string \<times> ftree) list \<Rightarrow> string \<Rightarrow> ftree \<Rightarrow> bool" where
  "adding p ds c f \<longleftrightarrow> lookup_tree f p = Some (FDir ds) \<or> (\<exists>u. lookup_tree f p = Some (FDir (ds @ [(c, u)])))"

lemma set_entry_new:
  assumes "c \<notin> fst ` set ds"
  shows "set_entry c x ds = (case x of None \<Rightarrow> ds | Some t \<Rightarrow> ds @ [(c, t)])"
    "set_entry c x (ds @ [(c, u)]) = (case x of None \<Rightarrow> ds | Some t \<Rightarrow> ds @ [(c, t)])"
proof -
  have "filter (\<lambda>kv. fst kv \<noteq> c) ds = ds" "map (\<lambda>kv. (fst kv, if fst kv = c then t else snd kv)) ds = ds" for t
    using assms by (auto simp: filter_id_conv rev_image_eqI intro!: map_idI)
  with assms show "set_entry c x ds = (case x of None \<Rightarrow> ds | Some t \<Rightarrow> ds @ [(c, t)])"
    "set_entry c x (ds @ [(c, u)]) = (case x of None \<Rightarrow> ds | Some t \<Rightarrow> ds @ [(c, t)])"
    by (simp_all add: set_entry_def split: option.split)
qed

lemma stable_adding:
  assumes "c \<notin> fst ` set ds"
  shows "stable (p @ [c]) (adding p ds c)"
  unfolding stable_def
proof (intro allI impI)
  fix f x q assume q: "is_prefix (p @ [c]) q" and a: "adding p ds c f"
  then obtain r where q': "q = p @ c # r" by (auto simp: is_prefix_iff)
  from a obtain es where es: "lookup_tree f p = Some (FDir es)" "es = ds \<or> (\<exists>u. es = ds @ [(c, u)])"
    by (auto simp: adding_def)
  from lookup_alter_child [OF es(1), of c r x] q'
  consider "lookup_tree (alter q x f) p = Some (FDir es)"
    | y where "lookup_tree (alter q x f) p = Some (FDir (set_entry c y es))" by blast
  then show "adding p ds c (alter q x f)"
  proof cases
    case (2 y)
    with es(2) show ?thesis by (cases y) (auto simp: adding_def set_entry_new [OF assms])
  qed (use es in \<open>auto simp: adding_def\<close>)
qed

lemma grows_adding:
  assumes "c \<notin> fst ` set ds"
  shows "grows (p @ [c]) (adding p ds c)"
  unfolding grows_def
proof (intro allI impI)
  fix f q assume q: "is_prefix q (p @ [c])" and a: "adding p ds c f" and n: "\<not> exists_at f q"
  have "q = p @ [c]"
  proof (rule ccontr)
    assume "q \<noteq> p @ [c]"
    with q obtain r where "p = q @ r"
      unfolding is_prefix_iff by (metis append_Nil2 append_assoc butlast_append butlast_snoc)
    with a have "exists_at f (q @ r)" by (auto simp: adding_def exists_at_def)
    with n exists_at_prefix show False by blast
  qed
  with a stable_adding [OF assms] show "adding p ds c (alter q (Some (FDir [])) f)"
    by (auto simp: stable_def)
qed

lemma adding_done:
  "adding p ds c f \<Longrightarrow> c \<notin> fst ` set ds \<Longrightarrow> lookup_tree f (p @ [c]) = Some t \<Longrightarrow>
   lookup_tree f p = Some (FDir (ds @ [(c, t)]))"
  by (auto simp: adding_def lookup_snoc map_of_append_key split: option.splits dest: map_of_SomeD)
     (auto simp: rev_image_eqI map_add_def split: option.splits dest: map_of_SomeD)

lemma note_error_post: "achieves P m (\<lambda>_. Q) \<Longrightarrow> achieves P (note_error m) (\<lambda>errs w. errs = [] \<longrightarrow> Q w)"
  unfolding note_error_def
  by (rule triple_except [OF triple_sq [where R = Q]]) (auto intro: triples)

lemma achieves_vacuous: "achieves P m (\<lambda>x w. False \<longrightarrow> Q x w)"
  by simp

lemma copy_entry_post:
  assumes "c \<notin> fst ` set ds"
    and "achieves (\<lambda>w. is_dir_at (w_fs w) p) (copy_tree ign src t (p @ [c]) :: ('e, unit) io)
      (\<lambda>_ w. lookup_tree (w_fs w) (p @ [c]) = Some u)"
  shows "achieves (\<lambda>w. lookup_tree (w_fs w) p = Some (FDir ds)) (note_error (copy_tree ign src t (p @ [c]) :: ('e, unit) io))
    (\<lambda>errs w. errs = [] \<longrightarrow> lookup_tree (w_fs w) p = Some (FDir (ds @ [(c, u)])))"
proof -
  have k: "fs_keeps (adding p ds c) (copy_tree ign src t (p @ [c]) :: ('e, unit) io)"
    by (rule keeps_copy_tree(1) [OF stable_adding grows_adding]) (simp_all add: assms)
  have "achieves (\<lambda>w. adding p ds c (w_fs w) \<and> is_dir_at (w_fs w) p) (note_error (copy_tree ign src t (p @ [c]) :: ('e, unit) io))
    (\<lambda>errs w. errs = [] \<longrightarrow> adding p ds c (w_fs w) \<and> lookup_tree (w_fs w) (p @ [c]) = Some u)"
    by (rule note_error_post) (rule triple_weaken [OF triple_conj [OF k assms(2)]], simp_all)
  then show ?thesis
  proof (rule triple_weaken)
    fix w :: "'e world" assume "lookup_tree (w_fs w) p = Some (FDir ds)"
    then show "adding p ds c (w_fs w) \<and> is_dir_at (w_fs w) p" by (simp add: adding_def is_dir_at_conv)
  next
    fix errs and w :: "'e world"
    assume "errs = [] \<longrightarrow> adding p ds c (w_fs w) \<and> lookup_tree (w_fs w) (p @ [c]) = Some u"
    then show "errs = [] \<longrightarrow> lookup_tree (w_fs w) p = Some (FDir (ds @ [(c, u)]))"
      using adding_done [OF _ assms(1)] by blast
  qed simp
qed

lemma copy_tree_post:
  "wf_tree t \<Longrightarrow> dst = p @ [c] \<Longrightarrow>
     achieves (\<lambda>w. is_dir_at (w_fs w) p) (copy_tree ign src t dst :: ('e, unit) io)
       (\<lambda>_ w. lookup_tree (w_fs w) dst = Some (copied ign t))"
  "wf_tree (FDir es) \<Longrightarrow> fst ` set es \<inter> fst ` set ds = {} \<Longrightarrow>
     achieves (\<lambda>w. lookup_tree (w_fs w) dst = Some (FDir ds)) (copy_entries ign src es dst :: ('e, string list) io)
       (\<lambda>errs w. errs = [] \<longrightarrow> lookup_tree (w_fs w) dst = Some (FDir (ds @ copied_entries ign es)))"
proof (induction ign src t dst and ign src es dst arbitrary: p c and ds rule: copy_tree_copy_entries.induct)
  case (1 ign src s dst)
  then show ?case using copy_file_post by simp
next
  case (2 ign src es dst)
  let ?Q = "\<lambda>w. lookup_tree (w_fs w) dst = Some (FDir (copied_entries ign es))"
  have e: "achieves (\<lambda>w. lookup_tree (w_fs w) dst = Some (FDir [])) (copy_entries ign src es dst :: ('e, string list) io)
      (\<lambda>errs w. errs = [] \<longrightarrow> ?Q w)"
    using 2(1) [of "[]"] 2(2) by simp
  have n: "achieves (\<lambda>w. errs = [] \<longrightarrow> ?Q w) (note_error (copystat src dst) :: ('e, string list) io)
      (\<lambda>errs' w. errs = [] \<longrightarrow> ?Q w)" for errs
    by (rule triple_weaken [OF keeps_note_error [OF keeps_copystat]]) auto
  have f: "achieves (\<lambda>w. errs = [] \<longrightarrow> ?Q w)
      (if errs @ errs' = [] then ret () else raise (OSError (py_join '', '' (errs @ errs'))) :: ('e, unit) io)
      (\<lambda>_ w. ?Q w)" for errs errs' :: "string list"
    by (auto intro: triples)
  have m: "achieves (\<lambda>_. True) (os_makedirs dst :: ('e, unit) io) (\<lambda>_ w. lookup_tree (w_fs w) dst = Some (FDir []))"
    using os_makedirs_post 2(3) by simp
  have "achieves (\<lambda>_. True) (copy_tree ign src (FDir es) dst :: ('e, unit) io) (\<lambda>_ w. ?Q w)"
    unfolding copy_tree.simps by (rule triple_sq [OF m triple_bnd [OF e triple_bnd [OF n f]]])
  then show ?case by (rule triple_weaken) auto
next
  case (3 ign src dst)
  then show ?case by (auto intro: triples)
next
  case (4 ign src c' t es dst)
  show ?case
  proof (cases "c' = ign")
    case True
    with 4 show ?thesis by auto
  next
    case False
    let ?R = "\<lambda>errs w. errs = [] \<longrightarrow> lookup_tree (w_fs w) dst = Some (FDir (ds @ [(c', copied ign t)]))"
    have c: "c' \<notin> fst ` set ds" using 4(5) by auto
    have wf: "wf_tree t" "wf_tree (FDir es)" using 4(4) by auto
    have hd: "achieves (\<lambda>w. lookup_tree (w_fs w) dst = Some (FDir ds))
        (note_error (copy_tree ign (src @ [c']) t (dst @ [c'])) :: ('e, string list) io) ?R"
      by (rule copy_entry_post [OF c 4(2) [OF False wf(1) refl]])
    have dis: "fst ` set es \<inter> fst ` set (ds @ [(c', copied ign t)]) = {}" using 4(4,5) by auto
    have tl: "achieves (?R errs) (bnd (copy_entries ign src es dst) (\<lambda>errs'. ret (errs @ errs')) :: ('e, string list) io)
        (\<lambda>errs w. errs = [] \<longrightarrow> lookup_tree (w_fs w) dst = Some (FDir (ds @ copied_entries ign ((c', t) # es))))" for errs
    proof (cases "errs = []")
      case True
      have "achieves (?R errs) (copy_entries ign src es dst :: ('e, string list) io)
          (\<lambda>errs' w. errs' = [] \<longrightarrow> lookup_tree (w_fs w) dst = Some (FDir ((ds @ [(c', copied ign t)]) @ copied_entries ign es)))"
        by (rule triple_weaken [OF 4(3) [OF False wf(2) dis]]) (use True in auto)
      then show ?thesis
        by (rule triple_bnd) (use True False in \<open>auto intro: triples\<close>)
    next
      case ne: False
      have "achieves (?R errs) (copy_entries ign src es dst :: ('e, string list) io) (\<lambda>_ _. True)" by simp
      then show ?thesis by (rule triple_bnd) (use ne in \<open>auto intro: triples\<close>)
    qed
    show ?thesis
      using triple_bnd [OF hd tl] False by simp
  qed
qed

lemma copytree_post:
  assumes "\<And>w. P w \<Longrightarrow> lookup_tree (w_fs w) src = Some t \<and> is_dir_at (w_fs w) p" "wf_tree t" "fs_only P"
  shows "achieves P (copytree ign src (p @ [c])) (\<lambda>_ w. lookup_tree (w_fs w) (p @ [c]) = Some (copied ign t))"
  unfolding copytree_def
proof (rule triple_bnd)
  show "achieves P (scan_tree src) (\<lambda>u w. is_dir_at (w_fs w) p \<and> u = t)"
    unfolding scan_tree_def
    by (rule triple_read_sys [OF assms(3)]) (use assms(1) in \<open>auto split: ftree.splits\<close>)
  show "achieves (\<lambda>w. is_dir_at (w_fs w) p \<and> u = t) (copy_tree ign src u (p @ [c]))
      (\<lambda>_ w. lookup_tree (w_fs w) (p @ [c]) = Some (copied ign t))" for u
    by (rule triple_assume) (simp add: copy_tree_post(1) [OF assms(2) refl])
qed

subsection \<open>Renaming and creating\<close>

lemma apart_not_prefix: "apart p q \<Longrightarrow> \<not> is_prefix p q" "apart p q \<Longrightarrow> \<not> is_prefix q p" "apart p q \<Longrightarrow> p \<noteq> q"
  by (auto simp: apart_def)

text \<open>A rename happens as a whole or not at all.\<close>

lemma os_rename_post:
  assumes "apart src (p @ [c])"
  shows "triple (\<lambda>w. lookup_tree (w_fs w) src = Some t \<and> lookup_tree (w_fs w) (p @ [c]) = old)
    (os_rename src (p @ [c])) (\<lambda>_ w. lookup_tree (w_fs w) (p @ [c]) = Some t)
    (\<lambda>_ w. lookup_tree (w_fs w) (p @ [c]) = old)"
proof -
  have np: "\<not> is_prefix src p" using apart_not_prefix(1) [OF assms] is_prefix_trans [OF _ is_prefix_append] by blast
  have moved: "lookup_tree (alter (p @ [c]) (Some t) (alter src None f)) (p @ [c]) = Some t"
    if "is_dir_at f p" for f
    using that np by (intro lookup_alter_same) simp
  have dir: "is_dir_at f p" if "lookup_tree f (p @ [c]) = Some u" for f u
    using that parent_is_dir by fastforce
  show ?thesis
    unfolding os_rename_def sys_def
    by (rule triple_sys_torn)
       (use apart_not_prefix [OF assms] in
         \<open>auto simp: moved dir split: option.split ftree.split list.split\<close>)
qed

lemma mkdir_settle_post: "achieves (\<lambda>_. True) (mkdir_settle p e) (\<lambda>_ w. is_dir_at (w_fs w) p)"
  unfolding mkdir_settle_def path_is_dir_def
  by (rule triple_bnd [OF triple_read_sys [where Q = "\<lambda>d w. d = is_dir_at (w_fs w) p"]])
     (auto intro: triples simp: fs_only_def)

lemma os_mkdir_post:
  "achieves (\<lambda>_. True) (os_mkdir p) (\<lambda>r w. r = Created \<longrightarrow> is_dir_at (w_fs w) p)"
proof (cases p rule: rev_cases)
  case Nil
  show ?thesis unfolding os_mkdir_def
    by (rule achieves_sys) (auto simp: Nil exists_at_def split: if_splits)
next
  case (snoc q c)
  show ?thesis unfolding os_mkdir_def
    by (rule achieves_sys) (auto simp: snoc lookup_alter_same is_dir_at_conv split: if_splits)
qed

lemma mkdir_here_post: "achieves (\<lambda>_. True) (mkdir_here p) (\<lambda>_ w. is_dir_at (w_fs w) p)"
  unfolding mkdir_here_def
proof (rule triple_except_else [OF os_mkdir_post])
  fix r :: mkdir_result
  show "achieves (\<lambda>w. r = Created \<longrightarrow> is_dir_at (w_fs w) p) (case r of Created \<Rightarrow> ret ()
      | Already_There \<Rightarrow> mkdir_settle p file_exists | Parent_Missing \<Rightarrow> raise no_such_file)
      (\<lambda>_ w. is_dir_at (w_fs w) p)"
    by (cases r) (auto intro: triples mkdir_settle_post)
qed (auto intro: mkdir_settle_post)

lemma mkdir_p_post: "achieves (\<lambda>_. True) (mkdir_p p) (\<lambda>_ w. is_dir_at (w_fs w) p)"
proof (cases p rule: rev_cases)
  case Nil
  then show ?thesis using mkdir_here_post [of p] by (simp add: mkdir_p_def)
next
  case (snoc q c)
  have "achieves (\<lambda>w. r = Created \<longrightarrow> is_dir_at (w_fs w) p) (case r of Created \<Rightarrow> ret ()
      | Already_There \<Rightarrow> mkdir_settle p file_exists | Parent_Missing \<Rightarrow> sq (mkdir_rev (rev q)) (mkdir_here p))
      (\<lambda>_ w. is_dir_at (w_fs w) p)" for r
    by (cases r) (auto intro: triples mkdir_settle_post triple_sq [OF triple_True mkdir_here_post])
  then have "achieves (\<lambda>_. True) (except_else (os_mkdir p) is_os_error (mkdir_settle p)
      (\<lambda>r. case r of Created \<Rightarrow> ret () | Already_There \<Rightarrow> mkdir_settle p file_exists
         | Parent_Missing \<Rightarrow> sq (mkdir_rev (rev q)) (mkdir_here p))) (\<lambda>_ w. is_dir_at (w_fs w) p)"
    by (intro triple_except_else [OF os_mkdir_post] mkdir_settle_post) auto
  then show ?thesis unfolding snoc by (simp add: mkdir_p_def Let_def)
qed

lemma copy2_post:
  assumes "\<And>w. P w \<Longrightarrow> lookup_tree (w_fs w) src = Some (FFile s) \<and> is_dir_at (w_fs w) p" "fs_only P"
  shows "achieves P (copy2 src (p @ [c])) (\<lambda>_ w. lookup_tree (w_fs w) (p @ [c]) = Some (FFile s))"
  unfolding copy2_def
proof (rule triple_bnd)
  show "achieves P (read_file src) (\<lambda>u w. is_dir_at (w_fs w) p \<and> u = s)"
    unfolding read_file_def by (rule triple_read_sys [OF assms(2)]) (use assms(1) in auto)
  show "achieves (\<lambda>w. is_dir_at (w_fs w) p \<and> u = s) (sq (write_text (p @ [c]) u) (copystat src (p @ [c])))
      (\<lambda>_ w. lookup_tree (w_fs w) (p @ [c]) = Some (FFile s))" for u
    by (rule triple_assume)
       (auto intro!: triple_sq [OF write_text_post]
          intro: triple_weaken [OF keeps_copystat [of "\<lambda>f. lookup_tree f (p @ [c]) = Some (FFile s)"]])
qed

end
