(* ===== verification/Local_Destination.thy ===== *)
theory Local_Destination
  imports Manifest Copy_Laws Retention
begin

text \<open>
  \<open>destinations/local.py\<close>: a destination that is a directory of this host. A generation
  \<open>id\<close> is the directory \<open>id\<close>; it is complete when it holds a \<open>meta.json\<close>. It is copied
  into \<open>id.partial\<close> first and renamed at the end.
\<close>

definition partial_suffix :: string where
  "partial_suffix = ''.partial''"

definition check_probe_filename :: string where
  "check_probe_filename = ''.mbkeeper-check''"

record local_destination =
  ld_name :: string
  ld_path :: path
  ld_keep :: int

definition local_error :: "local_destination \<Rightarrow> string \<Rightarrow> exn \<Rightarrow> exn" where
  "local_error d what e = DestinationError
     (''destination '' @ [CHR 0x27] @ ld_name d @ [CHR 0x27] @ '': '' @ what @ '' failed: '' @ exn_msg e)"

definition local_no_path :: "local_destination \<Rightarrow> exn" where
  "local_no_path d = DestinationError
     (''destination '' @ [CHR 0x27] @ ld_name d @ [CHR 0x27] @ '': path does not exist: '' @ path_str (ld_path d))"

text \<open>The body of the \<open>try\<close> block of \<open>store\<close>.\<close>

definition local_transfer :: "local_destination \<Rightarrow> path \<Rightarrow> string \<Rightarrow> ('e, unit) io" where
  "local_transfer d local_dir backup_id =
     (let final_dir = path_join (ld_path d) backup_id;
          partial_dir = path_join (ld_path d) (backup_id @ partial_suffix);
          meta_src = path_join local_dir meta_filename
      in sq (mkdir_p (ld_path d))
         (sq (bnd (path_exists partial_dir) (\<lambda>stale. do_when stale (rmtree partial_dir)))
         (sq (copytree meta_filename local_dir partial_dir)
         (sq (bnd (path_is_file meta_src) (\<lambda>m. do_when m (copy2 meta_src (path_join partial_dir meta_filename))))
             (os_rename partial_dir final_dir)))))"

definition local_store :: "local_destination \<Rightarrow> path \<Rightarrow> string \<Rightarrow> ('e, unit) io" where
  "local_store d local_dir backup_id =
     bnd (path_is_file (path_join (path_join (ld_path d) backup_id) meta_filename)) (\<lambda>complete.
       if complete then ret ()
       else except (local_transfer d local_dir backup_id) is_os_error
              (\<lambda>e. raise (local_error d ''store'' e)))"

text \<open>\<open>datetime.fromtimestamp(st_mtime, tz=timezone.utc)\<close>; a time is a UTC reading here.\<close>

definition from_mtime :: "int \<Rightarrow> exn + datetime" where
  "from_mtime t = (if in_range t then Inr (utc t) else Inl (ValueError ''year is out of range''))"

definition listed_entry :: "local_destination \<Rightarrow> string \<Rightarrow> ('e, stored_backup list) io" where
  "listed_entry d name =
     (let entry = ld_path d @ [name] in
      bnd (path_is_dir entry) (\<lambda>isd.
        if \<not> isd then ret []
        else bnd (if ends_with partial_suffix name
                  then ret (drop_end (length partial_suffix) name, False)
                  else bnd (path_is_file (path_join entry meta_filename)) (\<lambda>c. ret (name, c))) (\<lambda>(backup_id, complete).
             bnd (st_mtime entry) (\<lambda>t.
             bnd (lift (from_mtime t)) (\<lambda>stored_at.
             ret [\<lparr>sb_id = backup_id, sb_complete = complete, sb_stored_at = stored_at\<rparr>])))))"

fun listed_entries :: "local_destination \<Rightarrow> string list \<Rightarrow> ('e, stored_backup list) io" where
  "listed_entries d [] = ret []"
| "listed_entries d (name # names) =
     bnd (listed_entry d name) (\<lambda>b. bnd (listed_entries d names) (\<lambda>bs. ret (b @ bs)))"

definition local_list_backups :: "local_destination \<Rightarrow> ('e, stored_backup list) io" where
  "local_list_backups d =
     bnd (path_is_dir (ld_path d)) (\<lambda>there.
       if \<not> there then raise (local_no_path d)
       else bnd (list_dir (ld_path d)) (listed_entries d))"

definition local_delete_one :: "local_destination \<Rightarrow> string \<Rightarrow> ('e, unit) io" where
  "local_delete_one d name =
     (let target = path_join (ld_path d) name in
      bnd (path_exists target) (\<lambda>there. do_when there
        (except (rmtree target) is_os_error (\<lambda>e. raise (local_error d ''delete'' e)))))"

definition local_delete :: "local_destination \<Rightarrow> string \<Rightarrow> ('e, unit) io" where
  "local_delete d backup_id = for_each [backup_id, backup_id @ partial_suffix] (local_delete_one d)"

definition local_check :: "local_destination \<Rightarrow> ('e, unit) io" where
  "local_check d =
     (let probe = path_join (ld_path d) check_probe_filename in
      except (sq (mkdir_p (ld_path d)) (sq (write_text probe ''ok'') (unlink probe)))
        is_os_error (\<lambda>e. raise (local_error d ''check'' e)))"

subsection \<open>Generations on the tree\<close>

definition complete_at :: "path \<Rightarrow> string \<Rightarrow> ftree \<Rightarrow> bool" where
  "complete_at p backup_id fs \<longleftrightarrow> is_file_at fs (p @ [backup_id, meta_filename])"

text \<open>What a stored generation is: the copy of the source without any \<open>meta.json\<close>, and the top one last.\<close>

definition stored_tree :: "ftree \<Rightarrow> ftree" where
  "stored_tree t = (case t of FFile s \<Rightarrow> FFile s
     | FDir es \<Rightarrow> FDir (copied_entries meta_filename es @
         (case map_of es meta_filename of Some (FFile m) \<Rightarrow> [(meta_filename, FFile m)] | _ \<Rightarrow> [])))"

lemma plain_partial: "plain i \<Longrightarrow> plain (i @ partial_suffix)"
  by (auto simp: plain_def partial_suffix_def)

lemma partial_suffix_nonempty [simp]: "partial_suffix \<noteq> []"
  by (simp add: partial_suffix_def)

lemma partial_neq [simp]: "i @ partial_suffix \<noteq> i" "i \<noteq> i @ partial_suffix"
  by (auto simp: partial_suffix_def)

lemma keeps_local_transfer:
  assumes "plain i" "stable (ld_path d @ [i]) I" "stable (ld_path d @ [i @ partial_suffix]) I"
    "grows (ld_path d) I" "\<And>f. I f \<Longrightarrow> wf_tree f"
  shows "fs_keeps I (local_transfer d src i :: ('e, unit) io)"
proof -
  have "grows (ld_path d @ [i @ partial_suffix]) I"
    unfolding grows_def
  proof (intro allI impI)
    fix f q assume q: "is_prefix q (ld_path d @ [i @ partial_suffix])" "I f" "\<not> exists_at f q"
    show "I (alter q (Some (FDir [])) f)"
    proof (cases "q = ld_path d @ [i @ partial_suffix]")
      case True
      with assms(3) q(2) show ?thesis by (simp add: stable_def)
    next
      case False
      with q(1) have "is_prefix q (ld_path d)"
        unfolding is_prefix_iff by (metis append_Nil2 append_assoc butlast_append butlast_snoc)
      with assms(4) q show ?thesis by (simp add: grows_def)
    qed
  qed
  moreover have "wf_tree t" if "I f" "lookup_tree f p = Some t" for f p t
    using that assms(5) wf_tree_lookup by blast
  moreover have "fs_keeps I (copy2 s (ld_path d @ [i @ partial_suffix, meta_filename]) :: ('e, unit) io)" for s
    by (rule keeps_copy2 [OF assms(3)]) (simp add: is_prefix_iff)
  ultimately show ?thesis
    unfolding local_transfer_def Let_def
    using assms(1-4) plain_partial [OF assms(1)]
    by (auto intro!: keeps_sq keeps_bnd keeps_do_when keeps_mkdir_p keeps_reads keeps_rmtree keeps_copytree
        keeps_os_rename)
qed

end
