(* ===== verification/Local_Correct.thy ===== *)
theory Local_Correct
  imports Local_Destination
begin

text \<open>
  Correctness of the local destination under every schedule of failures and every point of
  interruption: a store touches nothing but its own two names, the final name changes only
  by becoming the whole copy, a complete generation is never touched again by a store, and
  a deletion touches nothing but its own two names.
\<close>

text \<open>The source of a store: away from the partial directory, and not above the destination.\<close>

definition separate :: "local_destination \<Rightarrow> path \<Rightarrow> string \<Rightarrow> bool" where
  "separate d src i \<longleftrightarrow> apart (ld_path d @ [i @ partial_suffix]) src \<and> \<not> is_prefix src (ld_path d)"

lemma meta_not_copied: "meta_filename \<notin> fst ` set (copied_entries meta_filename es)"
  by (induction es) (auto split: if_splits)

definition before_commit :: "local_destination \<Rightarrow> path \<Rightarrow> string \<Rightarrow> (string \<times> ftree) list \<Rightarrow> ftree option \<Rightarrow> ftree \<Rightarrow> bool" where
  "before_commit d src i es old f \<longleftrightarrow>
     lookup_tree f src = Some (FDir es) \<and> lookup_tree f (ld_path d @ [i]) = old \<and> wf_tree f"

lemma stable_before_commit:
  "separate d src i \<Longrightarrow> stable (ld_path d @ [i @ partial_suffix]) (before_commit d src i es old)"
  unfolding before_commit_def separate_def by (intro frames) auto

lemma grows_before_commit: "separate d src i \<Longrightarrow> grows (ld_path d) (before_commit d src i es old)"
  unfolding before_commit_def separate_def by (intro frames) (auto simp: is_prefix_iff)

lemma grows_before_commit_partial:
  assumes "separate d src i"
  shows "grows (ld_path d @ [i @ partial_suffix]) (before_commit d src i es old)"
proof -
  have "\<not> is_prefix src (ld_path d @ [i @ partial_suffix])"
    using assms by (simp add: separate_def apart_def)
  then show ?thesis
    unfolding before_commit_def by (intro frames) (auto simp: is_prefix_iff)
qed

text \<open>After the copy of the data: the directory is there, the partial directory holds the copy.\<close>

lemma transfer_data:
  fixes d :: local_destination
  assumes "separate d src i"
  defines "partial \<equiv> ld_path d @ [i @ partial_suffix]"
  shows "triple (\<lambda>w. before_commit d src i es old (w_fs w) \<and> is_dir_at (w_fs w) (ld_path d))
    (copytree meta_filename src partial :: ('e, unit) io)
    (\<lambda>_ w. before_commit d src i es old (w_fs w) \<and>
       lookup_tree (w_fs w) partial = Some (FDir (copied_entries meta_filename es)))
    (\<lambda>_ w. before_commit d src i es old (w_fs w))"
proof (cases "wf_tree (FDir es)")
  case True
  have k: "fs_keeps (before_commit d src i es old) (copytree meta_filename src partial :: ('e, unit) io)"
    unfolding partial_def
    by (rule keeps_copytree [OF stable_before_commit [OF assms(1)] grows_before_commit_partial [OF assms(1)]])
  have "achieves (\<lambda>w. before_commit d src i es old (w_fs w) \<and> is_dir_at (w_fs w) (ld_path d))
      (copytree meta_filename src partial :: ('e, unit) io)
      (\<lambda>_ w. lookup_tree (w_fs w) partial = Some (copied meta_filename (FDir es)))"
    unfolding partial_def by (rule copytree_post [OF _ True]) (auto simp: before_commit_def)
  from triple_conj [OF k this] show ?thesis
    by (rule triple_weaken) auto
next
  case False
  have "\<not> before_commit d src i es old f" for f
    using False wf_tree_lookup [of f src "FDir es"] by (auto simp: before_commit_def simp del: wf_tree.simps)
  then show ?thesis by (simp add: triple_def)
qed

text \<open>After the copy of the manifest the partial directory is the tree to be stored.\<close>

lemma transfer_meta:
  fixes d :: local_destination
  assumes "separate d src i"
  defines "partial \<equiv> ld_path d @ [i @ partial_suffix]"
  shows "triple (\<lambda>w. before_commit d src i es old (w_fs w) \<and>
       lookup_tree (w_fs w) partial = Some (FDir (copied_entries meta_filename es)))
    (bnd (path_is_file (src @ [meta_filename])) (\<lambda>m. do_when m
       (copy2 (src @ [meta_filename]) (partial @ [meta_filename]))) :: ('e, unit) io)
    (\<lambda>_ w. before_commit d src i es old (w_fs w) \<and> lookup_tree (w_fs w) partial = Some (stored_tree (FDir es)))
    (\<lambda>_ w. before_commit d src i es old (w_fs w))"
    (is "triple (\<lambda>w. ?B w \<and> ?C w) _ (\<lambda>_ w. ?B w \<and> ?S w) _")
proof (rule triple_bnd)
  let ?m = "\<exists>s. map_of es meta_filename = Some (FFile s)"
  show "triple (\<lambda>w. ?B w \<and> ?C w) (path_is_file (src @ [meta_filename]) :: ('e, bool) io)
      (\<lambda>m w. (?B w \<and> ?C w) \<and> m = ?m) (\<lambda>_ w. ?B w)"
    unfolding path_is_file_def
    by (rule triple_read_sys) (auto simp: before_commit_def is_file_at_conv lookup_snoc)
  fix m
  let ?ds = "copied_entries meta_filename es"
  have "triple (\<lambda>w. ?B w \<and> ?C w) (copy2 (src @ [meta_filename]) (partial @ [meta_filename]) :: ('e, unit) io)
      (\<lambda>_ w. ?B w \<and> ?S w) (\<lambda>_ w. ?B w)" if ms: "map_of es meta_filename = Some (FFile s)" for s
  proof -
    have k: "fs_keeps (\<lambda>f. before_commit d src i es old f \<and> adding partial ?ds meta_filename f)
        (copy2 (src @ [meta_filename]) (partial @ [meta_filename]) :: ('e, unit) io)"
      unfolding partial_def
      by (rule keeps_copy2 [OF stable_conj [OF stable_mono [OF stable_before_commit [OF assms(1)]]
              stable_adding [OF meta_not_copied]]]) simp_all
    have "achieves (\<lambda>w. ?B w \<and> ?C w) (copy2 (src @ [meta_filename]) (partial @ [meta_filename]) :: ('e, unit) io)
        (\<lambda>_ w. lookup_tree (w_fs w) (partial @ [meta_filename]) = Some (FFile s))"
      by (rule copy2_post) (auto simp: before_commit_def lookup_snoc ms is_dir_at_conv)
    from triple_conj [OF k this] show ?thesis
    proof (rule triple_weaken)
      fix x and w :: "'e world"
      assume "(before_commit d src i es old (w_fs w) \<and> adding partial ?ds meta_filename (w_fs w)) \<and>
        lookup_tree (w_fs w) (partial @ [meta_filename]) = Some (FFile s)"
      with adding_done [OF _ meta_not_copied] ms
      show "before_commit d src i es old (w_fs w) \<and> lookup_tree (w_fs w) partial = Some (stored_tree (FDir es))"
        by (fastforce simp: stored_tree_def)
    qed (auto simp: adding_def)
  qed
  moreover have "stored_tree (FDir es) = FDir ?ds" if "\<not> ?m"
    using that by (auto simp: stored_tree_def split: option.split ftree.split)
  ultimately show "triple (\<lambda>w. (?B w \<and> ?C w) \<and> m = ?m)
      (do_when m (copy2 (src @ [meta_filename]) (partial @ [meta_filename])) :: ('e, unit) io)
      (\<lambda>_ w. ?B w \<and> ?S w) (\<lambda>_ w. ?B w)"
    by (intro triple_assume) (auto simp: do_when_def intro: triples)
qed

lemma local_transfer_post:
  fixes d :: local_destination
  assumes "separate d src i" "plain i"
  shows "triple (\<lambda>w. before_commit d src i es old (w_fs w)) (local_transfer d src i :: ('e, unit) io)
    (\<lambda>_ w. lookup_tree (w_fs w) (ld_path d @ [i]) = Some (stored_tree (FDir es)))
    (\<lambda>_ w. lookup_tree (w_fs w) (ld_path d @ [i]) = old)"
proof -
  let ?B = "before_commit d src i es old" and ?p = "ld_path d @ [i @ partial_suffix]"
  have mk: "triple (\<lambda>w. ?B (w_fs w)) (mkdir_p (ld_path d) :: ('e, unit) io)
      (\<lambda>_ w. ?B (w_fs w) \<and> is_dir_at (w_fs w) (ld_path d)) (\<lambda>_ w. ?B (w_fs w))"
    by (rule triple_weaken [OF triple_conj [OF keeps_mkdir_p [OF grows_before_commit [OF assms(1)]] mkdir_p_post]]) auto
  have st: "stable ?p (\<lambda>f. ?B f \<and> is_dir_at f (ld_path d))"
    by (intro stable_conj stable_before_commit assms(1) stable_is_dir) (auto simp: is_prefix_def)
  have rm: "triple (\<lambda>w. ?B (w_fs w) \<and> is_dir_at (w_fs w) (ld_path d))
      (bnd (path_exists ?p) (\<lambda>stale. do_when stale (rmtree ?p)) :: ('e, unit) io)
      (\<lambda>_ w. ?B (w_fs w) \<and> is_dir_at (w_fs w) (ld_path d)) (\<lambda>_ w. ?B (w_fs w))"
    by (rule triple_weaken [OF keeps_bnd [OF keeps_reads(3) keeps_do_when [OF keeps_rmtree [OF st]]]]) auto
  have rn: "triple (\<lambda>w. ?B (w_fs w) \<and> lookup_tree (w_fs w) ?p = Some (stored_tree (FDir es)))
      (os_rename ?p (ld_path d @ [i]) :: ('e, unit) io)
      (\<lambda>_ w. lookup_tree (w_fs w) (ld_path d @ [i]) = Some (stored_tree (FDir es)))
      (\<lambda>_ w. lookup_tree (w_fs w) (ld_path d @ [i]) = old)"
    by (rule triple_weaken [OF os_rename_post]) (auto simp: before_commit_def)
  have E: "triple P m Q (\<lambda>_ w. ?B (w_fs w)) \<Longrightarrow> triple P m Q (\<lambda>_ w. lookup_tree (w_fs w) (ld_path d @ [i]) = old)"
    for P Q and m :: "('e, unit) io"
    by (erule triple_weaken) (auto simp: before_commit_def)
  show ?thesis
    unfolding local_transfer_def Let_def path_join_plain [OF assms(2)] path_join_plain [OF plain_partial [OF assms(2)]]
      path_join_plain [OF plain_meta]
    by (rule triple_sq [OF E [OF mk] triple_sq [OF E [OF rm] triple_sq [OF E [OF transfer_data [OF assms(1)]]
          triple_sq [OF E [OF transfer_meta [OF assms(1)]] rn]]]])
qed

subsection \<open>Storing\<close>

lemma keeps_local_store:
  assumes "plain i" "stable (ld_path d @ [i]) I" "stable (ld_path d @ [i @ partial_suffix]) I"
    "grows (ld_path d) I" "\<And>f. I f \<Longrightarrow> wf_tree f"
  shows "fs_keeps I (local_store d src i)"
  unfolding local_store_def
  using keeps_local_transfer [OF assms]
  by (auto intro!: keeps_bnd keeps_reads keeps_except triples)

lemma local_store_done:
  assumes "plain i" "complete_at (ld_path d) i (w_fs w)"
  shows "w_fs (snd (local_store d src i w)) = w_fs w"
    "w_fault w (w_tick w) = NoFault \<Longrightarrow> fst (local_store d src i w) = Inr ()"
  using assms
  by (auto simp: local_store_def bnd_def path_is_file_def read_sys_def sys_def sys_torn_def ret_def
      complete_at_def split: fault.split)

lemma local_store_result:
  assumes "separate d src i" "plain i"
  shows "triple (\<lambda>w. before_commit d src i es old (w_fs w) \<and> \<not> complete_at (ld_path d) i (w_fs w))
    (local_store d src i)
    (\<lambda>_ w. lookup_tree (w_fs w) (ld_path d @ [i]) = Some (stored_tree (FDir es)))
    (\<lambda>_ w. lookup_tree (w_fs w) (ld_path d @ [i]) = old)"
  unfolding local_store_def path_join_plain [OF assms(2)] path_join_plain [OF plain_meta]
proof (rule triple_bnd)
  let ?B = "\<lambda>w. before_commit d src i es old (w_fs w)"
  show "triple (\<lambda>w. ?B w \<and> \<not> complete_at (ld_path d) i (w_fs w)) (path_is_file ((ld_path d @ [i]) @ [meta_filename]))
      (\<lambda>c w. ?B w \<and> \<not> c) (\<lambda>_ w. lookup_tree (w_fs w) (ld_path d @ [i]) = old)"
    unfolding path_is_file_def by (rule triple_read_sys) (auto simp: complete_at_def before_commit_def)
  fix c
  show "triple (\<lambda>w. ?B w \<and> \<not> c)
      (if c then ret () else except (local_transfer d src i) is_os_error (\<lambda>e. raise (local_error d ''store'' e)))
      (\<lambda>_ w. lookup_tree (w_fs w) (ld_path d @ [i]) = Some (stored_tree (FDir es)))
      (\<lambda>_ w. lookup_tree (w_fs w) (ld_path d @ [i]) = old)"
    by (rule triple_assume) (auto intro!: triple_except [OF local_transfer_post [OF assms]] triple_raise)
qed

text \<open>
  C3. Storing commits atomically. Whatever call fails and wherever the process dies, a store
  of a generation that is not complete at the destination either returns normally, and
  then the final name holds the whole copy of the source (with its manifest, when it has
  one), or it raises or is interrupted, and then the final name is exactly what it was.
\<close>

theorem local_store_atomic:
  assumes "local_store d src i w = (r, w')" "plain i" "separate d src i" "wf_tree (w_fs w)"
    and "lookup_tree (w_fs w) src = Some (FDir es)" "\<not> complete_at (ld_path d) i (w_fs w)"
  shows "lookup_tree (w_fs w') (ld_path d @ [i]) =
    (if r = Inr () then Some (stored_tree (FDir es)) else lookup_tree (w_fs w) (ld_path d @ [i]))"
proof -
  have "before_commit d src i es (lookup_tree (w_fs w) (ld_path d @ [i])) (w_fs w) \<and>
      \<not> complete_at (ld_path d) i (w_fs w)"
    using assms(4-6) by (simp add: before_commit_def)
  from tripleD [OF local_store_result [OF assms(3,2)] this assms(1)] show ?thesis
    by (cases r) auto
qed

lemma local_store_outside:
  assumes "plain i" "wf_tree (w_fs w)" "apart (ld_path d @ [i]) q" "apart (ld_path d @ [i @ partial_suffix]) q"
    "\<not> is_prefix q (ld_path d)"
  shows "lookup_tree (w_fs (snd (local_store d src i w))) q = lookup_tree (w_fs w) q \<and>
    wf_tree (w_fs (snd (local_store d src i w)))"
proof -
  let ?I = "\<lambda>f. lookup_tree f q = lookup_tree (w_fs w) q \<and> wf_tree f"
  have "fs_keeps ?I (local_store d src i)"
    by (rule keeps_local_store) (use assms in \<open>auto intro!: frames\<close>)
  from keepsD [OF this, of w] assms(2) show ?thesis by simp
qed

lemma local_store_complete_kept:
  assumes "plain i" "wf_tree (w_fs w)" "complete_at (ld_path d) j (w_fs w)" "j \<noteq> i @ partial_suffix"
  shows "lookup_tree (w_fs (snd (local_store d src i w))) (ld_path d @ [j]) = lookup_tree (w_fs w) (ld_path d @ [j])"
proof (cases "i = j")
  case True
  with assms local_store_done(1) [of i d w src] show ?thesis by simp
next
  case False
  with assms show ?thesis
    by (intro conjunct1 [OF local_store_outside]) (auto simp: is_prefix_iff)
qed

subsection \<open>A concrete world\<close>

text \<open>A work directory \<open>/w\<close> with one finished generation, a destination \<open>/b\<close> with an older one.\<close>

definition sample_generation :: "(string \<times> ftree) list" where
  "sample_generation = [(''ibdata'', FFile ''x''), (''meta.json'', FFile ''m'')]"

definition sample_fs :: ftree where
  "sample_fs = FDir [(''/'', FDir [
     (''w'', FDir [(''g1'', FDir sample_generation)]),
     (''b'', FDir [(''g0'', FDir [(''meta.json'', FFile ''o'')])])])]"

definition sample_world :: "unit world" where
  "sample_world = \<lparr>w_fs = sample_fs, w_mtime = (\<lambda>_. sample_time), w_tick = 0, w_fault = (\<lambda>_. NoFault),
     w_clock = (\<lambda>n. sample_time + int n), w_log = [], w_out = [], w_err = [], w_pid = 1, w_held = [], w_ext = ()\<rparr>"

definition sample_local :: local_destination where
  "sample_local = \<lparr>ld_name = ''b'', ld_path = [''/'', ''b''], ld_keep = 2\<rparr>"

lemma sample_plain: "plain ''g0''" "plain ''g1''"
  by (simp_all add: plain_def)

lemma sample_wf: "wf_tree (w_fs sample_world)"
  by (simp add: sample_world_def sample_fs_def sample_generation_def)

lemma sample_source: "lookup_tree (w_fs sample_world) [''/'', ''w'', ''g1''] = Some (FDir sample_generation)"
  by (simp add: sample_world_def sample_fs_def)

lemma sample_separate: "separate sample_local [''/'', ''w'', ''g1''] ''g1''"
  by (simp add: separate_def sample_local_def apart_def)

lemma sample_complete:
  "complete_at (ld_path sample_local) ''g0'' (w_fs sample_world)"
  "\<not> complete_at (ld_path sample_local) ''g1'' (w_fs sample_world)"
  by (simp_all add: complete_at_def sample_local_def sample_world_def sample_fs_def is_file_at_def meta_filename_def)

lemma sample_store: "fst (local_store sample_local [''/'', ''w'', ''g1''] ''g1'' sample_world) = Inr ()"
  by code_simp

theorem local_store_atomic_witness:
  "lookup_tree (w_fs (snd (local_store sample_local [''/'', ''w'', ''g1''] ''g1'' sample_world))) [''/'', ''b'', ''g1'']
   = Some (FDir sample_generation)"
  using local_store_atomic [OF prod.collapse [symmetric] sample_plain(2) sample_separate sample_wf sample_source
      sample_complete(2)]
  by (simp add: sample_store) (simp add: sample_local_def stored_tree_def sample_generation_def meta_filename_def)

end
