(* ===== verification/Local_Listing.thy ===== *)
theory Local_Listing
  imports Local_Correct
begin

text \<open>
  What the listing of a local destination shows, and what a deletion removes and leaves.
\<close>

subsection \<open>Listing\<close>

text \<open>One entry of the destination directory as the listing reports it.\<close>

definition entry_generation :: "ftree \<Rightarrow> path \<Rightarrow> string \<Rightarrow> (string \<times> bool) list" where
  "entry_generation fs p name =
     (if \<not> is_dir_at fs (p @ [name]) then []
      else if ends_with partial_suffix name then [(drop_end (length partial_suffix) name, False)]
      else [(name, complete_at p name fs)])"

definition generations :: "ftree \<Rightarrow> path \<Rightarrow> (string \<times> bool) list" where
  "generations fs p = concat (map (entry_generation fs p) (names_at fs p))"

abbreviation id_status :: "stored_backup \<Rightarrow> string \<times> bool" where
  "id_status b \<equiv> (sb_id b, sb_complete b)"

lemma keeps_listed_entry [frames]: "fs_keeps I (listed_entry d name)"
  unfolding listed_entry_def Let_def by (auto intro!: keeps_bnd keeps_reads triples split: prod.split)

lemma keeps_listed_entries [frames]: "fs_keeps I (listed_entries d names)"
  by (induction names) (auto intro!: keeps_bnd triples frames)

lemma keeps_local_list [frames]: "fs_keeps I (local_list_backups d)"
  unfolding local_list_backups_def by (auto intro!: keeps_bnd triples frames)

lemma read_sys_post: "achieves (\<lambda>w. w_fs w = fs) (read_sys f) (\<lambda>x w. w_fs w = fs \<and> (\<exists>w'. w_fs w' = fs \<and> f w' = Inr x))"
  by (rule triple_read_sys) auto

lemma path_test_post:
  "achieves (\<lambda>w. w_fs w = fs) (path_is_dir p) (\<lambda>x w. w_fs w = fs \<and> x = is_dir_at fs p)"
  "achieves (\<lambda>w. w_fs w = fs) (path_is_file p) (\<lambda>x w. w_fs w = fs \<and> x = is_file_at fs p)"
  "achieves (\<lambda>w. w_fs w = fs) (path_exists p) (\<lambda>x w. w_fs w = fs \<and> x = exists_at fs p)"
  unfolding path_is_dir_def path_is_file_def path_exists_def by (rule triple_read_sys; auto)+

lemma listed_entry_post:
  "achieves (\<lambda>w. w_fs w = fs) (listed_entry d name)
     (\<lambda>bs w. w_fs w = fs \<and> map id_status bs = entry_generation fs (ld_path d) name)"
  unfolding listed_entry_def Let_def
proof (rule triple_bnd [OF path_test_post(1)])
  let ?p = "ld_path d @ [name]"
  let ?name = "if ends_with partial_suffix name then ret (drop_end (length partial_suffix) name, False)
    else bnd (path_is_file (path_join ?p meta_filename)) (\<lambda>c. ret (name, c))"
  fix isd
  have n: "achieves (\<lambda>w. w_fs w = fs \<and> is_dir_at fs ?p) ?name
      (\<lambda>r w. w_fs w = fs \<and> [r] = entry_generation fs (ld_path d) name)"
  proof (cases "ends_with partial_suffix name")
    case True
    then show ?thesis by (auto simp: entry_generation_def intro!: triples)
  next
    case False
    have "achieves (\<lambda>w. w_fs w = fs \<and> is_dir_at fs ?p) (path_is_file (?p @ [meta_filename]))
        (\<lambda>c w. w_fs w = fs \<and> is_dir_at fs ?p \<and> c = complete_at (ld_path d) name fs)"
      by (rule triple_assume) (auto simp: complete_at_def intro!: triple_weaken [OF path_test_post(2) [of fs]])
    then have "achieves (\<lambda>w. w_fs w = fs \<and> is_dir_at fs ?p)
        (bnd (path_is_file (path_join ?p meta_filename)) (\<lambda>c. ret (name, c)))
        (\<lambda>r w. w_fs w = fs \<and> [r] = entry_generation fs (ld_path d) name)"
      by (intro triple_bnd) (use False in \<open>auto simp: entry_generation_def intro!: triples\<close>)
    with False show ?thesis by simp
  qed
  show "achieves (\<lambda>w. w_fs w = fs \<and> isd = is_dir_at fs ?p)
     (if \<not> isd then ret []
      else bnd ?name (\<lambda>(backup_id, complete).
             bnd (st_mtime ?p) (\<lambda>t. bnd (lift (from_mtime t)) (\<lambda>stored_at.
             ret [\<lparr>sb_id = backup_id, sb_complete = complete, sb_stored_at = stored_at\<rparr>]))))
     (\<lambda>bs w. w_fs w = fs \<and> map id_status bs = entry_generation fs (ld_path d) name)"
  proof (cases isd)
    case False
    then show ?thesis by (auto simp: entry_generation_def intro!: triples)
  next
    case True
    have "achieves (\<lambda>w. w_fs w = fs \<and> [r] = entry_generation fs (ld_path d) name)
       (case r of (backup_id, complete) \<Rightarrow>
             bnd (st_mtime ?p) (\<lambda>t. bnd (lift (from_mtime t)) (\<lambda>stored_at.
             ret [\<lparr>sb_id = backup_id, sb_complete = complete, sb_stored_at = stored_at\<rparr>])))
       (\<lambda>bs w. w_fs w = fs \<and> map id_status bs = entry_generation fs (ld_path d) name)" for r
      by (cases r)
         (auto simp: st_mtime_def intro!: triple_bnd [OF triple_read_sys [where Q = "\<lambda>_ w. w_fs w = fs \<and> [r] = entry_generation fs (ld_path d) name"]]
            triple_bnd [OF triple_lift [where Q = "\<lambda>_ w. w_fs w = fs \<and> [r] = entry_generation fs (ld_path d) name"]] triple_ret)
    from triple_bnd [OF n this] True show ?thesis
      by (subst if_not_P, simp) (rule triple_weaken, assumption, simp_all)
  qed
qed

lemma listed_entries_post:
  "achieves (\<lambda>w. w_fs w = fs) (listed_entries d names :: ('e, stored_backup list) io)
     (\<lambda>bs w. w_fs w = fs \<and> map id_status bs = concat (map (entry_generation fs (ld_path d)) names))"
proof (induction names)
  case (Cons n names)
  have "achieves (\<lambda>w. w_fs w = fs \<and> map id_status b = entry_generation fs (ld_path d) n)
     (bnd (listed_entries d names) (\<lambda>bs. ret (b @ bs)) :: ('e, stored_backup list) io)
     (\<lambda>bs w. w_fs w = fs \<and> map id_status bs = concat (map (entry_generation fs (ld_path d)) (n # names)))" for b
    by (rule triple_assume, rule triple_bnd [OF Cons.IH]) (auto intro: triples)
  then show ?case by (simp del: concat.simps) (rule triple_bnd [OF listed_entry_post])
qed (auto intro: triples)

lemma local_list_backups_post:
  assumes "local_list_backups d w = (Inr bs, w')"
  shows "map id_status bs = generations (w_fs w) (ld_path d) \<and> w_fs w' = w_fs w"
proof -
  have l: "achieves (\<lambda>w'. w_fs w' = w_fs w) (list_dir (ld_path d))
      (\<lambda>ns w'. w_fs w' = w_fs w \<and> ns = names_at (w_fs w) (ld_path d))"
    unfolding list_dir_def by (rule triple_read_sys) (auto split: if_splits)
  have "achieves (\<lambda>w'. w_fs w' = w_fs w \<and> ns = names_at (w_fs w) (ld_path d)) (listed_entries d ns)
      (\<lambda>bs w'. w_fs w' = w_fs w \<and> map id_status bs = generations (w_fs w) (ld_path d))" for ns
    by (rule triple_assume) (simp add: generations_def listed_entries_post)
  from triple_bnd [OF l this]
  have "achieves (\<lambda>w'. w_fs w' = w_fs w) (local_list_backups d)
      (\<lambda>bs w'. w_fs w' = w_fs w \<and> map id_status bs = generations (w_fs w) (ld_path d))"
    unfolding local_list_backups_def
    by (intro triple_bnd [OF path_test_post(1)])
       (auto intro: triples triple_weaken)
  from tripleD [OF this refl assms] show ?thesis by simp
qed

text \<open>
  C20. A listing that returns is the directory: exactly one entry for each subdirectory, in
  directory order, its id the name without \<open>.partial\<close>, complete exactly when the name has
  no such suffix and holds a \<open>meta.json\<close>; and listing changes nothing.
\<close>

theorem local_list_backups_exact:
  assumes "local_list_backups d w = (Inr bs, w')"
  shows "map id_status bs = generations (w_fs w) (ld_path d) \<and> w_fs w' = w_fs w"
  using local_list_backups_post [OF assms] .

lemma sample_listing:
  "local_list_backups sample_local sample_world =
     (Inr [\<lparr>sb_id = ''g0'', sb_complete = True, sb_stored_at = utc sample_time\<rparr>],
      snd (local_list_backups sample_local sample_world))"
proof -
  have "fst (local_list_backups sample_local sample_world) =
      Inr [\<lparr>sb_id = ''g0'', sb_complete = True, sb_stored_at = utc sample_time\<rparr>]"
    by code_simp
  then show ?thesis by (simp add: prod_eq_iff)
qed

theorem local_list_backups_exact_witness:
  "generations sample_fs [''/'', ''b''] = [(''g0'', True)]"
  using local_list_backups_exact [OF sample_listing] by (simp add: sample_world_def sample_local_def)

subsection \<open>Deleting\<close>

lemma keeps_local_delete_one:
  assumes "plain n" "stable (ld_path d @ [n]) I"
  shows "fs_keeps I (local_delete_one d n)"
  unfolding local_delete_one_def Let_def
  using assms by (auto intro!: keeps_bnd keeps_do_when keeps_except keeps_reads keeps_rmtree triples)

lemma keeps_local_delete:
  assumes "plain i" "stable (ld_path d @ [i]) I" "stable (ld_path d @ [i @ partial_suffix]) I"
  shows "fs_keeps I (local_delete d i)"
  unfolding local_delete_def
  using assms plain_partial [OF assms(1)] by (auto intro!: keeps_sq keeps_ret keeps_local_delete_one)

lemma os_remove_post: "achieves (\<lambda>_. True) (os_remove (p @ [c])) (\<lambda>_ w. \<not> exists_at (w_fs w) (p @ [c]))"
proof -
  have "lookup_tree (alter (p @ [c]) None f) (p @ [c]) = None" if "lookup_tree f (p @ [c]) = Some t" for f t
    using that parent_is_dir [of f p c "[]"] by (simp add: lookup_alter_same)
  then show ?thesis unfolding os_remove_def
    by (intro achieves_sys) (auto simp: exists_at_def split: option.splits ftree.splits list.splits)
qed

lemma for_each_snoc: "for_each (xs @ [x]) f w = sq (for_each xs f) (f x) w"
proof (induction xs arbitrary: w)
  case Nil
  show ?case by (cases "f x w") (auto simp: sq_def bnd_def ret_def split: sum.split)
next
  case (Cons y ys)
  have "for_each (ys @ [x]) f = sq (for_each ys f) (f x)" using Cons by auto
  then show ?case by (cases "f y w") (auto simp: sq_def bnd_def split: prod.split sum.split)
qed

lemma removal_last: "\<exists>ps. removal p t = ps @ [p]"
  by (cases t) auto

lemma rmtree_post: "achieves (\<lambda>_. True) (rmtree (p @ [c])) (\<lambda>_ w. \<not> exists_at (w_fs w) (p @ [c]))"
  unfolding rmtree_def
proof (rule triple_bnd [OF triple_True])
  fix t
  obtain ps where "removal (p @ [c]) t = ps @ [p @ [c]]" using removal_last by blast
  then have "for_each (removal (p @ [c]) t) os_remove = sq (for_each ps os_remove) (os_remove (p @ [c]))"
    by (auto simp: for_each_snoc)
  then show "achieves (\<lambda>_. True) (for_each (removal (p @ [c]) t) os_remove) (\<lambda>_ w. \<not> exists_at (w_fs w) (p @ [c]))"
    using triple_sq [OF triple_True os_remove_post] by metis
qed

lemma local_delete_one_post:
  assumes "plain n"
  shows "achieves (\<lambda>_. True) (local_delete_one d n) (\<lambda>_ w. \<not> exists_at (w_fs w) (ld_path d @ [n]))"
  unfolding local_delete_one_def Let_def path_join_plain [OF assms]
proof (rule triple_bnd)
  let ?p = "ld_path d @ [n]"
  show "achieves (\<lambda>_. True) (path_exists ?p) (\<lambda>r w. r = exists_at (w_fs w) ?p)"
    unfolding path_exists_def by (rule triple_read_sys) (auto simp: fs_only_def)
  fix there
  show "achieves (\<lambda>w. there = exists_at (w_fs w) ?p)
     (do_when there (except (rmtree ?p) is_os_error (\<lambda>e. raise (local_error d ''delete'' e))))
     (\<lambda>_ w. \<not> exists_at (w_fs w) ?p)"
    by (cases there)
       (auto simp: do_when_def intro!: triple_except [OF triple_weaken [OF rmtree_post]] triples)
qed

lemma local_delete_post:
  assumes "plain i"
  shows "achieves (\<lambda>_. True) (local_delete d i)
    (\<lambda>_ w. \<not> exists_at (w_fs w) (ld_path d @ [i]) \<and> \<not> exists_at (w_fs w) (ld_path d @ [i @ partial_suffix]))"
proof -
  let ?I = "\<lambda>f. \<not> exists_at f (ld_path d @ [i])"
  have st: "stable (ld_path d @ [i @ partial_suffix]) ?I"
    unfolding exists_at_def by (rule stable_lookup) simp
  have "achieves (\<lambda>w. ?I (w_fs w)) (local_delete_one d (i @ partial_suffix))
      (\<lambda>_ w. ?I (w_fs w) \<and> \<not> exists_at (w_fs w) (ld_path d @ [i @ partial_suffix]))"
    by (rule triple_weaken [OF triple_conj [OF keeps_local_delete_one [OF plain_partial [OF assms] st]
          local_delete_one_post [OF plain_partial [OF assms]]]]) auto
  then show ?thesis
    unfolding local_delete_def for_each.simps
    by (intro triple_sq [OF local_delete_one_post [OF assms]] triple_sq) (auto intro: triples)
qed


lemma sample_delete: "fst (local_delete sample_local ''g0'' sample_world) = Inr ()"
  by code_simp



end
