(* ===== verification/Process.thy ===== *)
theory Process
  imports Filesystem_Laws
begin

text \<open>
  External programs (mariabackup, the database client, ssh, rsync, hook commands). What a
  program does is a parameter \<open>exec\<close> of every definition that starts one: from its argument
  vector, its standard input, the time it is given (if limited) and the state of the host (the state \<open>'e\<close> outside, the file
  tree, the modification times) to an outcome and the state after it. \<open>run_process\<close> is
  \<open>subprocess.run(argv, capture_output=True, text=True)\<close> on top of it, with the checks
  Python itself makes on the argument vector.
\<close>

type_synonym 'e host = "'e \<times> ftree \<times> (path \<Rightarrow> int)"

datatype outcome =
    Finished int string string
  | NotStarted string
  | TimedOut string
  | Undecodable string

type_synonym 'e exec = "string list \<Rightarrow> string option \<Rightarrow> int option \<Rightarrow> 'e host \<Rightarrow> outcome \<times> 'e host"

record completed_process =
  returncode :: int
  stdout :: string
  stderr :: string

definition set_host :: "'e host \<Rightarrow> 'e world \<Rightarrow> 'e world" where
  "set_host h w = (case h of (e, fs, mt) \<Rightarrow> w\<lparr>w_ext := e, w_fs := fs, w_mtime := mt\<rparr>)"

definition get_host :: "'e world \<Rightarrow> 'e host" where
  "get_host w = (w_ext w, w_fs w, w_mtime w)"

text \<open>
  Before anything is started: an empty vector has no program, every argument must be a
  string, none may hold a NUL.
\<close>

definition argv_error :: "pyval list \<Rightarrow> exn option" where
  "argv_error argv =
     (if argv = [] then Some (IndexError ''list index out of range'')
      else if \<not> list_all is_str argv then Some (TypeError ''expected str, bytes or os.PathLike object'')
      else if list_ex (\<lambda>a. char_of (0 :: nat) \<in> set (as_str a)) argv then Some (ValueError ''embedded null byte'')
      else None)"

definition run_process :: "'e exec \<Rightarrow> pyval list \<Rightarrow> string option \<Rightarrow> int option \<Rightarrow> ('e, completed_process) io" where
  "run_process exec argv stdin timeout =
     (case argv_error argv of
        Some e \<Rightarrow> raise e
      | None \<Rightarrow> sys (\<lambda>w. case exec (map as_str argv) stdin timeout (get_host w) of (r, h) \<Rightarrow>
          ((case r of
              Finished code out err \<Rightarrow> Inr \<lparr>returncode = code, stdout = out, stderr = err\<rparr>
            | NotStarted msg \<Rightarrow> Inl (OSError msg)
            | TimedOut msg \<Rightarrow> Inl (SubprocessError msg)
            | Undecodable msg \<Rightarrow> Inl (UnicodeDecodeError msg)), set_host h w)))"

text \<open>\<open>except (OSError, subprocess.SubprocessError)\<close>\<close>

definition is_process_error :: "exn \<Rightarrow> bool" where
  "is_process_error e \<longleftrightarrow> (case e of OSError _ \<Rightarrow> True | SubprocessError _ \<Rightarrow> True | _ \<Rightarrow> False)"

lemma set_host_sel [simp]:
  "w_fs (set_host h w) = fst (snd h)" "w_ext (set_host h w) = fst h" "w_fault (set_host h w) = w_fault w"
  "w_log (set_host h w) = w_log w" "w_held (set_host h w) = w_held w"
  by (simp_all add: set_host_def split: prod.split)

lemma get_host_sel [simp]: "fst (get_host w) = w_ext w" "fst (snd (get_host w)) = w_fs w"
  by (simp_all add: get_host_def)

text \<open>A program that keeps a predicate of the tree.\<close>

definition exec_keeps :: "'e exec \<Rightarrow> (ftree \<Rightarrow> bool) \<Rightarrow> bool" where
  "exec_keeps exec I \<longleftrightarrow> (\<forall>argv stdin timeout h. I (fst (snd h)) \<longrightarrow> I (fst (snd (snd (exec argv stdin timeout h)))))"

lemma keeps_run_process [frames]:
  assumes "exec_keeps exec I"
  shows "fs_keeps I (run_process exec argv stdin timeout)"
proof (cases "argv_error argv")
  case None
  have "fs_keeps I (sys (\<lambda>w. case exec (map as_str argv) stdin timeout (get_host w) of (r, h) \<Rightarrow>
      ((case r of Finished code out err \<Rightarrow> Inr \<lparr>returncode = code, stdout = out, stderr = err\<rparr>
            | NotStarted msg \<Rightarrow> Inl (OSError msg) | TimedOut msg \<Rightarrow> Inl (SubprocessError msg)
            | Undecodable msg \<Rightarrow> Inl (UnicodeDecodeError msg)), set_host h w)))"
  proof (rule keeps_sys)
    fix w :: "'a world" assume "I (w_fs w)"
    then have "I (fst (snd (snd (exec (map as_str argv) stdin timeout (get_host w)))))"
      using assms unfolding exec_keeps_def by (metis get_host_sel(2))
    then show "I (w_fs (snd (case exec (map as_str argv) stdin timeout (get_host w) of (r, h) \<Rightarrow>
      ((case r of Finished code out err \<Rightarrow> Inr \<lparr>returncode = code, stdout = out, stderr = err\<rparr>
            | NotStarted msg \<Rightarrow> Inl (OSError msg) | TimedOut msg \<Rightarrow> Inl (SubprocessError msg)
            | Undecodable msg \<Rightarrow> Inl (UnicodeDecodeError msg)), set_host h w))))"
      by (simp add: split_beta)
  qed
  with None show ?thesis by (simp add: run_process_def)
qed (simp add: run_process_def keeps_raise)

end
