(* ===== verification/Ssh_Destination.thy ===== *)
theory Ssh_Destination
  imports Process Local_Destination Config
begin

text \<open>
  \<open>destinations/ssh.py\<close>: a destination on another host, driven by \<open>ssh\<close> and \<open>rsync\<close>
  command lines. The command lines and the parsing of the listing are translated in full;
  what the remote shell does with them is the parameter \<open>exec\<close>.
\<close>

definition ssh_command_timeout_seconds :: int where
  "ssh_command_timeout_seconds = 30"

subsection \<open>Command lines\<close>

definition build_ssh_argv :: "pyval \<Rightarrow> pyval \<Rightarrow> pyval list \<Rightarrow> pyval list" where
  "build_ssh_argv ssh_key port ssh_options =
     [PStr ''ssh'', PStr ''-i'', ssh_key, PStr ''-p'', PStr (py_str port), PStr ''-o'', PStr ''BatchMode=yes'']
     @ ssh_options"

text \<open>\<open>" ".join(ssh_argv)\<close>\<close>

definition join_argv :: "pyval list \<Rightarrow> exn + string" where
  "join_argv argv =
     (if list_all is_str argv then Inr (py_join '' '' (map as_str argv))
      else Inl (TypeError ''sequence item: expected str instance''))"

definition build_rsync_argv ::
  "pyval \<Rightarrow> pyval list \<Rightarrow> path \<Rightarrow> string \<Rightarrow> pyval \<Rightarrow> string list \<Rightarrow> exn + pyval list" where
  "build_rsync_argv rsync_path ssh_argv src dst bwlimit_kbps exclude =
     (case join_argv ssh_argv of
        Inl e \<Rightarrow> Inl e
      | Inr remote_shell \<Rightarrow> Inr (
          [rsync_path, PStr ''-a'', PStr ''--partial'', PStr ''--delete'']
          @ (if truthy bwlimit_kbps then [PStr (''--bwlimit='' @ py_str bwlimit_kbps)] else [])
          @ map (\<lambda>pattern. PStr (''--exclude='' @ pattern)) exclude
          @ [PStr ''-e'', PStr remote_shell, PStr (path_str src @ ''/''), PStr dst]))"

definition build_rsync_file_argv :: "pyval \<Rightarrow> pyval list \<Rightarrow> path \<Rightarrow> string \<Rightarrow> exn + pyval list" where
  "build_rsync_file_argv rsync_path ssh_argv src dst =
     (case join_argv ssh_argv of
        Inl e \<Rightarrow> Inl e
      | Inr remote_shell \<Rightarrow> Inr
          [rsync_path, PStr ''-a'', PStr ''-e'', PStr remote_shell, PStr (path_str src), PStr dst])"

subsection \<open>The listing\<close>

definition list_script :: "string \<Rightarrow> string" where
  "list_script remote_path =
     (let q = [CHR 0x22] in
      ''set -e; cd '' @ q @ remote_path @ q @ '' 2>/dev/null || exit 0; ''
      @ ''for entry in */; do ''
      @ ''name='' @ q @ ''${entry%/}'' @ q @ ''; ''
      @ ''mtime=$(stat -c %Y '' @ q @ ''$name'' @ q @ '' 2>/dev/null || echo 0); ''
      @ ''if [ -f '' @ q @ ''$name/'' @ meta_filename @ q @ '' ]; then echo '' @ q @ ''COMPLETE $name $mtime'' @ q @ ''; ''
      @ ''elif [ '' @ q @ ''${name%'' @ partial_suffix @ ''}'' @ q @ '' != '' @ q @ ''$name'' @ q @ '' ]; then ''
      @ ''echo '' @ q @ ''PARTIAL ${name%'' @ partial_suffix @ ''} $mtime'' @ q @ ''; ''
      @ ''fi; ''
      @ ''done'')"

text \<open>One line of the listing; \<open>int\<close> and \<open>fromtimestamp\<close> can raise.\<close>

definition parse_list_line :: "string \<Rightarrow> exn + stored_backup list" where
  "parse_list_line line =
     (case py_split (CHR '' '') line of
        [status, backup_id, mtime] \<Rightarrow>
          (case py_int mtime of
             None \<Rightarrow> Inl (ValueError ''invalid literal for int() with base 10'')
           | Some n \<Rightarrow> (case fromtimestamp n of
                 Inl e \<Rightarrow> Inl e
               | Inr stored_at \<Rightarrow> Inr [\<lparr>sb_id = backup_id, sb_complete = (status = ''COMPLETE''),
                     sb_stored_at = stored_at\<rparr>]))
      | _ \<Rightarrow> Inr [])"

fun parse_list_lines :: "string list \<Rightarrow> exn + stored_backup list" where
  "parse_list_lines [] = Inr []"
| "parse_list_lines (line # lines) =
     (case parse_list_line line of
        Inl e \<Rightarrow> Inl e
      | Inr b \<Rightarrow> (case parse_list_lines lines of Inl e \<Rightarrow> Inl e | Inr bs \<Rightarrow> Inr (b @ bs)))"

definition parse_list_output :: "string \<Rightarrow> exn + stored_backup list" where
  "parse_list_output out = parse_list_lines (py_splitlines out)"

subsection \<open>The destination\<close>

record ssh_destination =
  sd_name :: string
  sd_host :: pyval
  sd_port :: pyval
  sd_user :: pyval
  sd_remote_path :: string
  sd_ssh_key :: pyval
  sd_ssh_options :: "pyval list"
  sd_bwlimit_kbps :: pyval
  sd_rsync_path :: pyval
  sd_retries :: int
  sd_keep :: int

definition ssh_argv :: "ssh_destination \<Rightarrow> pyval list" where
  "ssh_argv d = build_ssh_argv (sd_ssh_key d) (sd_port d) (sd_ssh_options d)"

definition user_host :: "ssh_destination \<Rightarrow> string" where
  "user_host d = py_str (sd_user d) @ ''@'' @ py_str (sd_host d)"

definition ssh_error :: "ssh_destination \<Rightarrow> string \<Rightarrow> exn" where
  "ssh_error d msg = DestinationError (''destination '' @ quoted (sd_name d) @ '': '' @ msg)"

definition dq :: "string \<Rightarrow> string" where
  "dq s = [CHR 0x22] @ s @ [CHR 0x22]"

definition ssh_process :: "'e exec \<Rightarrow> ssh_destination \<Rightarrow> string \<Rightarrow> ('e, completed_process) io" where
  "ssh_process exec d command =
     except (run_process exec (ssh_argv d @ [PStr (user_host d), PStr command]) None (Some ssh_command_timeout_seconds)) is_process_error
       (\<lambda>e. raise (ssh_error d (''ssh command failed: '' @ exn_msg e)))"

definition remote_run :: "'e exec \<Rightarrow> ssh_destination \<Rightarrow> string \<Rightarrow> ('e, completed_process) io" where
  "remote_run exec d command =
     bnd (ssh_process exec d command) (\<lambda>proc.
       if returncode proc \<noteq> 0
       then raise (ssh_error d (''remote command failed (returncode='' @ str_int (returncode proc) @ ''): ''
              @ py_strip (stderr proc)))
       else ret proc)"

definition remote_file_exists :: "'e exec \<Rightarrow> ssh_destination \<Rightarrow> string \<Rightarrow> ('e, bool) io" where
  "remote_file_exists exec d path =
     bnd (ssh_process exec d (''test -f '' @ dq path)) (\<lambda>proc. ret (returncode proc = 0))"

text \<open>
  \<open>_run_with_retries\<close>: \<open>retries + 1\<close> attempts; the error of the last failed one is
  reported.
\<close>

definition rsync_attempt :: "'e exec \<Rightarrow> pyval list \<Rightarrow> ('e, string option) io" where
  "rsync_attempt exec argv = except_else (run_process exec argv None None) is_process_error
     (\<lambda>e. ret (Some (exn_msg e)))
     (\<lambda>proc. if returncode proc = 0 then ret None
        else ret (Some (if py_strip (stderr proc) \<noteq> [] then py_strip (stderr proc)
                        else ''rsync exited '' @ str_int (returncode proc))))"

fun rsync_attempts :: "'e exec \<Rightarrow> ssh_destination \<Rightarrow> pyval list \<Rightarrow> nat \<Rightarrow> string \<Rightarrow> ('e, unit) io" where
  "rsync_attempts exec d argv 0 last_error = raise (ssh_error d (''rsync failed after retries: '' @ last_error))"
| "rsync_attempts exec d argv (Suc n) last_error =
     bnd (rsync_attempt exec argv) (\<lambda>r. case r of None \<Rightarrow> ret () | Some msg \<Rightarrow> rsync_attempts exec d argv n msg)"

definition run_with_retries :: "'e exec \<Rightarrow> ssh_destination \<Rightarrow> pyval list \<Rightarrow> ('e, unit) io" where
  "run_with_retries exec d argv = rsync_attempts exec d argv (nat (sd_retries d + 1)) ''unknown error''"

definition rsync_directory :: "'e exec \<Rightarrow> ssh_destination \<Rightarrow> path \<Rightarrow> string \<Rightarrow> string list \<Rightarrow> ('e, unit) io" where
  "rsync_directory exec d src remote_dir exclude =
     bnd (lift (build_rsync_argv (sd_rsync_path d) (ssh_argv d) src (user_host d @ '':'' @ remote_dir)
             (sd_bwlimit_kbps d) exclude))
         (run_with_retries exec d)"

definition rsync_meta_file :: "'e exec \<Rightarrow> ssh_destination \<Rightarrow> path \<Rightarrow> string \<Rightarrow> ('e, unit) io" where
  "rsync_meta_file exec d src_file remote_file =
     bnd (lift (build_rsync_file_argv (sd_rsync_path d) (ssh_argv d) src_file (user_host d @ '':'' @ remote_file)))
         (run_with_retries exec d)"

definition ssh_store :: "'e exec \<Rightarrow> ssh_destination \<Rightarrow> path \<Rightarrow> string \<Rightarrow> ('e, unit) io" where
  "ssh_store exec d local_dir backup_id =
     (let final_remote = sd_remote_path d @ ''/'' @ backup_id;
          partial_remote = sd_remote_path d @ ''/'' @ backup_id @ partial_suffix;
          meta_src = path_join local_dir meta_filename
      in bnd (remote_file_exists exec d (final_remote @ ''/'' @ meta_filename)) (\<lambda>complete.
         if complete then ret ()
         else sq (remote_run exec d (''mkdir -p '' @ dq (sd_remote_path d)))
             (sq (rsync_directory exec d local_dir partial_remote [meta_filename])
             (sq (bnd (path_is_file meta_src) (\<lambda>m. do_when m
                    (rsync_meta_file exec d meta_src (partial_remote @ ''/'' @ meta_filename))))
             (sq (remote_run exec d (''mv '' @ dq partial_remote @ '' '' @ dq final_remote))
                 (ret ()))))))"

definition ssh_list_backups :: "'e exec \<Rightarrow> ssh_destination \<Rightarrow> ('e, stored_backup list) io" where
  "ssh_list_backups exec d =
     bnd (remote_run exec d (list_script (sd_remote_path d))) (\<lambda>proc. lift (parse_list_output (stdout proc)))"

definition ssh_delete :: "'e exec \<Rightarrow> ssh_destination \<Rightarrow> string \<Rightarrow> ('e, unit) io" where
  "ssh_delete exec d backup_id =
     sq (remote_run exec d (''rm -rf '' @ dq (sd_remote_path d @ ''/'' @ backup_id) @ '' ''
           @ dq (sd_remote_path d @ ''/'' @ backup_id @ partial_suffix)))
        (ret ())"

definition ssh_check :: "'e exec \<Rightarrow> ssh_destination \<Rightarrow> ('e, unit) io" where
  "ssh_check exec d =
     (let probe = sd_remote_path d @ ''/'' @ check_probe_filename in
      sq (remote_run exec d (''mkdir -p '' @ dq (sd_remote_path d) @ '' && touch '' @ dq probe
            @ '' && rm -f '' @ dq probe))
         (ret ()))"

end
