(* ===== verification/Backup_Runner.thy ===== *)
theory Backup_Runner
  imports Ssh_Destination
begin

text \<open>
  \<open>backup.py\<close>: the mariabackup command lines, and running one phase: the command's
  standard error goes to the log file of the generation, and the phase has succeeded only
  when the command returned 0 and its output has the success marker.
\<close>

definition log_filename :: string where
  "log_filename = ''mariabackup.log''"

definition success_marker :: string where
  "success_marker = ''completed OK!''"

definition tail_log_lines :: nat where
  "tail_log_lines = 20"

definition version_timeout_seconds :: int where
  "version_timeout_seconds = 10"

text \<open>\<open>pat in s\<close>\<close>

fun contains :: "string \<Rightarrow> string \<Rightarrow> bool" where
  "contains pat [] = (pat = [])"
| "contains pat (c # cs) = (starts_with pat (c # cs) \<or> contains pat cs)"

subsection \<open>Command lines\<close>

definition defaults_args :: "backup_config \<Rightarrow> pyval list" where
  "defaults_args c =
     (if truthy (b_defaults_file c) then [PStr (''--defaults-file='' @ py_str (b_defaults_file c))] else [])
     @ (if truthy (b_defaults_extra_file c)
        then [PStr (''--defaults-extra-file='' @ py_str (b_defaults_extra_file c))] else [])"

definition backup_argv :: "backup_config \<Rightarrow> replication_config \<Rightarrow> path \<Rightarrow> pyval list" where
  "backup_argv c r target_dir =
     [b_mariabackup_path c] @ defaults_args c
     @ [PStr ''--backup'', PStr (''--target-dir='' @ path_str target_dir)]
     @ (if r_mode r \<noteq> ''off'' \<and> r_safe_slave_backup r then [PStr ''--safe-slave-backup''] else [])
     @ map PStr (b_extra_args c)"

definition prepare_argv :: "backup_config \<Rightarrow> path \<Rightarrow> pyval list" where
  "prepare_argv c target_dir =
     [b_mariabackup_path c]
     @ (if truthy (b_defaults_file c) then [PStr (''--defaults-file='' @ py_str (b_defaults_file c))] else [])
     @ [PStr ''--prepare'', PStr (''--target-dir='' @ path_str target_dir)]"

subsection \<open>Running a phase\<close>

text \<open>\<open>with open(p, "a") as f: f.write(s)\<close>\<close>

definition open_append :: "path \<Rightarrow> ('e, string) io" where
  "open_append p = sys (\<lambda>w. case lookup_tree (w_fs w) p of
       Some (FFile s) \<Rightarrow> (Inr s, w)
     | Some (FDir _) \<Rightarrow> (Inl is_a_directory, w)
     | None \<Rightarrow> if is_dir_at (w_fs w) (butlast p) then (Inr [], set_at p (Some (FFile [])) w)
              else (Inl no_such_file, w))"

definition append_data :: "path \<Rightarrow> string \<Rightarrow> string \<Rightarrow> ('e, unit) io" where
  "append_data p old s = sys_torn (\<lambda>w. (Inr (), set_contents p (old @ s) w)) (\<lambda>n w. set_contents p (old @ take n s) w)"

definition append_text :: "path \<Rightarrow> string \<Rightarrow> ('e, unit) io" where
  "append_text p s = bnd (open_append p) (\<lambda>old. append_data p old s)"

text \<open>
  \<open>Popen\<close> and \<open>communicate\<close>: whether the time ran out, the return code and the standard
  error. A command whose time ran out is terminated, then killed; its code is not used.
\<close>

definition run_command :: "'e exec \<Rightarrow> pyval list \<Rightarrow> int option \<Rightarrow> string \<Rightarrow> ('e, bool \<times> int \<times> string) io" where
  "run_command exec argv timeout phase =
     (case argv_error argv of
        Some e \<Rightarrow> raise e
      | None \<Rightarrow> except (sys (\<lambda>w. case exec (map as_str argv) None timeout (get_host w) of (r, h) \<Rightarrow>
          ((case r of
              Finished code out err \<Rightarrow> Inr (False, code, err)
            | NotStarted msg \<Rightarrow> Inl (OSError msg)
            | TimedOut err \<Rightarrow> Inr (True, 0, err)
            | Undecodable msg \<Rightarrow> Inl (UnicodeDecodeError msg)), set_host h w)))
          is_os_error
          (\<lambda>e. raise (BackupError (''failed to launch mariabackup for '' @ phase @ '': '' @ exn_msg e))))"

definition last_lines :: "nat \<Rightarrow> 'a list \<Rightarrow> 'a list" where
  "last_lines n xs = drop (length xs - n) xs"

definition execute_phase :: "'e exec \<Rightarrow> backup_config \<Rightarrow> pyval list \<Rightarrow> path \<Rightarrow> string \<Rightarrow> ('e, unit) io" where
  "execute_phase exec c argv log_path phase =
     bnd (lift (join_argv argv)) (\<lambda>line.
     sq (log_msg ''info'' (''running mariabackup '' @ phase @ '': '' @ line))
     (bnd (run_command exec argv (if b_timeout_seconds c = 0 then None else Some (b_timeout_seconds c)) phase)
        (\<lambda>(timed_out, code, err).
      sq (append_text log_path (''--- mariabackup '' @ phase @ '' ---'' @ [CHR 0x0A] @ err @ [CHR 0x0A]))
      (sq (for_each (last_lines tail_log_lines (py_splitlines err))
             (\<lambda>l. log_msg ''debug'' (''mariabackup '' @ phase @ '': '' @ l)))
      (if timed_out then raise (BackupError (''mariabackup '' @ phase @ '' timed out after ''
            @ str_int (b_timeout_seconds c) @ ''s and was killed; see '' @ path_str log_path))
       else if code \<noteq> 0 \<or> \<not> contains success_marker err
       then raise (BackupError (''mariabackup '' @ phase @ '' failed (returncode='' @ str_int code @ ''); see ''
            @ path_str log_path))
       else ret ())))))"

definition run_backup :: "'e exec \<Rightarrow> backup_config \<Rightarrow> replication_config \<Rightarrow> path \<Rightarrow> ('e, unit) io" where
  "run_backup exec c r target_dir =
     execute_phase exec c (backup_argv c r target_dir) (path_join target_dir log_filename) ''backup''"

definition run_prepare :: "'e exec \<Rightarrow> backup_config \<Rightarrow> path \<Rightarrow> ('e, unit) io" where
  "run_prepare exec c target_dir =
     execute_phase exec c (prepare_argv c target_dir) (path_join target_dir log_filename) ''prepare''"

definition get_version :: "'e exec \<Rightarrow> backup_config \<Rightarrow> ('e, string) io" where
  "get_version exec c =
     except_else (run_process exec [b_mariabackup_path c, PStr ''--version''] None (Some version_timeout_seconds))
       is_process_error
       (\<lambda>e. ret (''unknown ('' @ exn_msg e @ '')''))
       (\<lambda>proc. ret (if py_strip (stdout proc) \<noteq> [] then py_strip (stdout proc) else py_strip (stderr proc)))"

end
