(* ===== verification/Replication.thy ===== *)
theory Replication
  imports Backup_Runner
begin

text \<open>
  \<open>replication.py\<close>: asking the database client for the replica status and enforcing the
  two configured requirements.
\<close>

definition client_timeout_seconds :: int where
  "client_timeout_seconds = 10"

record replication_state =
  rs_is_replica :: bool
  rs_lag_seconds :: "int option"
  rs_server_version :: string

definition run_client :: "'e exec \<Rightarrow> backup_config \<Rightarrow> replication_config \<Rightarrow> string \<Rightarrow> ('e, string) io" where
  "run_client exec b r sql =
     (let argv = [r_client_path r] @ defaults_args b @ [PStr ''-e'', PStr sql]
      in bnd (except (run_process exec argv None (Some client_timeout_seconds)) is_process_error
                (\<lambda>e. raise (PreconditionError (''failed to run '' @ py_str (r_client_path r) @ '': '' @ exn_msg e))))
         (\<lambda>proc. if returncode proc \<noteq> 0
           then raise (PreconditionError (py_str (r_client_path r) @ '' failed (returncode=''
                  @ str_int (returncode proc) @ ''): '' @ py_strip (stderr proc)))
           else ret (stdout proc)))"

text \<open>\<open>line.partition(":")\<close> of a line with a colon.\<close>

fun partition_colon :: "string \<Rightarrow> (string \<times> string) option" where
  "partition_colon [] = None"
| "partition_colon (c # cs) =
     (if c = CHR '':'' then Some ([], cs)
      else case partition_colon cs of None \<Rightarrow> None | Some (k, v) \<Rightarrow> Some (c # k, v))"

text \<open>The dictionary of the status block: a later line with the same key wins.\<close>

definition parse_status_line :: "string \<Rightarrow> (string \<times> string) list" where
  "parse_status_line line =
     (case partition_colon (py_strip line) of None \<Rightarrow> [] | Some (k, v) \<Rightarrow> [(py_strip k, py_strip v)])"

definition parse_status_block :: "string \<Rightarrow> (string \<times> string) list" where
  "parse_status_block output = rev (concat (map parse_status_line (py_splitlines output)))"

definition query_server_version :: "'e exec \<Rightarrow> backup_config \<Rightarrow> replication_config \<Rightarrow> ('e, string) io" where
  "query_server_version exec b r =
     except_else (run_client exec b r ''SELECT VERSION()'') is_precondition_error (\<lambda>_. ret [])
       (\<lambda>output. let lines = filter (\<lambda>l. l \<noteq> []) (map py_strip (py_splitlines output))
         in ret (if lines = [] then [] else last lines))"

text \<open>\<open>int(raw_lag)\<close> if \<open>raw_lag.isdigit()\<close>\<close>

definition lag_of :: "(string \<times> string) list \<Rightarrow> exn + int option" where
  "lag_of status =
     (let raw_lag = (case map_of status ''Seconds_Behind_Master'' of None \<Rightarrow> [] | Some v \<Rightarrow> v) in
      if py_isdigit raw_lag
      then (case py_int raw_lag of
              None \<Rightarrow> Inl (ValueError ''invalid literal for int() with base 10'')
            | Some n \<Rightarrow> Inr (Some n))
      else Inr None)"

text \<open>The requirement on the lag.\<close>

definition lag_requirement :: "int \<Rightarrow> int option \<Rightarrow> exn + unit" where
  "lag_requirement max_lag lag =
     (case lag of
        None \<Rightarrow> Inl (PreconditionError (''replication.max_lag_seconds is set but Seconds_Behind_Master is NULL ''
                  @ ''(replication is stopped or lag is unknown)''))
      | Some l \<Rightarrow> if l > max_lag
          then Inl (PreconditionError (''replication lag '' @ str_int l @ ''s exceeds max_lag_seconds='' @ str_int max_lag))
          else Inr ())"

definition check_replication :: "'e exec \<Rightarrow> backup_config \<Rightarrow> replication_config \<Rightarrow> ('e, replication_state) io" where
  "check_replication exec b r =
     bnd (run_client exec b r (''SHOW REPLICA STATUS'' @ [CHR 0x5C, CHR ''G''])) (\<lambda>output.
     let status = parse_status_block output; is_replica = (status \<noteq> [])
     in if r_mode r = ''require_replica'' \<and> \<not> is_replica
        then raise (PreconditionError (''replication.mode=require_replica but SHOW REPLICA STATUS returned no rows ''
               @ ''(this node is not configured as a replica)''))
        else bnd (if is_replica then lift (lag_of status) else ret None) (\<lambda>lag.
             sq (if is_replica \<and> r_max_lag_seconds r > 0 then lift (lag_requirement (r_max_lag_seconds r) lag) else ret ())
             (bnd (query_server_version exec b r) (\<lambda>version.
              ret \<lparr>rs_is_replica = is_replica, rs_lag_seconds = lag, rs_server_version = version\<rparr>))))"

end
