(* ===== verification/Hooks.thy ===== *)
theory Hooks
  imports Replication
begin

text \<open>
  \<open>hooks.py\<close>: splitting a hook command the way \<open>shlex.split\<close> does (POSIX mode), running
  it, and what its failure does.
\<close>

definition hook_timeout_seconds :: int where
  "hook_timeout_seconds = 60"

subsection \<open>shlex.split\<close>

datatype sh_state = Between | InWord | InQuote char | EscWord | EscQuote char

definition sh_space :: "char \<Rightarrow> bool" where
  "sh_space c \<longleftrightarrow> code_pt c \<in> {9, 10, 13, 32}"

definition sh_quote :: "char \<Rightarrow> bool" where
  "sh_quote c \<longleftrightarrow> code_pt c \<in> {0x22, 0x27}"

definition backslash :: char where
  "backslash = CHR 0x5C"

definition emit :: "string \<Rightarrow> bool \<Rightarrow> string list \<Rightarrow> string list" where
  "emit token quot acc = (if token \<noteq> [] \<or> quot then acc @ [token] else acc)"

fun sh_split :: "sh_state \<Rightarrow> string \<Rightarrow> bool \<Rightarrow> string list \<Rightarrow> string \<Rightarrow> exn + string list" where
  "sh_split st token quot acc [] = (case st of
       Between \<Rightarrow> Inr acc
     | InWord \<Rightarrow> Inr (emit token quot acc)
     | InQuote _ \<Rightarrow> Inl (ValueError ''No closing quotation'')
     | EscWord \<Rightarrow> Inl (ValueError ''No escaped character'')
     | EscQuote _ \<Rightarrow> Inl (ValueError ''No escaped character''))"
| "sh_split st token quot acc (c # cs) = (case st of
       Between \<Rightarrow>
         if sh_space c then sh_split Between token quot acc cs
         else if c = backslash then sh_split EscWord token quot acc cs
         else if sh_quote c then sh_split (InQuote c) token True acc cs
         else sh_split InWord [c] quot acc cs
     | InWord \<Rightarrow>
         if sh_space c then sh_split Between [] False (emit token quot acc) cs
         else if sh_quote c then sh_split (InQuote c) token True acc cs
         else if c = backslash then sh_split EscWord token quot acc cs
         else sh_split InWord (token @ [c]) quot acc cs
     | InQuote q \<Rightarrow>
         if c = q then sh_split InWord token True acc cs
         else if c = backslash \<and> q = CHR 0x22 then sh_split (EscQuote q) token True acc cs
         else sh_split (InQuote q) (token @ [c]) True acc cs
     | EscWord \<Rightarrow> sh_split InWord (token @ [c]) quot acc cs
     | EscQuote q \<Rightarrow>
         sh_split (InQuote q) (if c \<noteq> backslash \<and> c \<noteq> q then token @ [backslash, c] else token @ [c]) quot acc cs)"

definition shlex_split :: "string \<Rightarrow> exn + string list" where
  "shlex_split s = sh_split Between [] False [] s"

subsection \<open>Running a hook\<close>

definition handle_failure :: "string \<Rightarrow> bool \<Rightarrow> ('e, unit) io" where
  "handle_failure message fail_fast =
     sq (log_msg ''error'' message) (do_when fail_fast (raise (PreconditionError message)))"

definition run_hook :: "'e exec \<Rightarrow> string \<Rightarrow> string option \<Rightarrow> bool \<Rightarrow> ('e, unit) io" where
  "run_hook exec command stdin_data fail_fast =
     (if command = [] then ret ()
      else case shlex_split command of
        Inl e \<Rightarrow> handle_failure (''hook command could not be parsed: '' @ repr_str command @ '': '' @ exn_msg e) fail_fast
      | Inr argv \<Rightarrow>
          except_else (run_process exec (map PStr argv) stdin_data (Some hook_timeout_seconds)) is_process_error
            (\<lambda>e. handle_failure (''hook '' @ quoted command @ '' failed to execute: '' @ exn_msg e) fail_fast)
            (\<lambda>proc. if returncode proc \<noteq> 0
               then handle_failure (''hook '' @ quoted command @ '' exited with code '' @ str_int (returncode proc)
                      @ '': '' @ py_strip (stderr proc)) fail_fast
               else log_msg ''debug'' (''hook '' @ quoted command @ '' completed'')))"

end
