(* ===== verification/Locking.thy ===== *)
theory Locking
  imports Filesystem_Laws
begin

text \<open>
  \<open>locking.py\<close>: the single-instance lock. The table of held locks says which process
  holds which lock file; a second \<open>flock\<close> on a held file fails at once, and releasing
  takes away the caller's own entry only.
\<close>

type_synonym lock_table = "(path \<times> nat) list"

definition try_lock :: "path \<Rightarrow> nat \<Rightarrow> lock_table \<Rightarrow> lock_table option" where
  "try_lock p pid held = (if p \<in> fst ` set held then None else Some ((p, pid) # held))"

definition release_lock :: "path \<Rightarrow> nat \<Rightarrow> lock_table \<Rightarrow> lock_table" where
  "release_lock p pid held = filter (\<lambda>h. h \<noteq> (p, pid)) held"

definition flock_ex :: "path \<Rightarrow> ('e, unit) io" where
  "flock_ex p = sys (\<lambda>w. case try_lock p (w_pid w) (w_held w) of
       None \<Rightarrow> (Inl (OSError ''Resource temporarily unavailable''), w)
     | Some held \<Rightarrow> (Inr (), w\<lparr>w_held := held\<rparr>))"

definition flock_un :: "path \<Rightarrow> ('e, unit) io" where
  "flock_un p = sys (\<lambda>w. (Inr (), w\<lparr>w_held := release_lock p (w_pid w) (w_held w)\<rparr>))"

text \<open>\<open>fd.close()\<close>, reached when the explicit release has not failed; closing releases too.\<close>

definition close_lock :: "path \<Rightarrow> ('e, unit) io" where
  "close_lock p w = (Inr (), w\<lparr>w_held := release_lock p (w_pid w) (w_held w)\<rparr>)"

definition lock_error :: "path \<Rightarrow> exn" where
  "lock_error p = LockError (''Another mbkeeper run holds the lock: '' @ path_str p)"

text \<open>\<open>with acquire_lock(lock_path): body\<close>\<close>

definition with_lock :: "path \<Rightarrow> ('e, 'a) io \<Rightarrow> ('e, 'a) io" where
  "with_lock lock_path body =
     sq (mkdir_p (path_parent lock_path))
     (sq (open_write lock_path)
     (finally_do
        (sq (except (flock_ex lock_path) is_os_error (\<lambda>_. raise (lock_error lock_path))) body)
        (sq (flock_un lock_path) (close_lock lock_path))))"

end
