(* ===== verification/Destinations.thy ===== *)
theory Destinations
  imports Ssh_Destination Config
begin

text \<open>
  \<open>destinations/__init__.py\<close> and the class part of \<open>destinations/base.py\<close>: the registry
  of destination types, the construction of a destination from its configuration, and the
  four operations, dispatched on the class.
\<close>

datatype destination = Local local_destination | Ssh ssh_destination

definition local_from_config :: "destination_config \<Rightarrow> transfer_config \<Rightarrow> local_destination" where
  "local_from_config c t = \<lparr>ld_name = d_name c, ld_path = path_of (d_path c), ld_keep = d_keep c\<rparr>"

definition ssh_from_config :: "destination_config \<Rightarrow> transfer_config \<Rightarrow> ssh_destination" where
  "ssh_from_config c t = \<lparr>sd_name = d_name c, sd_host = d_host c, sd_port = d_port c, sd_user = d_user c,
     sd_remote_path = d_path c, sd_ssh_key = d_ssh_key c, sd_ssh_options = d_ssh_options c,
     sd_bwlimit_kbps = d_bwlimit_kbps c, sd_rsync_path = t_rsync_path t, sd_retries = t_retries t,
     sd_keep = d_keep c\<rparr>"

text \<open>The registry after both modules are imported: \<open>register\<close> stores a class under its name.\<close>

type_synonym destination_class = "destination_config \<Rightarrow> transfer_config \<Rightarrow> destination"

definition register :: "string \<Rightarrow> destination_class \<Rightarrow> (string \<times> destination_class) list \<Rightarrow> (string \<times> destination_class) list" where
  "register type_name cls types = (type_name, cls) # types"

definition destination_types :: "(string \<times> destination_class) list" where
  "destination_types =
     register ''ssh'' (\<lambda>c t. Ssh (ssh_from_config c t))
       (register ''local'' (\<lambda>c t. Local (local_from_config c t)) [])"

definition build_destination :: "destination_config \<Rightarrow> transfer_config \<Rightarrow> exn + destination" where
  "build_destination c t =
     (case map_of destination_types (d_type c) of
        None \<Rightarrow> Inl (ConfigError (''unknown destination type '' @ quoted (d_type c)))
      | Some cls \<Rightarrow> Inr (cls c t))"

fun dest_store :: "'e exec \<Rightarrow> destination \<Rightarrow> path \<Rightarrow> string \<Rightarrow> ('e, unit) io" where
  "dest_store exec (Local d) local_dir backup_id = local_store d local_dir backup_id"
| "dest_store exec (Ssh d) local_dir backup_id = ssh_store exec d local_dir backup_id"

fun dest_list_backups :: "'e exec \<Rightarrow> destination \<Rightarrow> ('e, stored_backup list) io" where
  "dest_list_backups exec (Local d) = local_list_backups d"
| "dest_list_backups exec (Ssh d) = ssh_list_backups exec d"

fun dest_delete :: "'e exec \<Rightarrow> destination \<Rightarrow> string \<Rightarrow> ('e, unit) io" where
  "dest_delete exec (Local d) backup_id = local_delete d backup_id"
| "dest_delete exec (Ssh d) backup_id = ssh_delete exec d backup_id"

fun dest_check :: "'e exec \<Rightarrow> destination \<Rightarrow> ('e, unit) io" where
  "dest_check exec (Local d) = local_check d"
| "dest_check exec (Ssh d) = ssh_check exec d"

lemma build_destination_types:
  "build_destination c t =
     (if d_type c = ''local'' then Inr (Local (local_from_config c t))
      else if d_type c = ''ssh'' then Inr (Ssh (ssh_from_config c t))
      else Inl (ConfigError (''unknown destination type '' @ quoted (d_type c))))"
  by (simp add: build_destination_def destination_types_def register_def)

end
