(* ===== verification/Orchestrator.thy ===== *)
theory Orchestrator
  imports Destinations Hooks Locking Config
begin

text \<open>
  \<open>orchestrator.py\<close>: the \<open>run\<close> pipeline and the standalone \<open>purge\<close> and \<open>check\<close>, composed
  as the source composes them from the components before. External programs are the
  parameter \<open>exec\<close>, the host name the parameter \<open>hostname\<close>.
\<close>

definition package_version :: string where
  "package_version = ''0.1.0''"

definition tool_version :: string where
  "tool_version = ''mariabackup-keeper '' @ package_version"

record destination_outcome =
  do_name :: string
  do_stored :: bool
  do_error :: string

record run_summary =
  rn_backup_id :: string
  rn_exit_code :: exit_code
  rn_outcomes :: "destination_outcome list"
  rn_error :: string

record destination_purge_result =
  pr_name :: string
  pr_deleted :: "string list"
  pr_kept :: "string list"
  pr_error :: string

record purge_summary =
  ps_exit_code :: exit_code
  ps_results :: "destination_purge_result list"

record check_item =
  ck_name :: string
  ck_ok :: bool
  ck_detail :: string

record check_summary =
  cs_ok :: bool
  cs_items :: "check_item list"

subsection \<open>Purging\<close>

text \<open>The loop over the ids to delete, with the deletion of one id as a parameter.\<close>

fun purge_loop ::
  "(string \<Rightarrow> ('e, unit) io) \<Rightarrow> string \<Rightarrow> bool \<Rightarrow> string list \<Rightarrow> string list \<Rightarrow> bool \<Rightarrow> ('e, string list \<times> bool) io" where
  "purge_loop del name dry_run [] deleted had_error = ret (deleted, had_error)"
| "purge_loop del name dry_run (backup_id # ids) deleted had_error =
     (if dry_run then purge_loop del name dry_run ids (deleted @ [backup_id]) had_error
      else bnd (except
          (sq (del backup_id)
            (sq (log_msg ''info'' (''purged backup_id='' @ backup_id @ '' from destination='' @ name))
                (ret (deleted @ [backup_id], had_error))))
          is_destination_error
          (\<lambda>e. sq (log_msg ''error'' (''destination '' @ quoted name @ '': failed to delete '' @ backup_id @ '': '' @ exn_msg e))
                  (ret (deleted, True))))
        (\<lambda>(deleted', had_error'). purge_loop del name dry_run ids deleted' had_error'))"

definition purge_destination ::
  "('e, stored_backup list) io \<Rightarrow> (string \<Rightarrow> ('e, unit) io) \<Rightarrow> string \<Rightarrow> int \<Rightarrow> int \<Rightarrow> datetime \<Rightarrow> bool
     \<Rightarrow> string option \<Rightarrow> ('e, destination_purge_result \<times> bool) io" where
  "purge_destination list_backups del name keep grace_hours now dry_run in_progress_id =
     except_else list_backups is_destination_error
       (\<lambda>e. sq (log_msg ''error'' (''destination '' @ quoted name @ '': cannot list backups, skipping purge: '' @ exn_msg e))
               (ret (\<lparr>pr_name = name, pr_deleted = [], pr_kept = [], pr_error = exn_msg e\<rparr>, True)))
       (\<lambda>stored. bnd (lift (select_purge stored keep grace_hours now in_progress_id)) (\<lambda>plan.
          bnd (purge_loop del name dry_run (pp_delete plan) [] False) (\<lambda>(deleted, had_error).
            ret (\<lparr>pr_name = name, pr_deleted = deleted, pr_kept = pp_keep plan, pr_error = []\<rparr>, had_error))))"

definition purge_one_destination ::
  "'e exec \<Rightarrow> config \<Rightarrow> destination_config \<Rightarrow> datetime \<Rightarrow> bool \<Rightarrow> string option
     \<Rightarrow> ('e, destination_purge_result \<times> bool) io" where
  "purge_one_destination exec config dest_config now dry_run in_progress_id =
     bnd (lift (build_destination dest_config (c_transfer config))) (\<lambda>dest.
       purge_destination (dest_list_backups exec dest) (dest_delete exec dest) (d_name dest_config)
         (d_keep dest_config) (rt_incomplete_grace_hours (c_retention config)) now dry_run in_progress_id)"

fun purge_all ::
  "'e exec \<Rightarrow> config \<Rightarrow> destination_config list \<Rightarrow> string list option \<Rightarrow> datetime \<Rightarrow> bool
     \<Rightarrow> destination_purge_result list \<Rightarrow> bool \<Rightarrow> ('e, destination_purge_result list \<times> bool) io" where
  "purge_all exec config [] destination_names now dry_run results had_error = ret (results, had_error)"
| "purge_all exec config (dc # dcs) destination_names now dry_run results had_error =
     (if (case destination_names of None \<Rightarrow> False | Some names \<Rightarrow> d_name dc \<notin> set names)
      then purge_all exec config dcs destination_names now dry_run results had_error
      else bnd (purge_one_destination exec config dc now dry_run None) (\<lambda>(result, error).
        purge_all exec config dcs destination_names now dry_run (results @ [result]) (had_error \<or> error)))"

definition the_time :: "datetime option \<Rightarrow> ('e, datetime) io" where
  "the_time now = (case now of None \<Rightarrow> now_utc | Some t \<Rightarrow> ret t)"

definition purge_cmd ::
  "'e exec \<Rightarrow> config \<Rightarrow> string list option \<Rightarrow> bool \<Rightarrow> datetime option \<Rightarrow> ('e, purge_summary) io" where
  "purge_cmd exec config destination_names dry_run now0 =
     bnd (the_time now0) (\<lambda>now.
     with_lock (lk_file (c_lock config))
       (bnd (purge_all exec config (c_destinations config) destination_names now dry_run [] False)
         (\<lambda>(results, had_error). ret
            \<lparr>ps_exit_code = (if had_error then PURGE_FAILED else SUCCESS), ps_results = results\<rparr>)))"

subsection \<open>Checking\<close>

definition py_bool :: "bool \<Rightarrow> string" where
  "py_bool b = (if b then ''True'' else ''False'')"

definition check_replication_item :: "'e exec \<Rightarrow> config \<Rightarrow> ('e, check_item) io" where
  "check_replication_item exec config =
     except_else (check_replication exec (c_backup config) (c_replication config)) is_precondition_error
       (\<lambda>e. ret \<lparr>ck_name = ''replication'', ck_ok = False, ck_detail = exn_msg e\<rparr>)
       (\<lambda>state. ret \<lparr>ck_name = ''replication'', ck_ok = True, ck_detail =
          ''is_replica='' @ py_bool (rs_is_replica state) @ '' lag_seconds=''
          @ (case rs_lag_seconds state of None \<Rightarrow> ''None'' | Some l \<Rightarrow> str_int l)
          @ '' server_version='' @ rs_server_version state\<rparr>)"

fun check_destinations :: "'e exec \<Rightarrow> config \<Rightarrow> destination_config list \<Rightarrow> ('e, check_item list) io" where
  "check_destinations exec config [] = ret []"
| "check_destinations exec config (dc # dcs) =
     bnd (lift (build_destination dc (c_transfer config))) (\<lambda>dest.
     bnd (except_else (dest_check exec dest) is_destination_error
            (\<lambda>e. ret \<lparr>ck_name = ''destination:'' @ d_name dc, ck_ok = False, ck_detail = exn_msg e\<rparr>)
            (\<lambda>_. ret \<lparr>ck_name = ''destination:'' @ d_name dc, ck_ok = True, ck_detail = []\<rparr>)) (\<lambda>item.
     bnd (check_destinations exec config dcs) (\<lambda>items. ret (item # items))))"

definition check_cmd :: "'e exec \<Rightarrow> config \<Rightarrow> ('e, check_summary) io" where
  "check_cmd exec config =
     bnd (get_version exec (c_backup config)) (\<lambda>version.
     bnd (check_replication_item exec config) (\<lambda>replication.
     bnd (check_destinations exec config (c_destinations config)) (\<lambda>dests.
       let items = [\<lparr>ck_name = ''mariabackup'', ck_ok = \<not> starts_with ''unknown'' version, ck_detail = version\<rparr>,
                    replication] @ dests
       in ret \<lparr>cs_ok = list_all ck_ok items, cs_items = items\<rparr>)))"

subsection \<open>The steps of a run\<close>

definition check_replication_if_configured :: "'e exec \<Rightarrow> config \<Rightarrow> ('e, replication_state) io" where
  "check_replication_if_configured exec config =
     (if r_mode (c_replication config) = ''off'' \<and> r_max_lag_seconds (c_replication config) = 0
      then ret \<lparr>rs_is_replica = False, rs_lag_seconds = None, rs_server_version = []\<rparr>
      else check_replication exec (c_backup config) (c_replication config))"

definition outcome_json :: "destination_outcome \<Rightarrow> jval" where
  "outcome_json o' = JObj [(''name'', JStr (do_name o')), (''stored'', JBool (do_stored o')), (''error'', JStr (do_error o'))]"

definition summary_json :: "run_summary \<Rightarrow> jval" where
  "summary_json s = JObj [(''backup_id'', JStr (rn_backup_id s)), (''exit_code'', JInt (exit_int (rn_exit_code s))),
     (''destinations'', JList (map outcome_json (rn_outcomes s))), (''error'', JStr (rn_error s))]"

definition finish_run :: "'e exec \<Rightarrow> run_summary \<Rightarrow> config \<Rightarrow> ('e, run_summary) io" where
  "finish_run exec summary config =
     sq (run_hook exec (h_post_run (c_hooks config)) (Some (json_dumps (summary_json summary))) False)
        (ret summary)"

definition cleanup_entry :: "path \<Rightarrow> string \<Rightarrow> string \<Rightarrow> ('e, unit) io" where
  "cleanup_entry work_dir keep_id name =
     (let entry = work_dir @ [name] in
      bnd (path_is_dir entry) (\<lambda>isd.
        do_when (isd \<and> path_name entry \<noteq> keep_id)
          (sq (log_msg ''warning'' (''removing stale work_dir entry from a previous run: '' @ path_str entry))
              (rmtree_ignore entry))))"

definition cleanup_stale_work_dir :: "path \<Rightarrow> string \<Rightarrow> ('e, unit) io" where
  "cleanup_stale_work_dir work_dir keep_id =
     bnd (path_is_dir work_dir) (\<lambda>isd. do_when isd
       (bnd (list_dir work_dir) (\<lambda>names. for_each names (cleanup_entry work_dir keep_id))))"

fun store_to_destinations ::
  "'e exec \<Rightarrow> config \<Rightarrow> destination_config list \<Rightarrow> path \<Rightarrow> string \<Rightarrow> ('e, destination_outcome list) io" where
  "store_to_destinations exec config [] target_dir backup_id = ret []"
| "store_to_destinations exec config (dc # dcs) target_dir backup_id =
     bnd (lift (build_destination dc (c_transfer config))) (\<lambda>dest.
       except_else (dest_store exec dest target_dir backup_id) is_destination_error
         (\<lambda>e. sq (log_msg ''error'' (''failed to store backup_id='' @ backup_id @ '' to destination='' @ d_name dc
                   @ '': '' @ exn_msg e))
            (let o' = \<lparr>do_name = d_name dc, do_stored = False, do_error = exn_msg e\<rparr>
             in if t_on_destination_failure (c_transfer config) = ''abort'' then ret [o']
                else bnd (store_to_destinations exec config dcs target_dir backup_id) (\<lambda>os. ret (o' # os))))
         (\<lambda>_. sq (log_msg ''info'' (''stored backup_id='' @ backup_id @ '' to destination='' @ d_name dc))
            (bnd (store_to_destinations exec config dcs target_dir backup_id) (\<lambda>os.
               ret (\<lparr>do_name = d_name dc, do_stored = True, do_error = []\<rparr> # os)))))"

text \<open>\<open>destinations_by_name\<close>: a later configuration with the same name replaces an earlier one.\<close>

definition destination_by_name :: "config \<Rightarrow> string \<Rightarrow> destination_config option" where
  "destination_by_name config name = map_of (rev (map (\<lambda>d. (d_name d, d)) (c_destinations config))) name"

fun purge_stored_destinations ::
  "'e exec \<Rightarrow> config \<Rightarrow> destination_outcome list \<Rightarrow> string \<Rightarrow> datetime \<Rightarrow> bool \<Rightarrow> ('e, bool) io" where
  "purge_stored_destinations exec config [] backup_id now had_error = ret had_error"
| "purge_stored_destinations exec config (o' # os) backup_id now had_error =
     (case destination_by_name config (do_name o') of
        None \<Rightarrow> raise (KeyError (do_name o'))
      | Some dc \<Rightarrow> bnd (purge_one_destination exec config dc now False (Some backup_id)) (\<lambda>(_, error).
          purge_stored_destinations exec config os backup_id now (had_error \<or> error)))"

subsection \<open>A run\<close>

text \<open>The \<open>try\<close> block around mariabackup: \<open>None\<close> when the backup is made, or the message.\<close>

definition make_backup :: "'e exec \<Rightarrow> config \<Rightarrow> path \<Rightarrow> ('e, string option) io" where
  "make_backup exec config target_dir =
     except_else
       (sq (run_backup exec (c_backup config) (c_replication config) target_dir)
           (do_when (b_prepare (c_backup config)) (run_prepare exec (c_backup config) target_dir)))
       is_backup_error
       (\<lambda>e. sq (log_msg ''error'' (''backup failed: '' @ exn_msg e)) (ret (Some (exn_msg e))))
       (\<lambda>_. ret None)"

definition write_manifest ::
  "'e exec \<Rightarrow> string \<Rightarrow> config \<Rightarrow> path \<Rightarrow> string \<Rightarrow> replication_state \<Rightarrow> datetime \<Rightarrow> datetime \<Rightarrow> ('e, unit) io" where
  "write_manifest exec hostname config target_dir backup_id state started_at finished_at =
     bnd (get_version exec (c_backup config)) (\<lambda>version.
     bnd (directory_size_bytes target_dir) (\<lambda>size.
     write_meta target_dir
       \<lparr>m_schema_version = manifest_schema_version, m_backup_id = backup_id, m_type = ''full'',
        m_status = ''complete'', m_started_at = isoformat_utc (dt_wall started_at),
        m_finished_at = isoformat_utc (dt_wall finished_at), m_hostname = hostname,
        m_mariadb_version = rs_server_version state, m_mariabackup_version = version,
        m_prepared = b_prepare (c_backup config), m_size_bytes = size, m_tool_version = tool_version\<rparr>))"

text \<open>After the manifest is written: store everywhere, then clean up and purge.\<close>

definition purge_and_finish ::
  "'e exec \<Rightarrow> config \<Rightarrow> path \<Rightarrow> string \<Rightarrow> datetime \<Rightarrow> destination_outcome list \<Rightarrow> ('e, run_summary) io" where
  "purge_and_finish exec config target_dir backup_id now outcomes =
     sq (rmtree_ignore target_dir)
     (sq (run_hook exec (h_pre_purge (c_hooks config)) None False)
     (bnd (purge_stored_destinations exec config (filter do_stored outcomes) backup_id now False) (\<lambda>purge_had_error.
      let exit_code = (if filter (\<lambda>o'. \<not> do_stored o') outcomes \<noteq> [] then PARTIAL_DESTINATION_FAILURE
                       else if purge_had_error then PURGE_FAILED else SUCCESS)
      in sq (log_msg ''info'' (''run complete backup_id='' @ backup_id @ '' exit_code='' @ str_int (exit_int exit_code)))
         (finish_run exec \<lparr>rn_backup_id = backup_id, rn_exit_code = exit_code, rn_outcomes = outcomes, rn_error = []\<rparr>
            config))))"

definition distribute ::
  "'e exec \<Rightarrow> config \<Rightarrow> path \<Rightarrow> string \<Rightarrow> datetime \<Rightarrow> ('e, run_summary) io" where
  "distribute exec config target_dir backup_id now =
     sq (run_hook exec (h_post_backup (c_hooks config)) None False)
     (bnd (store_to_destinations exec config (c_destinations config) target_dir backup_id) (\<lambda>outcomes.
      if filter (\<lambda>o'. \<not> do_stored o') outcomes \<noteq> [] \<and> filter do_stored outcomes = []
      then sq (log_msg ''error'' (''all destinations failed for backup_id='' @ backup_id @ ''; work_dir preserved: ''
                @ path_str target_dir))
           (finish_run exec \<lparr>rn_backup_id = backup_id, rn_exit_code = ALL_DESTINATIONS_FAILED,
               rn_outcomes = outcomes, rn_error = []\<rparr> config)
      else purge_and_finish exec config target_dir backup_id now outcomes))"

text \<open>The body of the \<open>with acquire_lock\<close> block.\<close>

definition run_locked :: "'e exec \<Rightarrow> string \<Rightarrow> config \<Rightarrow> datetime \<Rightarrow> ('e, run_summary) io" where
  "run_locked exec hostname config now =
     bnd (lift (generate_backup_id (b_name_prefix (c_backup config)) now)) (\<lambda>backup_id.
     sq (log_msg ''info'' (''starting run backup_id='' @ backup_id))
     (bnd (check_replication_if_configured exec config) (\<lambda>state.
      sq (run_hook exec (h_pre_backup (c_hooks config)) None True)
     (sq (cleanup_stale_work_dir (b_work_dir (c_backup config)) backup_id)
     (let target_dir = path_join (b_work_dir (c_backup config)) backup_id in
      sq (mkdir_p target_dir)
     (bnd now_utc (\<lambda>started_at.
      bnd (make_backup exec config target_dir) (\<lambda>failure.
      case failure of
        Some error \<Rightarrow> finish_run exec \<lparr>rn_backup_id = backup_id, rn_exit_code = BACKUP_FAILED,
            rn_outcomes = [], rn_error = error\<rparr> config
      | None \<Rightarrow>
          bnd now_utc (\<lambda>finished_at.
          sq (write_manifest exec hostname config target_dir backup_id state started_at finished_at)
             (distribute exec config target_dir backup_id now))))))))))"

definition run_pipeline :: "'e exec \<Rightarrow> string \<Rightarrow> config \<Rightarrow> datetime option \<Rightarrow> ('e, run_summary) io" where
  "run_pipeline exec hostname config now0 =
     bnd (the_time now0) (\<lambda>now.
       with_lock (lk_file (c_lock config)) (run_locked exec hostname config now))"

end
