(* ===== verification/Logging_Setup.thy ===== *)
theory Logging_Setup
  imports Backup_Runner Json
begin

text \<open>
  \<open>logging_setup.py\<close>: the level of the package logger, the two formats of a record, and
  the handlers. The log of the world holds every record of the program in order;
  \<open>shown_records\<close> is what a handler passes on, \<open>format_record\<close> the line it writes. The
  time of a record, formatted in local time, and the text of a traceback are given.
\<close>

definition logger_name :: string where
  "logger_name = ''mariabackup_keeper''"

fun level_number :: "string \<Rightarrow> nat" where
  "level_number l = (if l = ''debug'' then 10 else if l = ''info'' then 20 else if l = ''warning'' then 30 else 40)"

definition upper_char :: "char \<Rightarrow> char" where
  "upper_char c = (if 97 \<le> code_pt c \<and> code_pt c \<le> 122 then char_of (code_pt c - 32) else c)"

text \<open>\<open>_JsonFormatter\<close> (no escape of non-ASCII characters) and \<open>_TextFormatter\<close>; \<open>exc_info\<close> is the traceback
  of a record that has one.\<close>

definition json_plain_char :: "char \<Rightarrow> string" where
  "json_plain_char c = (if 0x7F \<le> code_pt c then [c] else json_char c)"

definition json_plain_str :: "string \<Rightarrow> string" where
  "json_plain_str s = [CHR 0x22] @ concat (map json_plain_char s) @ [CHR 0x22]"

definition json_payload ::
  "string \<Rightarrow> string \<Rightarrow> string option \<Rightarrow> string \<Rightarrow> string option \<Rightarrow> (string \<times> string option) list" where
  "json_payload time level run_id message exc_info =
     [(''timestamp'', Some time), (''level'', Some level), (''message'', Some message), (''run_id'', run_id)]
     @ (case exc_info of None \<Rightarrow> [] | Some e \<Rightarrow> [(''exc_info'', Some e)])"

definition json_plain_entry :: "string \<times> string option \<Rightarrow> string" where
  "json_plain_entry kv = json_plain_str (fst kv) @ '': ''
     @ (case snd kv of None \<Rightarrow> ''null'' | Some s \<Rightarrow> json_plain_str s)"

definition json_record :: "string \<Rightarrow> string \<Rightarrow> string option \<Rightarrow> string \<Rightarrow> string option \<Rightarrow> string" where
  "json_record time level run_id message exc_info =
     ''{'' @ py_join '', '' (map json_plain_entry (json_payload time level run_id message exc_info)) @ ''}''"

definition ljust :: "nat \<Rightarrow> string \<Rightarrow> string" where
  "ljust n s = s @ replicate (n - length s) (CHR '' '')"

definition text_record :: "string \<Rightarrow> string \<Rightarrow> string option \<Rightarrow> string \<Rightarrow> string option \<Rightarrow> string" where
  "text_record time level run_id message exc_info =
     time @ '' '' @ ljust 7 (map upper_char level) @ '' ''
     @ (case run_id of None \<Rightarrow> [] | Some r \<Rightarrow> if r = [] then [] else ''['' @ r @ ''] '') @ message
     @ (case exc_info of None \<Rightarrow> [] | Some e \<Rightarrow> CHR 0x0A # e)"

definition format_record ::
  "logging_config \<Rightarrow> string \<Rightarrow> string \<Rightarrow> string option \<Rightarrow> string \<Rightarrow> string option \<Rightarrow> string" where
  "format_record c = (if l_format c = ''json'' then json_record else text_record)"

definition shown_records :: "logging_config \<Rightarrow> (string \<times> string) list \<Rightarrow> (string \<times> string) list" where
  "shown_records c log = filter (\<lambda>(level, _). level_number (l_level c) \<le> level_number level) log"

text \<open>\<open>RunIdFilter\<close> lets every record pass and puts its run id into it.\<close>

record run_id_filter =
  rf_run_id :: "string option"

definition filter_record :: "run_id_filter \<Rightarrow> string \<times> string \<Rightarrow> string option \<times> string \<times> string" where
  "filter_record f r = (rf_run_id f, r)"

text \<open>
  The lines each handler has written for a log: one for every record shown, made of the
  record, the run id of the filter, the time and the traceback it comes with.
\<close>

definition written_lines ::
  "logging_config \<Rightarrow> run_id_filter \<Rightarrow> (string \<times> string option) list \<Rightarrow> (string \<times> string) list \<Rightarrow> string list" where
  "written_lines c f stamps log =
     map (\<lambda>((time, exc_info), (run_id, level, message)). format_record c time level run_id message exc_info)
       (zip stamps (map (filter_record f) (shown_records c log)))"

text \<open>
  \<open>setup_logging\<close>: its one effect outside the logger is to open the log file for appending;
  the filter it returns has no run id yet.
\<close>

definition setup_logging :: "logging_config \<Rightarrow> ('e, run_id_filter) io" where
  "setup_logging c =
     (let run_id_filter = \<lparr>rf_run_id = None\<rparr> in
      if truthy (l_file c)
      then (if is_str (l_file c) then bnd (open_append (path_of (as_str (l_file c)))) (\<lambda>_. ret run_id_filter)
            else raise (TypeError ''expected str, bytes or os.PathLike object''))
      else ret run_id_filter)"

end
