(* ===== verification/Cli.thy ===== *)
theory Cli
  imports Orchestrator Logging_Setup Config_Correct
begin

text \<open>
  \<open>cli.py\<close>: the dispatch on the parsed command line, the printing of summaries, and the
  mapping of every exception to an exit code; with it \<open>load_config\<close> of \<open>config.py\<close> and
  \<open>setup_logging\<close>. The parser is in \<open>Cli_Args\<close>. TOML parsing (\<open>tomllib\<close>, a parameter \<open>toml\<close>
  from text to document or error message) is outside; so are texts beyond the characters of
  the model, and with them UTF-8 (the parameter \<open>decode\<close>).
\<close>

datatype command =
    Run
  | Purge "string list option" bool
  | List "string option"
  | Check

subsection \<open>Loading the configuration\<close>

definition default_config_path :: path where
  "default_config_path = path_of ''/etc/mbkeeper/config.toml''"

text \<open>
  \<open>decode\<close> is the UTF-8 decoding of the bytes of the file, \<open>None\<close> when they are not UTF-8.
\<close>

definition load_config :: "(string \<Rightarrow> string option) \<Rightarrow> (string \<Rightarrow> string + pydict) \<Rightarrow> path \<Rightarrow> ('e, config) io" where
  "load_config decode toml path =
     bnd (path_is_file path) (\<lambda>there.
       if \<not> there then raise (ConfigError (''Config file not found: '' @ path_str path))
       else bnd (except (read_file path) is_os_error
                  (\<lambda>e. raise (ConfigError (''Cannot read config file '' @ path_str path @ '': '' @ exn_msg e)))) (\<lambda>raw_bytes.
            case decode raw_bytes of
              None \<Rightarrow> raise (UnicodeDecodeError ''invalid start byte'')
            | Some text \<Rightarrow> (case toml text of
                Inl msg \<Rightarrow> raise (ConfigError (''Cannot parse TOML in '' @ path_str path @ '': '' @ msg))
              | Inr raw \<Rightarrow> lift (parse_config raw))))"

subsection \<open>Printing\<close>

definition print_purge_result :: "bool \<Rightarrow> destination_purge_result \<Rightarrow> ('e, unit) io" where
  "print_purge_result dry_run r =
     print_out (''['' @ pr_name r @ ''] '' @
       (if pr_error r \<noteq> [] then ''error: '' @ pr_error r
        else if pr_deleted r \<noteq> [] then (if dry_run then ''would delete'' else ''deleted'') @ '': ''
               @ py_join '', '' (pr_deleted r)
        else ''nothing to purge (kept '' @ str_nat (length (pr_kept r)) @ '' generations)''))"

definition print_purge_summary :: "purge_summary \<Rightarrow> bool \<Rightarrow> ('e, unit) io" where
  "print_purge_summary s dry_run = for_each (ps_results s) (print_purge_result dry_run)"

definition print_check_item :: "check_item \<Rightarrow> ('e, unit) io" where
  "print_check_item i =
     print_out (''['' @ (if ck_ok i then ''OK'' else ''FAIL'') @ ''] '' @ ck_name i
       @ (if ck_detail i \<noteq> [] then '': '' @ ck_detail i else []))"

definition print_check_summary :: "check_summary \<Rightarrow> ('e, unit) io" where
  "print_check_summary s = for_each (cs_items s) print_check_item"

subsection \<open>The list command\<close>

definition print_generation :: "stored_backup \<Rightarrow> ('e, unit) io" where
  "print_generation b =
     print_out (''  '' @ sb_id b @ ''  '' @ (if sb_complete b then ''complete'' else ''partial'')
       @ ''  stored_at='' @ isoformat_utc (dt_wall (sb_stored_at b)))"

fun list_destinations :: "'e exec \<Rightarrow> config \<Rightarrow> destination_config list \<Rightarrow> string option \<Rightarrow> bool \<Rightarrow> ('e, bool) io" where
  "list_destinations exec config [] destination_filter had_error = ret had_error"
| "list_destinations exec config (dc # dcs) destination_filter had_error =
     (if (case destination_filter of None \<Rightarrow> False | Some f \<Rightarrow> f \<noteq> [] \<and> d_name dc \<noteq> f)
      then list_destinations exec config dcs destination_filter had_error
      else sq (print_out (''['' @ d_name dc @ ''] (keep='' @ str_int (d_keep dc) @ '')''))
        (bnd (lift (build_destination dc (c_transfer config))) (\<lambda>dest.
           except_else (dest_list_backups exec dest) is_destination_error
             (\<lambda>e. sq (print_out (''  error: '' @ exn_msg e))
                     (list_destinations exec config dcs destination_filter True))
             (\<lambda>found. let backups = py_sorted_rev sb_id found in
                sq (do_when (backups = []) (print_out ''  (no generations)''))
                (sq (for_each backups print_generation)
                    (list_destinations exec config dcs destination_filter had_error))))))"

definition cmd_list :: "'e exec \<Rightarrow> config \<Rightarrow> string option \<Rightarrow> ('e, int) io" where
  "cmd_list exec config destination_filter =
     bnd (list_destinations exec config (c_destinations config) destination_filter False)
       (\<lambda>had_error. ret (exit_int (if had_error then PRECONDITION_FAILED else SUCCESS)))"

subsection \<open>The entry point\<close>

definition dispatch :: "'e exec \<Rightarrow> string \<Rightarrow> config \<Rightarrow> command \<Rightarrow> ('e, int) io" where
  "dispatch exec hostname config cmd =
     (case cmd of
        Run \<Rightarrow> bnd (run_pipeline exec hostname config None) (\<lambda>s. ret (exit_int (rn_exit_code s)))
      | Purge destinations dry_run \<Rightarrow>
          bnd (purge_cmd exec config (if destinations = Some [] then None else destinations) dry_run None) (\<lambda>s.
            sq (print_purge_summary s dry_run) (ret (exit_int (ps_exit_code s))))
      | List destination \<Rightarrow> cmd_list exec config destination
      | Check \<Rightarrow> bnd (check_cmd exec config) (\<lambda>s.
            sq (print_check_summary s) (ret (exit_int (if cs_ok s then SUCCESS else PRECONDITION_FAILED)))))"

text \<open>The two handlers around a command: a \<open>KeeperError\<close> has its own code, any other exception 1.\<close>

definition guarded :: "('e, int) io \<Rightarrow> ('e, int) io" where
  "guarded m =
     except (except m is_keeper_error
         (\<lambda>e. sq (log_msg ''error'' (exn_msg e)) (ret (exit_int (exn_exit_code e)))))
       (\<lambda>_. True)
       (\<lambda>e. sq (log_msg ''error'' (''unexpected error: '' @ exn_msg e)) (ret (exit_int INTERNAL_ERROR)))"

definition main ::
  "'e exec \<Rightarrow> string \<Rightarrow> (string \<Rightarrow> string option) \<Rightarrow> (string \<Rightarrow> string + pydict) \<Rightarrow> command \<Rightarrow> path option \<Rightarrow> ('e, int) io" where
  "main exec hostname decode toml cmd config_path =
     except_else (load_config decode toml (case config_path of None \<Rightarrow> default_config_path | Some p \<Rightarrow> p)) is_keeper_error
       (\<lambda>e. sq (print_err (exn_msg e)) (ret (exit_int (exn_exit_code e))))
       (\<lambda>config. sq (setup_logging (c_logging config)) (guarded (dispatch exec hostname config cmd)))"

end
