(* ===== verification/Destination_Contract.thy ===== *)
theory Destination_Contract
  imports Orchestrator Local_Listing
begin

text \<open>
  The contract of \<open>destinations/base.py\<close> as a locale: what the pipeline relies on when it
  lists, stores and deletes at a destination, whatever fails. \<open>view\<close> is the part of the
  world the destination lives in, \<open>holds\<close> the whole contents of a complete generation,
  \<open>ok\<close> the invariant of the destination. The client's lemmas about purging are proved
  from the contract once; the local destination is shown to satisfy it.
\<close>

lemma card_newer:
  assumes "{sb_id b | b. b \<in> set bs \<and> sb_complete b} = {i. P i}" "distinct (map sb_id bs)"
  shows "card (newer_complete bs j) = card {i. P i \<and> j < i}"
proof -
  have "sb_id ` newer_complete bs j = {i \<in> {sb_id b | b. b \<in> set bs \<and> sb_complete b}. j < i}"
    by (auto simp: newer_complete_def)
  then have "sb_id ` newer_complete bs j = {i. P i \<and> j < i}"
    unfolding assms(1) by simp
  moreover have "inj_on sb_id (newer_complete bs j)"
    using assms(2) by (auto simp: distinct_map newer_complete_def intro: inj_on_subset)
  ultimately show ?thesis by (metis card_image)
qed

locale destination_contract =
  fixes view :: "'e world \<Rightarrow> 's"
    and list_backups :: "('e, stored_backup list) io"
    and store :: "path \<Rightarrow> string \<Rightarrow> ('e, unit) io"
    and delete :: "string \<Rightarrow> ('e, unit) io"
    and holds :: "'s \<Rightarrow> string \<Rightarrow> ftree option"
    and ok :: "'s \<Rightarrow> bool"
    and valid :: "string \<Rightarrow> bool"
    and storable :: "string \<Rightarrow> bool"
    and readable :: "path \<Rightarrow> string \<Rightarrow> 'e world \<Rightarrow> bool"
  assumes view_log: "view (w\<lparr>w_log := l\<rparr>) = view w"
    and list_pure: "ok (view w) \<Longrightarrow> view (snd (list_backups w)) = view w"
    and list_exact: "ok (view w) \<Longrightarrow> list_backups w = (Inr bs, w') \<Longrightarrow>
      {sb_id b | b. b \<in> set bs \<and> sb_complete b} = {i. holds (view w) i \<noteq> None}"
    and list_valid: "ok (view w) \<Longrightarrow> list_backups w = (Inr bs, w') \<Longrightarrow> \<forall>b \<in> set bs. valid (sb_id b)"
    and delete_ok: "ok (view w) \<Longrightarrow> valid i \<Longrightarrow> ok (view (snd (delete i w)))"
    and delete_others: "ok (view w) \<Longrightarrow> valid i \<Longrightarrow> j \<noteq> i \<Longrightarrow> holds (view w) j \<noteq> None \<Longrightarrow>
      holds (view (snd (delete i w))) j = holds (view w) j"
    and delete_gone: "ok (view w) \<Longrightarrow> valid i \<Longrightarrow> delete i w = (Inr (), w') \<Longrightarrow> holds (view w') i = None"
    and delete_no_new: "ok (view w) \<Longrightarrow> valid i \<Longrightarrow> holds (view w) j = None \<Longrightarrow> holds (view (snd (delete i w))) j = None"
    and store_ok: "ok (view w) \<Longrightarrow> storable i \<Longrightarrow> ok (view (snd (store src i w)))"
    and store_keeps: "ok (view w) \<Longrightarrow> storable i \<Longrightarrow> holds (view w) j \<noteq> None \<Longrightarrow>
      holds (view (snd (store src i w))) j = holds (view w) j"
    and store_commits: "ok (view w) \<Longrightarrow> storable i \<Longrightarrow> readable src i w \<Longrightarrow> store src i w = (Inr (), w') \<Longrightarrow>
      holds (view w') i \<noteq> None"
begin

text \<open>The invariant with the contents of the generations in \<open>K\<close>.\<close>

definition safe :: "string set \<Rightarrow> (string \<Rightarrow> ftree option) \<Rightarrow> 'e world \<Rightarrow> bool" where
  "safe K c w \<longleftrightarrow> ok (view w) \<and> (\<forall>j \<in> K. c j \<noteq> None \<and> holds (view w) j = c j)"

lemma safe_log: "keeps (safe K c) (log_msg l m)"
  by (simp add: triple_def log_msg_def safe_def view_log)

lemma safe_delete:
  assumes "valid i" "i \<notin> K"
  shows "keeps (safe K c) (delete i)"
proof (rule tripleI)
  fix w assume s: "safe K c w"
  then have "safe K c (snd (delete i w))"
    unfolding safe_def using delete_ok delete_others assms by metis
  then show "case delete i w of (Inl e, w') \<Rightarrow> safe K c w' | (Inr x, w') \<Rightarrow> safe K c w'"
    by (auto split: prod.split sum.split)
qed

lemma safe_purge_loop:
  "\<forall>i \<in> set ids. valid i \<and> i \<notin> K \<Longrightarrow> keeps (safe K c) (purge_loop delete name dry ids deleted err)"
  by (induction ids arbitrary: deleted err)
     (auto intro!: keeps_bnd keeps_except keeps_sq safe_delete safe_log triples split: prod.split)

lemma safe_list: "keeps (safe K c) list_backups"
proof (rule tripleI)
  fix w assume s: "safe K c w"
  then have "safe K c (snd (list_backups w))" using list_pure by (simp add: safe_def)
  then show "case list_backups w of (Inl e, w') \<Rightarrow> safe K c w' | (Inr x, w') \<Rightarrow> safe K c w'"
    by (auto split: prod.split sum.split)
qed

text \<open>
  The purge keeps the newest \<open>keep\<close> complete generations, contents and all, whatever call
  fails and wherever it is interrupted; that the listing has no id twice is needed, since
  an expired incomplete entry with the id of a kept generation would take it along.
\<close>

lemma purge_keeps_newest:
  assumes "ok (view w)" "holds (view w) j \<noteq> None" "0 \<le> keep"
    and "int (card {i. holds (view w) i \<noteq> None \<and> j < i}) < keep"
    and "\<forall>bs w'. list_backups w = (Inr bs, w') \<longrightarrow> distinct (map sb_id bs)"
  shows "holds (view (snd (purge_destination list_backups delete name keep gh now dry ip w))) j = holds (view w) j"
proof -
  let ?I = "safe {j} (holds (view w))"
  have I: "?I w" using assms(1,2) by (simp add: safe_def)
  obtain r w1 where l: "list_backups w = (r, w1)" by fastforce
  have I1: "?I w1" using keepsD [OF safe_list I] l by simp
  let ?k = "\<lambda>stored. bnd (lift (select_purge stored keep gh now ip)) (\<lambda>plan.
          bnd (purge_loop delete name dry (pp_delete plan) [] False) (\<lambda>(deleted, had_error).
            ret (\<lparr>pr_name = name, pr_deleted = deleted, pr_kept = pp_keep plan, pr_error = []\<rparr>, had_error)))"
  have k: "keeps ?I (?k bs)" if "r = Inr bs" for bs
  proof (cases "select_purge bs keep gh now ip")
    case (Inr plan)
    have lb: "list_backups w = (Inr bs, w1)" using l that by simp
    have d: "distinct (map sb_id bs)" using assms(5) lb by blast
    have e: "{sb_id b | b. b \<in> set bs \<and> sb_complete b} = {i. holds (view w) i \<noteq> None}"
      by (rule list_exact [OF assms(1) lb])
    have "j \<in> {sb_id b | b. b \<in> set bs \<and> sb_complete b}" unfolding e using assms(2) by simp
    then obtain b where b: "b \<in> set bs" "sb_complete b" "sb_id b = j" by blast
    have "card (newer_complete bs j) = card {i. holds (view w) i \<noteq> None \<and> j < i}"
      by (rule card_newer [OF e d])
    then have "j \<notin> set (pp_delete plan)"
      using plan_complete_rank(2) [OF Inr d assms(3) b(1,2)] assms(4) b(3) by simp
    moreover have "\<forall>i \<in> set (pp_delete plan). valid i"
      using plan_ids [OF Inr] list_valid [OF assms(1) lb] by (metis UnCI imageE)
    ultimately have "keeps ?I (purge_loop delete name dry (pp_delete plan) [] False)"
      by (intro safe_purge_loop) auto
    then show ?thesis
      by (auto simp: Inr lift_def [abs_def] bnd_def [of "\<lambda>w. (Inr plan, w)", abs_def] intro!: keeps_bnd triples split: prod.split)
  qed (simp add: triple_def bnd_def lift_def)
  have "?I (snd (purge_destination list_backups delete name keep gh now dry ip w))"
  proof (cases r)
    case (Inl e)
    have "keeps ?I (sq (log_msg ''error'' m) (ret x))" for m and x :: "destination_purge_result \<times> bool"
      by (intro keeps_sq safe_log triples)
    from keepsD [OF this I1] I1 l Inl show ?thesis
      by (simp add: purge_destination_def except_else_def)
  next
    case (Inr bs)
    from keepsD [OF k [OF Inr] I1] l Inr show ?thesis
      by (simp add: purge_destination_def except_else_def)
  qed
  then show ?thesis by (simp add: safe_def)
qed

text \<open>The deletions of a loop that reports no error have all happened.\<close>

definition gone :: "string set \<Rightarrow> 'e world \<Rightarrow> bool" where
  "gone G w \<longleftrightarrow> ok (view w) \<and> (\<forall>i \<in> G. holds (view w) i = None)"

lemma gone_log: "keeps (gone G) (log_msg l m)"
  by (simp add: triple_def log_msg_def gone_def view_log)

lemma gone_delete:
  assumes "valid i"
  shows "triple (gone G) (delete i) (\<lambda>_. gone (insert i G)) (\<lambda>_. gone {})"
proof (rule tripleI)
  fix w assume g: "gone G w"
  obtain r w' where d: "delete i w = (r, w')" by fastforce
  have "ok (view w')" using delete_ok [OF _ assms, of w] g d by (simp add: gone_def)
  moreover have "\<forall>j \<in> G. holds (view w') j = None"
    using delete_no_new [OF _ assms, of w] g d by (simp add: gone_def)
  moreover have "holds (view w') i = None" if "r = Inr ()"
    using delete_gone [of w i w'] assms g d that by (simp add: gone_def)
  ultimately show "case delete i w of (Inl e, w') \<Rightarrow> gone {} w' | (Inr x, w') \<Rightarrow> gone (insert i G) w'"
    using d by (auto simp: gone_def split: sum.split)
qed

lemma gone_mono: "gone G w \<Longrightarrow> H \<subseteq> G \<Longrightarrow> gone H w"
  by (auto simp: gone_def)

lemma gone_purge_loop:
  "\<forall>i \<in> set ids. valid i \<Longrightarrow>
   triple (\<lambda>w. gone {} w \<and> (\<not> err \<longrightarrow> gone G w)) (purge_loop delete name False ids deleted err)
     (\<lambda>(_, e) w. gone {} w \<and> (\<not> e \<longrightarrow> \<not> err \<and> gone (G \<union> set ids) w)) (\<lambda>_ _. True)"
proof (induction ids arbitrary: G deleted err)
  case (Cons i ids)
  let ?post = "\<lambda>(_, e) w. gone {} w \<and> (\<not> e \<longrightarrow> \<not> err \<and> gone (G \<union> set (i # ids)) w)"
  let ?mid = "\<lambda>(_ :: string list, e) w. gone {} w \<and> (\<not> e \<longrightarrow> \<not> err \<and> gone (insert i G) w)"
  have del: "triple (\<lambda>w. gone {} w \<and> (\<not> err \<longrightarrow> gone G w)) (delete i)
      (\<lambda>_ w. gone {} w \<and> (\<not> err \<longrightarrow> gone (insert i G) w)) (\<lambda>_. gone {})"
  proof (cases err)
    case True
    then show ?thesis
      using gone_delete [of i "{}"] Cons.prems by (auto elim: triple_weaken intro: gone_mono)
  next
    case False
    then show ?thesis
      using gone_delete [of i G] Cons.prems by (auto elim: triple_weaken intro: gone_mono)
  qed
  have log: "triple (\<lambda>w. gone {} w \<and> (\<not> err \<longrightarrow> gone (insert i G) w)) (log_msg l m)
      (\<lambda>_ w. gone {} w \<and> (\<not> err \<longrightarrow> gone (insert i G) w)) (\<lambda>_. gone {})" for l m
    by (auto simp: triple_def log_msg_def gone_def view_log)
  have body: "triple (\<lambda>w. gone {} w \<and> (\<not> err \<longrightarrow> gone G w))
      (sq (delete i) (sq (log_msg ''info'' m) (ret (deleted @ [i], err)))) ?mid (\<lambda>_. gone {})" for m
    by (rule triple_sq [OF del triple_sq [OF log triple_ret]]) auto
  have handler: "triple (gone {}) (sq (log_msg ''error'' m) (ret (deleted, True))) ?mid (\<lambda>_ _. True)" for m
    by (rule triple_sq [where R = "gone {}"]) (auto simp: triple_def log_msg_def gone_def view_log ret_def)
  have one: "triple (\<lambda>w. gone {} w \<and> (\<not> err \<longrightarrow> gone G w))
      (except (sq (delete i) (sq (log_msg ''info'' m) (ret (deleted @ [i], err)))) is_destination_error
        (\<lambda>e. sq (log_msg ''error'' (m' e)) (ret (deleted, True)))) ?mid (\<lambda>_ _. True)" for m m'
    by (rule triple_except [OF body handler]) auto
  have rest: "triple (?mid de) (case de of (d', e') \<Rightarrow> purge_loop delete name False ids d' e') ?post (\<lambda>_ _. True)" for de
  proof (cases de)
    case (Pair d' e')
    have q: "triple (\<lambda>w. gone {} w \<and> (\<not> e' \<longrightarrow> gone (insert i G) w)) (purge_loop delete name False ids d' e')
      (\<lambda>(_, e) w. gone {} w \<and> (\<not> e \<longrightarrow> \<not> e' \<and> gone (insert i G \<union> set ids) w)) (\<lambda>_ _. True)"
      using Cons.IH [of e' "insert i G" d'] Cons.prems by simp
    have "triple (\<lambda>w. (gone {} w \<and> (\<not> e' \<longrightarrow> gone (insert i G) w)) \<and> (\<not> e' \<longrightarrow> \<not> err)) (purge_loop delete name False ids d' e') ?post (\<lambda>_ _. True)"
      by (rule triple_assume, rule triple_weaken [OF q]) auto
    then show ?thesis using Pair by (auto elim!: triple_weaken)
  qed
  show ?case using triple_bnd [OF one rest] by simp
qed (auto intro: triples)

text \<open>
  A purge that reports no error leaves exactly the newest \<open>keep\<close> complete generations.
\<close>

lemma purge_exact:
  assumes "ok (view w)" "0 \<le> keep"
    and "\<forall>bs w'. list_backups w = (Inr bs, w') \<longrightarrow> distinct (map sb_id bs)"
    and "purge_destination list_backups delete name keep gh now False ip w = (Inr (res, False), w')"
  shows "holds (view w') i =
    (if int (card {j. holds (view w) j \<noteq> None \<and> i < j}) < keep then holds (view w) i else None)"
proof -
  obtain r w1 where l: "list_backups w = (r, w1)" by fastforce
  have v1: "view w1 = view w" using list_pure [OF assms(1)] l by simp
  from assms(4) l obtain bs where r: "r = Inr bs"
    by (cases r) (auto simp: purge_destination_def except_else_def sq_def bnd_def log_msg_def ret_def split: if_splits)
  note lb = l [unfolded r]
  have d: "distinct (map sb_id bs)" using assms(3) lb by blast
  from assms(4) lb obtain plan where p: "select_purge bs keep gh now ip = Inr plan"
    by (cases "select_purge bs keep gh now ip") (auto simp: purge_destination_def except_else_def bnd_def lift_def)
  from assms(4) lb p obtain dl where loop: "purge_loop delete name False (pp_delete plan) [] False w1 = (Inr (dl, False), w')"
    by (auto simp: purge_destination_def except_else_def bnd_def lift_def ret_def split: prod.splits sum.splits)
  have valid: "\<forall>i \<in> set (pp_delete plan). valid i"
    using plan_ids [OF p] list_valid [OF assms(1) lb] by (metis UnCI imageE)
  have gone_after: "gone (G \<union> set (pp_delete plan)) w'" if "gone G w1" for G
    using tripleD [OF gone_purge_loop [OF valid, where err = False and G = G] _ loop] that gone_mono [OF that, of "{}"]
    by simp
  have ok1: "ok (view w1)" using assms(1) v1 by simp
  show ?thesis
  proof (cases "holds (view w) i = None")
    case True
    with ok1 v1 have "gone {i} w1" by (simp add: gone_def)
    from gone_after [OF this] True show ?thesis by (simp add: gone_def)
  next
    case False
    show ?thesis
    proof (cases "int (card {j. holds (view w) j \<noteq> None \<and> i < j}) < keep")
      case True
      have "holds (view (snd (purge_destination list_backups delete name keep gh now False ip w))) i = holds (view w) i"
        by (rule purge_keeps_newest [OF assms(1) False assms(2) True assms(3)])
      with assms(4) True show ?thesis by simp
    next
      case rank: False
      have e: "{sb_id b | b. b \<in> set bs \<and> sb_complete b} = {i. holds (view w) i \<noteq> None}"
        by (rule list_exact [OF assms(1) lb])
      have "i \<in> {sb_id b | b. b \<in> set bs \<and> sb_complete b}" unfolding e using False by simp
      then obtain b where b: "b \<in> set bs" "sb_complete b" "sb_id b = i" by blast
      have "i \<in> set (pp_delete plan)"
        using plan_complete_rank(2) [OF p d assms(2) b(1,2)] b(3) rank
          card_newer [OF e d, of i] by simp
      moreover have "gone {} w1" using ok1 by (simp add: gone_def)
      ultimately show ?thesis using gone_after [of "{}"] rank by (simp add: gone_def)
    qed
  qed
qed

text \<open>A dry run changes nothing.\<close>

lemma purge_dry:
  assumes "ok (view w)"
  shows "view (snd (purge_destination list_backups delete name keep gh now True ip w)) = view w"
proof -
  have loop: "purge_loop delete name True ids dl err w = (Inr (dl @ ids, err), w)" for ids dl err w
    by (induction ids arbitrary: dl) (simp_all add: ret_def)
  obtain r w1 where l: "list_backups w = (r, w1)" by fastforce
  have "view w1 = view w" using list_pure [OF assms] l by simp
  with l show ?thesis
    by (auto simp: purge_destination_def except_else_def bnd_def lift_def sq_def ret_def log_msg_def loop view_log
        split: sum.split)
qed

end

subsection \<open>The local destination satisfies the contract\<close>

text \<open>
  Ids the operations treat as names of the directory: not empty, no separator, neither
  \<open>.\<close> nor \<open>..\<close>. The invariant says that the names found there, and those without their
  \<open>.partial\<close>, are such ids.
\<close>

definition valid_id :: "string \<Rightarrow> bool" where
  "valid_id i \<longleftrightarrow> plain i \<and> i \<noteq> ''..''"

definition good_name :: "string \<Rightarrow> bool" where
  "good_name n \<longleftrightarrow> valid_id n \<and> (ends_with partial_suffix n \<longrightarrow> valid_id (drop_end (length partial_suffix) n))"

definition local_ok :: "local_destination \<Rightarrow> ftree \<Rightarrow> bool" where
  "local_ok d f \<longleftrightarrow> wf_tree f \<and> (\<forall>n. exists_at f (ld_path d @ [n]) \<longrightarrow> good_name n)"

definition local_holds :: "local_destination \<Rightarrow> ftree \<Rightarrow> string \<Rightarrow> ftree option" where
  "local_holds d f i = (if complete_at (ld_path d) i f \<and> \<not> ends_with partial_suffix i
     then lookup_tree f (ld_path d @ [i]) else None)"

definition local_storable :: "string \<Rightarrow> bool" where
  "local_storable i \<longleftrightarrow> valid_id i \<and> \<not> ends_with partial_suffix i"

definition local_readable :: "local_destination \<Rightarrow> path \<Rightarrow> string \<Rightarrow> 'e world \<Rightarrow> bool" where
  "local_readable d src i w \<longleftrightarrow> separate d src i \<and> is_file_at (w_fs w) (src @ [meta_filename])"

lemma local_holds_iff: "local_holds d f i \<noteq> None \<longleftrightarrow> complete_at (ld_path d) i f \<and> \<not> ends_with partial_suffix i"
proof -
  have "exists_at f (ld_path d @ [i])" if "complete_at (ld_path d) i f"
    using that is_file_at_below [of f "ld_path d @ [i]" "[meta_filename]"] by (simp add: complete_at_def)
  then show ?thesis by (auto simp: local_holds_def exists_at_def)
qed

lemmas local_holds_simps = local_holds_iff local_holds_iff [simplified]

lemma partial_not_dots: "i @ partial_suffix \<noteq> ''..''"
  by (rule notI) (drule arg_cong [of _ _ length], simp add: partial_suffix_def)

text \<open>Removing never makes a path appear.\<close>

lemma remove_no_new: "exists_at (alter q None f) x \<Longrightarrow> exists_at f x" "is_file_at (alter q None f) x \<Longrightarrow> is_file_at f x"
proof -
  have "lookup_tree (alter q None f) x = Some t \<Longrightarrow> \<exists>u. lookup_tree f x = Some u \<and> is_dir_tree u = is_dir_tree t" for t
  proof (induction q "None :: ftree option" f arbitrary: x rule: alter.induct)
    case (3 c cs es)
    show ?case
    proof (cases x)
      case Nil
      with 3(2) show ?thesis by (auto split: option.splits if_splits)
    next
      case (Cons y ys)
      with 3 show ?thesis by (auto split: option.splits if_splits)
    qed
  qed auto
  then show "exists_at (alter q None f) x \<Longrightarrow> exists_at f x" "is_file_at (alter q None f) x \<Longrightarrow> is_file_at f x"
    by (auto simp: exists_at_def is_file_at_def split: option.splits)
qed

definition shrinks :: "(ftree \<Rightarrow> bool) \<Rightarrow> bool" where
  "shrinks I \<longleftrightarrow> (\<forall>f q. I f \<longrightarrow> I (alter q None f))"

lemma shrinks_os_remove: "shrinks I \<Longrightarrow> fs_keeps I (os_remove q)"
  unfolding os_remove_def
  by (rule keeps_sys) (auto simp: shrinks_def split: option.split ftree.split list.split)

lemma shrinks_local_delete: "shrinks I \<Longrightarrow> fs_keeps I (local_delete d i)"
  unfolding local_delete_def local_delete_one_def rmtree_def Let_def
  by (intro keeps_for_each keeps_bnd keeps_do_when keeps_except keeps_reads shrinks_os_remove triples)

lemma local_ok_delete: "local_ok d (w_fs w) \<Longrightarrow> local_ok d (w_fs (snd (local_delete d i w)))"
proof (rule keepsD [OF shrinks_local_delete])
  show "shrinks (local_ok d)"
    using remove_no_new by (auto simp: shrinks_def local_ok_def intro: wf_tree_alter)
qed

lemma local_listing_ids:
  assumes "local_list_backups d w = (Inr bs, w')"
  shows "b \<in> set bs \<Longrightarrow> \<exists>n. is_dir_at (w_fs w) (ld_path d @ [n]) \<and>
      id_status b = (if ends_with partial_suffix n then (drop_end (length partial_suffix) n, False)
        else (n, complete_at (ld_path d) n (w_fs w)))"
    and "is_dir_at (w_fs w) (ld_path d @ [n]) \<Longrightarrow> \<not> ends_with partial_suffix n \<Longrightarrow>
      \<exists>b \<in> set bs. id_status b = (n, complete_at (ld_path d) n (w_fs w))"
proof -
  have m: "id_status ` set bs = set (generations (w_fs w) (ld_path d))"
    using arg_cong [OF conjunct1 [OF local_list_backups_post [OF assms]], of set] by simp
  show "\<exists>n. is_dir_at (w_fs w) (ld_path d @ [n]) \<and>
      id_status b = (if ends_with partial_suffix n then (drop_end (length partial_suffix) n, False)
        else (n, complete_at (ld_path d) n (w_fs w)))" if "b \<in> set bs"
  proof -
    have "id_status b \<in> set (generations (w_fs w) (ld_path d))" using that m by blast
    then obtain n where "id_status b \<in> set (entry_generation (w_fs w) (ld_path d) n)"
      by (auto simp: generations_def)
    then show ?thesis by (intro exI [of _ n]) (auto simp: entry_generation_def split: if_splits)
  qed
  show "\<exists>b \<in> set bs. id_status b = (n, complete_at (ld_path d) n (w_fs w))"
    if "is_dir_at (w_fs w) (ld_path d @ [n])" "\<not> ends_with partial_suffix n"
  proof -
    have n: "n \<in> set (names_at (w_fs w) (ld_path d))"
      using that(1) by (simp add: names_at_iff exists_at_iff)
    have e: "(n, complete_at (ld_path d) n (w_fs w)) \<in> set (entry_generation (w_fs w) (ld_path d) n)"
      using that by (simp add: entry_generation_def)
    have "(n, complete_at (ld_path d) n (w_fs w)) \<in> set (generations (w_fs w) (ld_path d))"
      unfolding generations_def set_concat set_map using n e by (rule UN_I [OF imageI])
    then obtain b where "b \<in> set bs" "(n, complete_at (ld_path d) n (w_fs w)) = id_status b"
      unfolding m [symmetric] by (rule imageE) simp
    then show ?thesis by (intro bexI [of _ b]) auto
  qed
qed

lemma complete_at_dir: "complete_at p i f \<Longrightarrow> is_dir_at f (p @ [i])"
  using is_file_at_parent [of f "p @ [i]" meta_filename] by (simp add: complete_at_def)

lemma local_list_exact:
  assumes "local_list_backups d w = (Inr bs, w')"
  shows "{sb_id b | b. b \<in> set bs \<and> sb_complete b} = {i. local_holds d (w_fs w) i \<noteq> None}"
proof (intro set_eqI iffI)
  fix i assume "i \<in> {sb_id b | b. b \<in> set bs \<and> sb_complete b}"
  then obtain b where b: "b \<in> set bs" "sb_complete b" "i = sb_id b" by auto
  with local_listing_ids(1) [OF assms b(1)] show "i \<in> {i. local_holds d (w_fs w) i \<noteq> None}"
    by (auto simp: local_holds_simps split: if_splits)
next
  fix i assume "i \<in> {i. local_holds d (w_fs w) i \<noteq> None}"
  then have i: "complete_at (ld_path d) i (w_fs w)" "\<not> ends_with partial_suffix i" by (simp_all add: local_holds_simps)
  from local_listing_ids(2) [OF assms complete_at_dir [OF i(1)] i(2)] i(1)
  show "i \<in> {sb_id b | b. b \<in> set bs \<and> sb_complete b}" by auto
qed

lemma local_list_valid:
  assumes "local_ok d (w_fs w)" "local_list_backups d w = (Inr bs, w')"
  shows "\<forall>b \<in> set bs. valid_id (sb_id b)"
proof
  fix b assume "b \<in> set bs"
  from local_listing_ids(1) [OF assms(2) this] obtain n where n: "is_dir_at (w_fs w) (ld_path d @ [n])"
    "sb_id b = (if ends_with partial_suffix n then drop_end (length partial_suffix) n else n)"
    by (auto split: if_splits)
  from n(1) assms(1) have "good_name n" by (auto simp: local_ok_def exists_at_iff)
  with n(2) show "valid_id (sb_id b)" by (auto simp: good_name_def)
qed

lemma not_partial: "\<not> ends_with partial_suffix j \<Longrightarrow> j \<noteq> i @ partial_suffix"
  by (auto simp: ends_with_iff)

lemma local_delete_others:
  assumes "valid_id i" "j \<noteq> i" "local_holds d (w_fs w) j \<noteq> None"
  shows "local_holds d (w_fs (snd (local_delete d i w))) j = local_holds d (w_fs w) j"
proof -
  have j: "\<not> ends_with partial_suffix j" using assms(3) by (simp add: local_holds_simps)
  have p: "plain i" using assms(1) by (simp add: valid_id_def)
  let ?I = "\<lambda>f. lookup_tree f (ld_path d @ [j]) = lookup_tree (w_fs w) (ld_path d @ [j])"
  have "fs_keeps ?I (local_delete d i)"
    by (rule keeps_local_delete [OF p]) (use assms(2) not_partial [OF j, of i] in \<open>auto intro!: stable_lookup\<close>)
  then have "?I (w_fs (snd (local_delete d i w)))" by (rule keepsD) simp
  then show ?thesis
    by (simp add: local_holds_def complete_at_def is_file_at_def
        lookup_append [of _ "ld_path d @ [j]" "[meta_filename]", simplified])
qed

lemma local_delete_gone:
  assumes "valid_id i" "local_delete d i w = (Inr (), w')"
  shows "local_holds d (w_fs w') i = None"
proof -
  have "\<not> exists_at (w_fs w') (ld_path d @ [i])"
    using tripleD [OF local_delete_post TrueI assms(2)] assms(1) by (simp add: valid_id_def)
  then have "\<not> complete_at (ld_path d) i (w_fs w')"
    using complete_at_dir exists_at_iff by blast
  then show ?thesis by (simp add: local_holds_def)
qed

lemma local_delete_no_new:
  assumes "local_holds d (w_fs w) j = None"
  shows "local_holds d (w_fs (snd (local_delete d i w))) j = None"
proof -
  have "shrinks (\<lambda>f. \<not> complete_at (ld_path d) j f)"
    using remove_no_new(2) by (auto simp: shrinks_def complete_at_def)
  then have "\<not> complete_at (ld_path d) j (w_fs w) \<Longrightarrow> \<not> complete_at (ld_path d) j (w_fs (snd (local_delete d i w)))"
    by (rule keepsD [OF shrinks_local_delete])
  moreover have "local_holds d f j = None \<longleftrightarrow> \<not> (complete_at (ld_path d) j f \<and> \<not> ends_with partial_suffix j)" for f
    using local_holds_iff [of d f j] by blast
  ultimately show ?thesis using assms by blast
qed

text \<open>A store keeps the invariant: the only new names are the id's own.\<close>

lemma local_ok_store:
  assumes "local_ok d (w_fs w)" "local_storable i"
  shows "local_ok d (w_fs (snd (local_store d src i w)))"
proof -
  have p: "plain i" and g: "good_name i" "good_name (i @ partial_suffix)"
    using assms(2) plain_partial
    by (auto simp: local_storable_def good_name_def valid_id_def drop_end_def ends_with_iff partial_not_dots)
  let ?I = "\<lambda>f. wf_tree f \<and> (\<forall>n. n \<noteq> i \<and> n \<noteq> i @ partial_suffix \<longrightarrow> exists_at f (ld_path d @ [n]) \<longrightarrow> good_name n)"
  have all: "stable q (\<lambda>f. \<forall>n. n \<noteq> i \<and> n \<noteq> i @ partial_suffix \<longrightarrow> exists_at f (ld_path d @ [n]) \<longrightarrow> good_name n)"
    if "\<And>n. n \<noteq> i \<Longrightarrow> n \<noteq> i @ partial_suffix \<Longrightarrow> apart q (ld_path d @ [n])" for q
    unfolding stable_def exists_at_def using that lookup_alter_apart apart_mono by metis
  have "grows (ld_path d) (\<lambda>f. exists_at f (ld_path d @ [n]) \<longrightarrow> good_name n)" for n
    unfolding exists_at_def by (rule grows_lookup) (auto simp: is_prefix_iff)
  then have gr: "grows (ld_path d) (\<lambda>f. \<forall>n. n \<noteq> i \<and> n \<noteq> i @ partial_suffix \<longrightarrow> exists_at f (ld_path d @ [n]) \<longrightarrow> good_name n)"
    unfolding grows_def by blast
  have "fs_keeps ?I (local_store d src i)"
    by (rule keeps_local_store [OF p]) (auto intro!: frames all gr)
  from keepsD [OF this, of w] assms(1) g show ?thesis
    by (auto simp: local_ok_def)
qed

lemma local_store_keeps:
  assumes "local_ok d (w_fs w)" "local_storable i" "local_holds d (w_fs w) j \<noteq> None"
  shows "local_holds d (w_fs (snd (local_store d src i w))) j = local_holds d (w_fs w) j"
proof -
  have j: "complete_at (ld_path d) j (w_fs w)" "\<not> ends_with partial_suffix j"
    using assms(3) by (simp_all add: local_holds_simps)
  have p: "plain i" using assms(2) by (simp add: local_storable_def valid_id_def)
  have "lookup_tree (w_fs (snd (local_store d src i w))) (ld_path d @ [j]) = lookup_tree (w_fs w) (ld_path d @ [j])"
    using local_store_complete_kept [OF p _ j(1) not_partial [OF j(2)]] assms(1) by (simp add: local_ok_def)
  then show ?thesis
    by (simp add: local_holds_def complete_at_def is_file_at_def
        lookup_append [of _ "ld_path d @ [j]" "[meta_filename]", simplified])
qed

lemma local_store_commits:
  assumes "local_ok d (w_fs w)" "local_storable i" "local_readable d src i w" "local_store d src i w = (Inr (), w')"
  shows "local_holds d (w_fs w') i \<noteq> None"
proof -
  have p: "plain i" and np: "\<not> ends_with partial_suffix i"
    using assms(2) by (simp_all add: local_storable_def valid_id_def)
  show ?thesis
  proof (cases "complete_at (ld_path d) i (w_fs w)")
    case True
    with local_store_done(1) [OF p True, of src] assms(4) np show ?thesis by (simp add: local_holds_simps)
  next
    case False
    have f: "is_file_at (w_fs w) (src @ [meta_filename])" and s: "separate d src i"
      using assms(3) by (simp_all add: local_readable_def)
    from f obtain es m where es: "lookup_tree (w_fs w) src = Some (FDir es)" "map_of es meta_filename = Some (FFile m)"
      by (auto simp: is_file_at_conv lookup_snoc split: option.splits ftree.splits)
    have "before_commit d src i es (lookup_tree (w_fs w) (ld_path d @ [i])) (w_fs w) \<and> \<not> complete_at (ld_path d) i (w_fs w)"
      using False es assms(1) by (simp add: before_commit_def local_ok_def)
    from tripleD [OF local_store_result [OF s p] this assms(4)] es(2)
    have "lookup_tree (w_fs w') (ld_path d @ [i]) =
        Some (FDir (copied_entries meta_filename es @ [(meta_filename, FFile m)]))"
      by (simp add: stored_tree_def)
    moreover have "map_of (copied_entries meta_filename es) meta_filename = None"
      using meta_not_copied by (simp add: map_of_eq_None_iff)
    ultimately have "complete_at (ld_path d) i (w_fs w')"
      by (simp add: complete_at_def is_file_at_def map_add_def
          lookup_append [of _ "ld_path d @ [i]" "[meta_filename]", simplified])
    with np show ?thesis by (simp add: local_holds_simps)
  qed
qed

interpretation local_contract: destination_contract w_fs "local_list_backups d" "local_store d" "local_delete d"
  "local_holds d" "local_ok d" valid_id local_storable "local_readable d" for d
proof (unfold_locales, goal_cases)
  case (2 w)
  then show ?case using keepsD [OF keeps_local_list [of "\<lambda>f. f = w_fs w"], of w] by simp
qed (simp_all add: local_list_exact local_list_valid local_ok_delete local_delete_others local_delete_gone
    local_delete_no_new local_ok_store local_store_keeps local_store_commits)

end
