(* ===== verification/Purge_Safety.thy ===== *)
theory Purge_Safety
  imports Destination_Contract Config_Accept
begin

text \<open>
  What \<open>mbkeeper purge\<close> does to the local destinations: the facts of the destination
  contract on the model's own local destination, as statements about
  \<open>purge_one_destination\<close> and \<open>purge_all\<close>.
\<close>

subsection \<open>A configured local destination\<close>

abbreviation configured :: "config \<Rightarrow> destination_config \<Rightarrow> local_destination" where
  "configured config dc \<equiv> local_from_config dc (c_transfer config)"

lemma local_operations [simp]:
  "dest_list_backups exec (Local d) = local_list_backups d" "dest_delete exec (Local d) = local_delete d"
  "dest_store exec (Local d) = local_store d"
  by (simp_all add: fun_eq_iff)

lemma build_local: "d_type dc = ''local'' \<Longrightarrow> build_destination dc (c_transfer config) = Inr (Local (configured config dc))"
  by (simp add: build_destination_types)

lemma bnd_lift_Inr [simp]: "bnd (lift (Inr x)) k = k x"
  by (simp add: fun_eq_iff bnd_def lift_def)

lemma purge_one_local:
  "d_type dc = ''local'' \<Longrightarrow> purge_one_destination exec config dc now dry ip =
     purge_destination (local_list_backups (configured config dc)) (local_delete (configured config dc)) (d_name dc)
       (d_keep dc) (rt_incomplete_grace_hours (c_retention config)) now dry ip"
  by (simp add: purge_one_destination_def build_local)

text \<open>The listing has no id twice when no generation has both a final and a partial directory.\<close>

lemma listed_distinct:
  assumes "distinct (map fst (generations (w_fs w) (ld_path d)))"
  shows "\<forall>bs w'. local_list_backups d w = (Inr bs, w') \<longrightarrow> distinct (map sb_id bs)"
proof (intro allI impI)
  fix bs w' assume "local_list_backups d w = (Inr bs, w')"
  then have "map id_status bs = generations (w_fs w) (ld_path d)"
    using local_list_backups_post by blast
  then have "map sb_id bs = map fst (generations (w_fs w) (ld_path d))"
    by (metis (no_types, lifting) comp_apply fst_conv list.map_comp map_eq_conv)
  with assms show "distinct (map sb_id bs)" by simp
qed

subsection \<open>What a purge keeps\<close>



lemma purge_one_dry:
  assumes "d_type dc = ''local''"
  shows "w_fs (snd (purge_one_destination exec config dc now True ip w)) = w_fs w"
proof -
  have loop: "purge_loop del name True ids dl err w = (Inr (dl @ ids, err), w)"
    for del :: "string \<Rightarrow> ('a, unit) io" and name ids dl err w
    by (induction ids arbitrary: dl) (simp_all add: ret_def)
  have "fs_keeps (\<lambda>f. f = w_fs w) (purge_loop (local_delete d) name True ids dl err :: ('a, string list \<times> bool) io)"
    for d name ids dl err
    by (auto simp: triple_def loop)
  then have "fs_keeps (\<lambda>f. f = w_fs w) (purge_one_destination exec config dc now True ip)"
    unfolding purge_one_local [OF assms] purge_destination_def
    by (auto intro!: keeps_except_else keeps_bnd keeps_local_list triples split: prod.split)
  from keepsD [OF this, of w] show ?thesis by simp
qed


subsection \<open>A concrete destination\<close>

text \<open>Two complete generations at \<open>/b\<close>, of which the policy keeps one.\<close>

definition two_generations :: "unit world" where
  "two_generations = sample_world\<lparr>w_fs := FDir [(''/'', FDir [(''b'', FDir
     [(''g0'', FDir [(''meta.json'', FFile ''o'')]), (''g1'', FDir [(''meta.json'', FFile ''n'')])])])]\<rparr>"

definition keep_one :: destination_config where
  "keep_one = sample_destination\<lparr>d_path := ''/b'', d_keep := 1\<rparr>"

definition no_exec :: "'e exec" where
  "no_exec argv stdin timeout h = (NotStarted ''No such file or directory'', h)"

lemma keep_one_sel: "d_type keep_one = ''local''" "d_keep keep_one = 1"
  "ld_path (configured config keep_one) = [''/'', ''b'']"
proof -
  show "d_type keep_one = ''local''" "d_keep keep_one = 1" by (simp_all add: keep_one_def sample_destination_def)
  have "path_of ''/b'' = [''/'', ''b'']" by code_simp
  then show "ld_path (configured config keep_one) = [''/'', ''b'']"
    by (simp add: keep_one_def sample_destination_def local_from_config_def)
qed

lemma two_names:
  "exists_at (w_fs two_generations) ([''/'', ''b''] @ [n]) \<longleftrightarrow> n = ''g0'' \<or> n = ''g1''"
  by (simp add: two_generations_def exists_at_def)

lemma two_ok: "local_ok (configured config keep_one) (w_fs two_generations)"
proof -
  have "good_name ''g0''" "good_name ''g1''" "wf_tree (w_fs two_generations)"
    by (simp_all add: good_name_def valid_id_def plain_def ends_with_iff partial_suffix_def two_generations_def)
  then show ?thesis using two_names by (auto simp: local_ok_def keep_one_sel)
qed

lemma two_distinct: "distinct (map fst (generations (w_fs two_generations) (ld_path (configured config keep_one))))"
  unfolding keep_one_sel by code_simp

lemma two_holds:
  "local_holds (configured config keep_one) (w_fs two_generations) i =
     (if i = ''g0'' then Some (FDir [(''meta.json'', FFile ''o'')])
      else if i = ''g1'' then Some (FDir [(''meta.json'', FFile ''n'')]) else None)"
  by (auto simp: local_holds_def complete_at_def keep_one_sel two_generations_def is_file_at_def meta_filename_def
      ends_with_iff partial_suffix_def split: if_splits)

lemma two_newer:
  "{i. local_holds (configured config keep_one) (w_fs two_generations) i \<noteq> None \<and> ''g1'' < i} = {}"
  "{i. local_holds (configured config keep_one) (w_fs two_generations) i \<noteq> None \<and> ''g0'' < i} = {''g1''}"
proof -
  have "''g0'' < ''g1''" "\<not> ''g1'' < ''g0''" by code_simp+
  then show "{i. local_holds (configured config keep_one) (w_fs two_generations) i \<noteq> None \<and> ''g1'' < i} = {}"
    "{i. local_holds (configured config keep_one) (w_fs two_generations) i \<noteq> None \<and> ''g0'' < i} = {''g1''}"
    by (auto simp: two_holds split: if_splits)
qed


lemma two_purged:
  "fst (purge_one_destination no_exec sample_config keep_one (utc sample_time) False None two_generations) =
     Inr (\<lparr>pr_name = ''a'', pr_deleted = [''g0''], pr_kept = [''g1''], pr_error = []\<rparr>, False)"
  by code_simp



end
