(* ===== verification/Run_Correct.thy ===== *)
theory Run_Correct
  imports Purge_Safety
begin

text \<open>
  What a run returns: which destinations it tried, and which exit code goes with which
  outcomes.
\<close>

subsection \<open>Values a computation can return\<close>

abbreviation yields :: "('e, 'a) io \<Rightarrow> ('a \<Rightarrow> bool) \<Rightarrow> bool" where
  "yields m P \<equiv> achieves (\<lambda>_. True) m (\<lambda>x _. P x)"

lemma yields_ret: "P x \<Longrightarrow> yields (ret x) P"
  by (rule triple_ret)

lemma yields_bnd: "(\<And>x. yields (k x) P) \<Longrightarrow> yields (bnd m k) P"
  by (rule triple_bnd [where R = "\<lambda>_ _. True"]) simp_all

lemma yields_sq: "yields n P \<Longrightarrow> yields (sq m n) P"
  by (rule triple_sq [where R = "\<lambda>_. True"]) simp_all

lemma yields_then: "yields m R \<Longrightarrow> (\<And>x. R x \<Longrightarrow> yields (k x) P) \<Longrightarrow> yields (bnd m k) P"
  by (rule triple_bnd [where R = "\<lambda>x _. R x"]) (simp_all add: triple_def)

lemma yields_except_else: "(\<And>e. yields (h e) P) \<Longrightarrow> (\<And>x. yields (k x) P) \<Longrightarrow> yields (except_else m c h k) P"
  by (rule triple_except_else [where S = "\<lambda>_ _. True" and R = "\<lambda>_ _. True"]) simp_all

lemma yields_raise: "yields (raise e) P"
  by (simp add: triple_def raise_def)

lemma yieldsD: "yields m P \<Longrightarrow> m w = (Inr x, w') \<Longrightarrow> P x"
  by (drule tripleD [where w = w]) auto

lemmas yields_rules = yields_ret yields_sq yields_raise

subsection \<open>The outcomes of storing\<close>

text \<open>
  One outcome per destination tried, in order; every destination is tried, unless the
  transfer aborts on failure, when the first failure is the last one tried.
\<close>

definition outcomes_of :: "bool \<Rightarrow> destination_config list \<Rightarrow> destination_outcome list \<Rightarrow> bool" where
  "outcomes_of stop dcs os \<longleftrightarrow>
     map do_name os = map d_name (take (length os) dcs) \<and>
     (length os = length dcs \<or> stop \<and> os \<noteq> [] \<and> \<not> do_stored (last os)) \<and>
     (stop \<longrightarrow> (\<forall>o' \<in> set (butlast os). do_stored o'))"

lemma outcomes_of_Cons:
  assumes "outcomes_of stop dcs os" "do_name o' = d_name dc" "stop \<Longrightarrow> do_stored o'"
  shows "outcomes_of stop (dc # dcs) (o' # os)"
  using assms by (auto simp: outcomes_of_def)

lemma store_to_destinations_outcomes:
  "yields (store_to_destinations exec config dcs target_dir backup_id)
     (outcomes_of (t_on_destination_failure (c_transfer config) = ''abort'') dcs)"
proof (induction dcs)
  case Nil
  show ?case by (simp add: yields_ret outcomes_of_def)
next
  case (Cons dc dcs)
  let ?stop = "t_on_destination_failure (c_transfer config) = ''abort''"
  have stored: "yields (bnd (store_to_destinations exec config dcs target_dir backup_id) (\<lambda>os.
      ret (\<lparr>do_name = d_name dc, do_stored = True, do_error = []\<rparr> # os))) (outcomes_of ?stop (dc # dcs))"
    by (rule yields_then [OF Cons]) (simp add: yields_ret outcomes_of_Cons)
  have failed: "yields (if ?stop then ret [\<lparr>do_name = d_name dc, do_stored = False, do_error = m\<rparr>]
      else bnd (store_to_destinations exec config dcs target_dir backup_id) (\<lambda>os.
        ret (\<lparr>do_name = d_name dc, do_stored = False, do_error = m\<rparr> # os))) (outcomes_of ?stop (dc # dcs))" for m
  proof (cases ?stop)
    case True
    then show ?thesis by (simp add: yields_ret outcomes_of_def)
  next
    case False
    have "yields (bnd (store_to_destinations exec config dcs target_dir backup_id) (\<lambda>os.
        ret (\<lparr>do_name = d_name dc, do_stored = False, do_error = m\<rparr> # os))) (outcomes_of ?stop (dc # dcs))"
      by (rule yields_then [OF Cons]) (simp add: False yields_ret outcomes_of_Cons)
    with False show ?thesis by simp
  qed
  show ?case
    by (simp add: Let_def) (intro yields_bnd yields_except_else yields_sq stored failed)
qed

text \<open>
  C23. A run tries the destinations in the configured order. With
  \<open>on_destination_failure = "continue"\<close> every one gets an outcome; with \<open>"abort"\<close> the first
  failure is the last outcome and all before it were stored.
\<close>

theorem store_tries_destinations:
  assumes "store_to_destinations exec config (c_destinations config) target_dir backup_id w = (Inr os, w')"
  shows "map do_name os = map d_name (take (length os) (c_destinations config)) \<and>
    (if t_on_destination_failure (c_transfer config) = ''abort''
     then (\<forall>o' \<in> set (butlast os). do_stored o') \<and>
       (length os = length (c_destinations config) \<or> os \<noteq> [] \<and> \<not> do_stored (last os))
     else length os = length (c_destinations config))"
  using yieldsD [OF store_to_destinations_outcomes assms] by (auto simp: outcomes_of_def)

subsection \<open>The exit code of a run\<close>

definition all_stored :: "config \<Rightarrow> destination_outcome list \<Rightarrow> bool" where
  "all_stored config os \<longleftrightarrow> map do_name os = map d_name (c_destinations config) \<and> (\<forall>o' \<in> set os. do_stored o')"

definition summary_fits :: "config \<Rightarrow> run_summary \<Rightarrow> bool" where
  "summary_fits config s \<longleftrightarrow>
     (case rn_exit_code s of
        BACKUP_FAILED \<Rightarrow> rn_outcomes s = []
      | ALL_DESTINATIONS_FAILED \<Rightarrow> rn_outcomes s \<noteq> [] \<and> (\<forall>o' \<in> set (rn_outcomes s). \<not> do_stored o')
      | PARTIAL_DESTINATION_FAILURE \<Rightarrow>
          (\<exists>o' \<in> set (rn_outcomes s). do_stored o') \<and> (\<exists>o' \<in> set (rn_outcomes s). \<not> do_stored o')
      | PURGE_FAILED \<Rightarrow> all_stored config (rn_outcomes s)
      | SUCCESS \<Rightarrow> all_stored config (rn_outcomes s)
      | _ \<Rightarrow> False)"

lemma summary_fits_backup_failed:
  "rn_exit_code s = BACKUP_FAILED \<Longrightarrow> rn_outcomes s = [] \<Longrightarrow> summary_fits config s"
  by (simp add: summary_fits_def)

lemma yields_finish: "P s \<Longrightarrow> yields (finish_run exec s config) P"
  by (simp add: finish_run_def yields_sq yields_ret)

lemma outcomes_all_stored:
  "outcomes_of stop (c_destinations config) os \<Longrightarrow> \<forall>o' \<in> set os. do_stored o' \<Longrightarrow> all_stored config os"
  by (auto simp: outcomes_of_def all_stored_def)

lemma distribute_fits: "yields (distribute exec config target_dir backup_id now) (summary_fits config)"
  unfolding distribute_def
proof (intro yields_sq yields_then [OF store_to_destinations_outcomes])
  fix os assume os: "outcomes_of (t_on_destination_failure (c_transfer config) = ''abort'') (c_destinations config) os"
  have f: "filter (\<lambda>o'. \<not> do_stored o') os \<noteq> [] \<longleftrightarrow> (\<exists>o' \<in> set os. \<not> do_stored o')"
    "filter do_stored os = [] \<longleftrightarrow> (\<forall>o' \<in> set os. \<not> do_stored o')"
    by (auto simp: filter_empty_conv)
  show "yields (if filter (\<lambda>o'. \<not> do_stored o') os \<noteq> [] \<and> filter do_stored os = []
      then sq (log_msg ''error'' (''all destinations failed for backup_id='' @ backup_id @ ''; work_dir preserved: ''
                @ path_str target_dir))
           (finish_run exec \<lparr>rn_backup_id = backup_id, rn_exit_code = ALL_DESTINATIONS_FAILED,
               rn_outcomes = os, rn_error = []\<rparr> config)
      else purge_and_finish exec config target_dir backup_id now os) (summary_fits config)"
    unfolding f purge_and_finish_def Let_def using outcomes_all_stored [OF os]
    by (auto intro!: yields_sq yields_bnd yields_finish simp: summary_fits_def)
qed

lemma run_summary_fits: "yields (run_pipeline exec hostname config now) (summary_fits config)"
proof -
  have "yields (run_locked exec hostname config t) (summary_fits config)" for t
    unfolding run_locked_def Let_def
    by (intro yields_bnd yields_sq)
       (auto intro!: yields_bnd yields_sq yields_finish distribute_fits summary_fits_backup_failed split: option.split)
  then have "yields (with_lock p (run_locked exec hostname config t)) (summary_fits config)" for p t
    unfolding with_lock_def
    by (intro yields_sq triple_finally [where Q = "\<lambda>x _. summary_fits config x" and E = "\<lambda>_ _. True"])
       (simp_all add: triple_def split: prod.split sum.split)
  then show ?thesis
    unfolding run_pipeline_def by (rule yields_bnd)
qed

text \<open>
  C7. The exit code of a run that returns says what happened: 6 only with no destination
  tried, 7 when some were tried and none stored, 8 when some stored and some failed, 0 or
  9 only when every configured destination stored; no other code is returned.
\<close>

theorem run_exit_code:
  assumes "run_pipeline exec hostname config now w = (Inr s, w')"
  shows "case rn_exit_code s of
      BACKUP_FAILED \<Rightarrow> rn_outcomes s = []
    | ALL_DESTINATIONS_FAILED \<Rightarrow> rn_outcomes s \<noteq> [] \<and> (\<forall>o' \<in> set (rn_outcomes s). \<not> do_stored o')
    | PARTIAL_DESTINATION_FAILURE \<Rightarrow>
        (\<exists>o' \<in> set (rn_outcomes s). do_stored o') \<and> (\<exists>o' \<in> set (rn_outcomes s). \<not> do_stored o')
    | PURGE_FAILED \<Rightarrow> map do_name (rn_outcomes s) = map d_name (c_destinations config) \<and> (\<forall>o' \<in> set (rn_outcomes s). do_stored o')
    | SUCCESS \<Rightarrow> map do_name (rn_outcomes s) = map d_name (c_destinations config) \<and> (\<forall>o' \<in> set (rn_outcomes s). do_stored o')
    | _ \<Rightarrow> False"
  using yieldsD [OF run_summary_fits assms]
  by (cases "rn_exit_code s") (simp_all add: summary_fits_def all_stored_def)

subsection \<open>Concrete runs\<close>

text \<open>The sample host, its clock at year one: a work directory with \<open>g1\<close>, a destination with \<open>g0\<close>.\<close>

definition run_destination :: destination_config where
  "run_destination = sample_destination\<lparr>d_path := ''/b'', d_keep := 2\<rparr>"

definition run_config :: config where
  "run_config = sample_config\<lparr>c_destinations := [run_destination]\<rparr>"

definition run_world :: "unit world" where
  "run_world = sample_world\<lparr>w_clock := (\<lambda>_. 0)\<rparr>"

theorem store_tries_destinations_witness:
  "length [\<lparr>do_name = ''a'', do_stored = True, do_error = []\<rparr>] = length (c_destinations run_config)"
proof -
  let ?s = "store_to_destinations no_exec run_config (c_destinations run_config) [''/'', ''w'', ''g1''] ''g1'' run_world"
  have "fst ?s = Inr [\<lparr>do_name = ''a'', do_stored = True, do_error = []\<rparr>]"
    by code_simp
  then have "?s = (Inr [\<lparr>do_name = ''a'', do_stored = True, do_error = []\<rparr>], snd ?s)"
    by (simp add: prod_eq_iff)
  from store_tries_destinations [OF this] show ?thesis
    by (simp add: run_config_def sample_config_def default_transfer_def)
qed

text \<open>mariabackup is not installed: the run ends with 6 and no destination was tried.\<close>

theorem run_exit_code_witness:
  "\<exists>s w'. run_pipeline no_exec ''h'' run_config (Some (utc 0)) run_world = (Inr s, w') \<and>
     rn_exit_code s = BACKUP_FAILED \<and> rn_outcomes s = []"
proof -
  let ?r = "run_pipeline no_exec ''h'' run_config (Some (utc 0)) run_world"
  have c: "(case fst ?r of Inl _ \<Rightarrow> False | Inr s \<Rightarrow> rn_exit_code s = BACKUP_FAILED)"
    by code_simp
  then obtain s w' where r: "?r = (Inr s, w')" and e: "rn_exit_code s = BACKUP_FAILED"
    by (cases ?r; cases "fst ?r") auto
  from run_exit_code [OF r] e have "rn_outcomes s = []" by simp
  with r e show ?thesis by blast
qed

end
