(* ===== verification/Run_Durable.thy ===== *)
theory Run_Durable
  imports Run_Correct
begin

text \<open>
  A finished backup is not lost. From the moment the manifest is written, and until the run
  is over, the work directory holds the generation or one of the local destinations holds
  its complete copy: through the stores, the removal of the work directory, the hooks and
  the purges, whatever call fails and wherever the process dies.
\<close>

subsection \<open>The purge spares the id in progress\<close>

lemma in_progress_spared:
  assumes "select_purge stored keep gh now (Some i) = Inr plan" "1 \<le> keep"
    and "distinct (map sb_id (filter sb_complete stored))" "\<forall>b \<in> set stored. sb_complete b \<longrightarrow> sb_id b \<le> i"
  shows "i \<notin> set (pp_delete plan)"
proof
  assume "i \<in> set (pp_delete plan)"
  obtain g where d: "pp_delete plan = map sb_id (py_drop keep (complete_sorted stored))
       @ map sb_id (filter (\<lambda>b. \<not> protected g now (Some i) b) (incompletes stored))"
    by (rule select_purge_Inr [OF assms(1)])
  with \<open>i \<in> set (pp_delete plan)\<close> obtain x where x: "x \<in> set (py_drop keep (complete_sorted stored))" "sb_id x = i"
    by (auto simp: protected_def)
  let ?cs = "complete_sorted stored"
  have "mset (map sb_id ?cs) = mset (map sb_id (filter sb_complete stored))"
    by (simp only: mset_map mset_complete_sorted)
  then have dis: "distinct (map sb_id ?cs)" using assms(3) by (metis mset_eq_imp_distinct_iff)
  have xs: "x \<in> set ?cs" using x(1) py_take_drop [of keep ?cs] by (metis Un_iff set_append)
  have none: "{c \<in> set ?cs. sb_id x < sb_id c} = {}"
    using assms(4) x(2) by (auto simp: not_less)
  have "card {c \<in> set ?cs. sb_id x < sb_id c} < nat keep"
    unfolding none using assms(2) by simp
  moreover have "sorted (rev (map sb_id ?cs))"
    by (simp add: complete_sorted_def sorted_py_sorted_rev)
  ultimately have "x \<in> set (take (nat keep) ?cs)"
    using in_take_iff_rank [OF _ dis xs, of "nat keep"] by simp
  then have "x \<in> set (py_take keep ?cs)"
    using assms(2) by (simp add: py_take_def)
  with x(1) take_drop_disjoint [of ?cs x keep] dis show False
    by (simp add: distinct_map)
qed

lemma complete_listing:
  assumes "local_list_backups d w = (Inr bs, w')" "wf_tree (w_fs w)"
  shows "distinct (map sb_id (filter sb_complete bs))"
    and "b \<in> set bs \<Longrightarrow> sb_complete b \<Longrightarrow> local_holds d (w_fs w) (sb_id b) \<noteq> None"
proof -
  have m: "map id_status bs = generations (w_fs w) (ld_path d)"
    using local_list_backups_post [OF assms(1)] by simp
  have "map sb_id (filter sb_complete bs) = map fst (filter snd (map id_status bs))"
    by (induction bs) auto
  also have "\<dots> = map fst (filter snd (generations (w_fs w) (ld_path d)))"
    by (simp only: m)
  also have "\<dots> = filter (\<lambda>n. is_dir_at (w_fs w) (ld_path d @ [n]) \<and> \<not> ends_with partial_suffix n
      \<and> complete_at (ld_path d) n (w_fs w)) (names_at (w_fs w) (ld_path d))"
  proof -
    have "map fst (filter snd (concat (map (entry_generation (w_fs w) (ld_path d)) ns))) =
        filter (\<lambda>n. is_dir_at (w_fs w) (ld_path d @ [n]) \<and> \<not> ends_with partial_suffix n
          \<and> complete_at (ld_path d) n (w_fs w)) ns" for ns
      by (induction ns) (auto simp: entry_generation_def)
    then show ?thesis by (simp add: generations_def)
  qed
  finally show "distinct (map sb_id (filter sb_complete bs))"
    using distinct_names_at [OF assms(2)] by simp
  show "local_holds d (w_fs w) (sb_id b) \<noteq> None" if "b \<in> set bs" "sb_complete b"
    using local_list_exact [OF assms(1)] that by blast
qed

subsection \<open>Destinations side by side\<close>

text \<open>Two local destinations are the same directory or lie apart.\<close>

definition spread :: "local_destination set \<Rightarrow> bool" where
  "spread ds \<longleftrightarrow> (\<forall>d \<in> ds. \<forall>d' \<in> ds. ld_path d = ld_path d' \<or> apart (ld_path d) (ld_path d'))"

lemma same_directory:
  assumes "ld_path d = ld_path d'"
  shows "local_holds d = local_holds d'" "local_ok d = local_ok d'"
  using assms by (simp_all add: fun_eq_iff local_holds_def local_ok_def)

lemma same_entries:
  assumes "\<And>j. lookup_tree f' (ld_path d @ [j]) = lookup_tree f (ld_path d @ [j])"
  shows "local_holds d f' = local_holds d f" "wf_tree f' \<Longrightarrow> local_ok d f \<Longrightarrow> local_ok d f'"
proof -
  have "is_file_at f' (ld_path d @ [j, meta_filename]) = is_file_at f (ld_path d @ [j, meta_filename])" for j
    using assms [of j] lookup_append [of _ "ld_path d @ [j]" "[meta_filename]"] by (simp add: is_file_at_def)
  with assms show "local_holds d f' = local_holds d f"
    by (simp add: fun_eq_iff local_holds_def complete_at_def)
  show "wf_tree f' \<Longrightarrow> local_ok d f \<Longrightarrow> local_ok d f'"
    using assms by (simp add: local_ok_def exists_at_def)
qed

lemma store_elsewhere:
  assumes "apart (ld_path d) (ld_path d')" "plain i" "wf_tree (w_fs w)"
  shows "lookup_tree (w_fs (snd (local_store d src i w))) (ld_path d' @ [j]) = lookup_tree (w_fs w) (ld_path d' @ [j])"
    "wf_tree (w_fs (snd (local_store d src i w)))"
proof -
  have a: "apart (ld_path d @ r) (ld_path d' @ [j])" for r
    by (rule apart_below [OF assms(1)])
  have "\<not> is_prefix (ld_path d' @ [j]) (ld_path d)"
    using a [of "[]"] by (simp add: apart_def)
  from local_store_outside [OF assms(2,3) a a this, of src]
  show "lookup_tree (w_fs (snd (local_store d src i w))) (ld_path d' @ [j]) = lookup_tree (w_fs w) (ld_path d' @ [j])"
    "wf_tree (w_fs (snd (local_store d src i w)))" by simp_all
qed

lemma delete_elsewhere:
  assumes "apart (ld_path d) (ld_path d')" "plain i" "wf_tree (w_fs w)"
  shows "lookup_tree (w_fs (snd (local_delete d i w))) (ld_path d' @ [j]) = lookup_tree (w_fs w) (ld_path d' @ [j])"
    "wf_tree (w_fs (snd (local_delete d i w)))"
proof -
  have a: "apart (ld_path d @ r) (ld_path d' @ [j])" for r
    by (rule apart_below [OF assms(1)])
  let ?I = "\<lambda>f. lookup_tree f (ld_path d' @ [j]) = lookup_tree (w_fs w) (ld_path d' @ [j]) \<and> wf_tree f"
  have "fs_keeps ?I (local_delete d i)"
    by (rule keeps_local_delete [OF assms(2)]) (intro frames a)+
  from keepsD [OF this, of w] assms(3)
  show "lookup_tree (w_fs (snd (local_delete d i w))) (ld_path d' @ [j]) = lookup_tree (w_fs w) (ld_path d' @ [j])"
    "wf_tree (w_fs (snd (local_delete d i w)))" by simp_all
qed

subsection \<open>The invariant of a run\<close>

text \<open>
  \<open>i\<close> is the id of the run and \<open>c\<close> its whole copy: no destination has a newer complete
  generation, and none has anything else complete under the id. \<open>held\<close>: the destinations
  that already have the copy.
\<close>

definition run_inv :: "local_destination set \<Rightarrow> string \<Rightarrow> ftree \<Rightarrow> ftree \<Rightarrow> bool" where
  "run_inv ds i c f \<longleftrightarrow> (\<forall>d \<in> ds. local_ok d f \<and> (\<forall>j. local_holds d f j \<noteq> None \<longrightarrow> j \<le> i) \<and>
     (local_holds d f i = None \<or> local_holds d f i = Some c))"

definition held :: "local_destination set \<Rightarrow> string \<Rightarrow> ftree \<Rightarrow> ftree \<Rightarrow> bool" where
  "held ds i c f \<longleftrightarrow> (\<forall>d \<in> ds. local_holds d f i = Some c)"

lemma run_inv_wf: "run_inv ds i c f \<Longrightarrow> d \<in> ds \<Longrightarrow> wf_tree f"
  by (auto simp: run_inv_def local_ok_def)

text \<open>What happens apart from the destinations.\<close>

lemma stable_run_inv:
  assumes "\<forall>d \<in> ds. apart p (ld_path d)" "K \<subseteq> ds"
  shows "stable p (\<lambda>f. run_inv ds i c f \<and> held K i c f)"
  unfolding stable_def
proof (intro allI impI)
  fix f q and x :: "ftree option"
  assume q: "is_prefix p q" and I: "run_inv ds i c f \<and> held K i c f" and x: "\<forall>t. x = Some t \<longrightarrow> wf_tree t"
  have "lookup_tree (alter q x f) (ld_path d @ [j]) = lookup_tree f (ld_path d @ [j])" if "d \<in> ds" for d j
  proof -
    have "apart q (ld_path d)" using assms(1) q that apart_mono by blast
    then show ?thesis using apart_below [of q "ld_path d" "[]" "[j]"] lookup_alter_apart by simp
  qed
  then have same: "local_holds d (alter q x f) = local_holds d f"
    "wf_tree (alter q x f) \<Longrightarrow> local_ok d f \<Longrightarrow> local_ok d (alter q x f)" if "d \<in> ds" for d
    using that same_entries [of "alter q x f" d f] by blast+
  have "wf_tree (alter q x f)" if "d \<in> ds" for d
    using wf_tree_alter run_inv_wf [OF conjunct1 [OF I] that] x by blast
  with same I assms(2) show "run_inv ds i c (alter q x f) \<and> held K i c (alter q x f)"
    unfolding run_inv_def held_def by (metis subsetD)
qed

text \<open>One operation at \<open>d\<close>, seen from every destination.\<close>

lemma run_inv_step:
  assumes "spread ds" "d \<in> ds" "run_inv ds i c f" "K \<subseteq> ds" "held K i c f"
    and "\<And>(d' :: local_destination) j. apart (ld_path d) (ld_path d') \<Longrightarrow> lookup_tree f' (ld_path d' @ [j]) = lookup_tree f (ld_path d' @ [j])"
    and "local_ok d f'" "\<And>j. local_holds d f' j \<noteq> None \<Longrightarrow> j \<le> i"
    and "local_holds d f' i = Some c \<or> local_holds d f' i = local_holds d f i"
  shows "run_inv ds i c f' \<and> held K i c f'"
proof -
  have wf: "wf_tree f'" using assms(7) by (simp add: local_ok_def)
  have one: "local_ok d' f' \<and> (\<forall>j. local_holds d' f' j \<noteq> None \<longrightarrow> j \<le> i) \<and>
     (local_holds d' f' i = Some c \<or> local_holds d' f' i = local_holds d' f i)" if "d' \<in> ds" for d'
  proof (cases "ld_path d = ld_path d'")
    case True
    then show ?thesis using same_directory [OF True] assms(7-9) by simp
  next
    case False
    then have a: "apart (ld_path d) (ld_path d')" using assms(1,2) that by (auto simp: spread_def)
    have "local_holds d' f' = local_holds d' f" "local_ok d' f'"
      using same_entries [of f' d' f] assms(3) assms(6) [OF a] wf that by (auto simp: run_inv_def)
    then show ?thesis using assms(3) that by (simp add: run_inv_def)
  qed
  have "run_inv ds i c f'"
    unfolding run_inv_def using one assms(3) unfolding run_inv_def by metis
  moreover have "held K i c f'"
    unfolding held_def using one assms(4,5) unfolding held_def by (metis subsetD)
  ultimately show ?thesis by simp
qed

text \<open>Deleting another id.\<close>

lemma delete_keeps_run:
  assumes "spread ds" "d \<in> ds" "K \<subseteq> ds" "valid_id x" "x \<noteq> i"
  shows "fs_keeps (\<lambda>f. run_inv ds i c f \<and> held K i c f) (local_delete d x)"
proof (rule tripleI)
  fix w :: "'a world" assume "run_inv ds i c (w_fs w) \<and> held K i c (w_fs w)"
  then have I: "run_inv ds i c (w_fs w)" and H: "held K i c (w_fs w)" by simp_all
  let ?f = "w_fs (snd (local_delete d x w))"
  have ok: "local_ok d (w_fs w)" and new: "\<And>j. local_holds d (w_fs w) j \<noteq> None \<Longrightarrow> j \<le> i"
    using I assms(2) by (auto simp: run_inv_def)
  have p: "plain x" using assms(4) by (simp add: valid_id_def)
  have "run_inv ds i c ?f \<and> held K i c ?f"
  proof (rule run_inv_step [OF assms(1,2) I assms(3) H])
    show "local_ok d ?f" by (rule local_ok_delete [OF ok])
    show "j \<le> i" if "local_holds d ?f j \<noteq> None" for j
      using that new [of j] local_delete_no_new [of d w j x] by argo
    show "local_holds d ?f i = Some c \<or> local_holds d ?f i = local_holds d (w_fs w) i"
      using local_delete_others [OF assms(4), of i d w] local_delete_no_new [of d w i x] assms(5) by metis
    show "lookup_tree ?f (ld_path d' @ [j]) = lookup_tree (w_fs w) (ld_path d' @ [j])"
      if "apart (ld_path d) (ld_path d')" for d' :: local_destination and j
      by (rule delete_elsewhere [OF that p]) (rule run_inv_wf [OF I assms(2)])
  qed
  then show "case local_delete d x w of (Inl e, w') \<Rightarrow> run_inv ds i c (w_fs w') \<and> held K i c (w_fs w')
    | (Inr y, w') \<Rightarrow> run_inv ds i c (w_fs w') \<and> held K i c (w_fs w')"
    by (auto split: prod.split sum.split)
qed

text \<open>Storing the generation of the run.\<close>

lemma store_holds_others:
  assumes "plain i" "wf_tree (w_fs w)" "j \<noteq> i"
  shows "local_holds d (w_fs (snd (local_store d src i w))) j = local_holds d (w_fs w) j"
proof (cases "ends_with partial_suffix j")
  case True
  then show ?thesis by (simp add: local_holds_def)
next
  case False
  then have "lookup_tree (w_fs (snd (local_store d src i w))) (ld_path d @ [j]) = lookup_tree (w_fs w) (ld_path d @ [j])"
    using assms not_partial [OF False, of i]
    by (intro conjunct1 [OF local_store_outside]) (auto simp: is_prefix_iff)
  then show ?thesis
    by (simp add: local_holds_def complete_at_def is_file_at_def
        lookup_append [of _ "ld_path d @ [j]" "[meta_filename]", simplified])
qed

lemma apart_separate: "apart (ld_path d) src \<Longrightarrow> separate d src i"
  using apart_below [of "ld_path d" src "[i @ partial_suffix]" "[]"] by (simp add: separate_def apart_def)

lemma store_holds_id:
  assumes "local_store d src i w = (r, w')" "local_storable i" "local_ok d (w_fs w)" "apart (ld_path d) src"
    and "lookup_tree (w_fs w) src = Some (FDir es)" "is_file_at (w_fs w) (src @ [meta_filename])"
    and "local_holds d (w_fs w) i = None \<or> local_holds d (w_fs w) i = Some c" "c = stored_tree (FDir es)"
  shows "local_holds d (w_fs w') i = (if r = Inr () then Some c else local_holds d (w_fs w) i)"
proof -
  have p: "plain i" and np: "\<not> ends_with partial_suffix i"
    using assms(2) by (simp_all add: local_storable_def valid_id_def)
  show ?thesis
  proof (cases "complete_at (ld_path d) i (w_fs w)")
    case True
    then have "local_holds d (w_fs w) i \<noteq> None" using np by (simp add: local_holds_simps)
    with assms(7) have h: "local_holds d (w_fs w) i = Some c" by simp
    have "w_fs w' = w_fs w" using local_store_done(1) [OF p True, of src] assms(1) by simp
    with h show ?thesis by simp
  next
    case False
    have "before_commit d src i es (lookup_tree (w_fs w) (ld_path d @ [i])) (w_fs w) \<and> \<not> complete_at (ld_path d) i (w_fs w)"
      using False assms(3,5) by (simp add: before_commit_def local_ok_def)
    from tripleD [OF local_store_result [OF apart_separate [OF assms(4)] p] this assms(1)]
    have l: "lookup_tree (w_fs w') (ld_path d @ [i]) =
        (if r = Inr () then Some c else lookup_tree (w_fs w) (ld_path d @ [i]))"
      using assms(8) by (cases r) auto
    show ?thesis
    proof (cases "r = Inr ()")
      case True
      have "local_holds d (w_fs w') i \<noteq> None"
        using local_store_commits [OF assms(3,2) _ assms(1) [unfolded True]] assms(4,6) apart_separate
        by (simp add: local_readable_def)
      with l True show ?thesis by (auto simp: local_holds_def split: if_splits)
    next
      case False
      with l show ?thesis
        by (simp add: local_holds_def complete_at_def is_file_at_def
          lookup_append [of _ "ld_path d @ [i]" "[meta_filename]", simplified])
    qed
  qed
qed

subsection \<open>The steps of a run keep it\<close>

text \<open>A program that leaves the file tree of this host alone.\<close>

definition exec_readonly :: "'e exec \<Rightarrow> bool" where
  "exec_readonly exec \<longleftrightarrow> (\<forall>argv stdin timeout h. fst (snd (snd (exec argv stdin timeout h))) = fst (snd h))"

lemma readonly_keeps: "exec_readonly exec \<Longrightarrow> exec_keeps exec I"
  by (simp add: exec_readonly_def exec_keeps_def)

lemma keeps_run_hook [frames]: "exec_keeps exec I \<Longrightarrow> fs_keeps I (run_hook exec command stdin_data fail_fast)"
  unfolding run_hook_def handle_failure_def
  by (auto intro!: keeps_except_else keeps_run_process keeps_sq keeps_do_when triples split: sum.split)

lemma keeps_finish_run [frames]: "exec_keeps exec I \<Longrightarrow> fs_keeps I (finish_run exec summary config)"
  unfolding finish_run_def by (intro keeps_sq keeps_run_hook triples)

definition source_and :: "path \<Rightarrow> (string \<times> ftree) list \<Rightarrow> (ftree \<Rightarrow> bool) \<Rightarrow> ftree \<Rightarrow> bool" where
  "source_and src es I f \<longleftrightarrow> lookup_tree f src = Some (FDir es) \<and> I f"

lemma store_step:
  assumes "spread ds" "d \<in> ds" "apart (ld_path d) src" "local_storable i" "K \<subseteq> ds"
    and "c = stored_tree (FDir es)" "map_of es meta_filename = Some (FFile m)"
  shows "triple (\<lambda>w. source_and src es (\<lambda>f. run_inv ds i c f \<and> held K i c f) (w_fs w)) (local_store d src i)
    (\<lambda>_ w. source_and src es (\<lambda>f. run_inv ds i c f \<and> held (insert d K) i c f) (w_fs w))
    (\<lambda>_ w. source_and src es (\<lambda>f. run_inv ds i c f \<and> held K i c f) (w_fs w))"
proof (rule tripleI)
  fix w :: "'a world" assume "source_and src es (\<lambda>f. run_inv ds i c f \<and> held K i c f) (w_fs w)"
  then have l: "lookup_tree (w_fs w) src = Some (FDir es)" and I: "run_inv ds i c (w_fs w)" and H: "held K i c (w_fs w)"
    by (simp_all add: source_and_def)
  obtain r w' where s: "local_store d src i w = (r, w')" by fastforce
  have w': "w' = snd (local_store d src i w)" using s by simp
  have wf: "wf_tree (w_fs w)" by (rule run_inv_wf [OF I assms(2)])
  have p: "plain i" using assms(4) by (simp add: local_storable_def valid_id_def)
  have ok: "local_ok d (w_fs w)" and new: "\<And>j. local_holds d (w_fs w) j \<noteq> None \<Longrightarrow> j \<le> i"
    and h: "local_holds d (w_fs w) i = None \<or> local_holds d (w_fs w) i = Some c"
    using I assms(2) by (auto simp: run_inv_def)
  have f: "is_file_at (w_fs w) (src @ [meta_filename])"
    using l assms(7) by (simp add: is_file_at_conv lookup_snoc)
  have src: "lookup_tree (w_fs w') src = Some (FDir es)"
  proof -
    have "apart (ld_path d @ q) src" for q using apart_below [OF assms(3), of q "[]"] by simp
    moreover have "\<not> is_prefix src (ld_path d)" using assms(3) by (simp add: apart_def)
    ultimately show ?thesis using local_store_outside [OF p wf, of d src src] l w' by simp
  qed
  have id: "local_holds d (w_fs w') i = (if r = Inr () then Some c else local_holds d (w_fs w) i)"
    by (rule store_holds_id [OF s assms(4) ok assms(3) l f h assms(6)])
  have "run_inv ds i c (w_fs w') \<and> held K i c (w_fs w')"
  proof (rule run_inv_step [OF assms(1,2) I assms(5) H])
    show "local_ok d (w_fs w')" unfolding w' by (rule local_ok_store [OF ok assms(4)])
    show "j \<le> i" if "local_holds d (w_fs w') j \<noteq> None" for j
      using that new [of j] store_holds_others [OF p wf, of j d src] w' by (cases "j = i") auto
    show "local_holds d (w_fs w') i = Some c \<or> local_holds d (w_fs w') i = local_holds d (w_fs w) i"
      using id by simp
    show "lookup_tree (w_fs w') (ld_path d' @ [j]) = lookup_tree (w_fs w) (ld_path d' @ [j])"
      if "apart (ld_path d) (ld_path d')" for d' :: local_destination and j
      unfolding w' by (rule store_elsewhere [OF that p wf])
  qed
  with s src id show "case local_store d src i w of
      (Inl e, w') \<Rightarrow> source_and src es (\<lambda>f. run_inv ds i c f \<and> held K i c f) (w_fs w')
    | (Inr y, w') \<Rightarrow> source_and src es (\<lambda>f. run_inv ds i c f \<and> held (insert d K) i c f) (w_fs w')"
    by (auto simp: source_and_def held_def split: sum.split)
qed

lemma purge_one_keeps_run:
  assumes "spread ds" "d_type dc = ''local''" "configured config dc \<in> ds" "1 \<le> d_keep dc" "K \<subseteq> ds"
  shows "fs_keeps (\<lambda>f. run_inv ds i c f \<and> held K i c f) (purge_one_destination exec config dc now False (Some i))"
proof -
  let ?d = "configured config dc"
  let ?I = "\<lambda>w. run_inv ds i c (w_fs w) \<and> held K i c (w_fs w)"
  let ?L = "\<lambda>bs. distinct (map sb_id (filter sb_complete bs)) \<and> (\<forall>b \<in> set bs. sb_complete b \<longrightarrow> sb_id b \<le> i)
     \<and> (\<forall>b \<in> set bs. valid_id (sb_id b))"
  have list: "triple ?I (local_list_backups ?d :: ('a, stored_backup list) io) (\<lambda>bs w. ?I w \<and> ?L bs) (\<lambda>_. ?I)"
  proof (rule tripleI)
    fix w :: "'a world" assume I: "?I w"
    obtain r w' where l: "local_list_backups ?d w = (r, w')" by fastforce
    have "?I w'" using keepsD [OF keeps_local_list [of "\<lambda>f. run_inv ds i c f \<and> held K i c f" ?d] I] l by simp
    moreover have "?L bs" if "r = Inr bs" for bs
    proof -
      note lb = l [unfolded that]
      have wf: "wf_tree (w_fs w)" using run_inv_wf [OF _ assms(3)] I by blast
      have "\<forall>b \<in> set bs. sb_complete b \<longrightarrow> sb_id b \<le> i"
        using complete_listing(2) [OF lb wf] I assms(3) unfolding run_inv_def by blast
      moreover have "\<forall>b \<in> set bs. valid_id (sb_id b)"
        by (rule local_list_valid [OF _ lb]) (use I assms(3) in \<open>simp add: run_inv_def\<close>)
      ultimately show ?thesis using complete_listing(1) [OF lb wf] by blast
    qed
    ultimately show "case local_list_backups ?d w of (Inl e, w') \<Rightarrow> ?I w' | (Inr bs, w') \<Rightarrow> ?I w' \<and> ?L bs"
      using l by (auto split: sum.split)
  qed
  have loop: "keeps ?I (purge_loop (local_delete ?d) name False ids dl err)"
    if "\<forall>x \<in> set ids. valid_id x \<and> x \<noteq> i" for name ids dl err
    using that
    by (induction ids arbitrary: dl err)
       (auto intro!: keeps_bnd keeps_except keeps_sq delete_keeps_run [OF assms(1,3,5)] triples split: prod.split)
  show ?thesis
    unfolding purge_one_local [OF assms(2)] purge_destination_def
  proof (rule triple_except_else [OF list])
    fix bs
    let ?rest = "bnd (lift (select_purge bs (d_keep dc) (rt_incomplete_grace_hours (c_retention config)) now (Some i))) (\<lambda>plan.
          bnd (purge_loop (local_delete ?d) (d_name dc) False (pp_delete plan) [] False) (\<lambda>(deleted, had_error).
            ret (\<lparr>pr_name = d_name dc, pr_deleted = deleted, pr_kept = pp_keep plan, pr_error = []\<rparr>, had_error)))"
    show "triple (\<lambda>w. ?I w \<and> ?L bs) ?rest (\<lambda>_. ?I) (\<lambda>_. ?I)"
    proof (rule triple_assume)
      assume L: "?L bs"
      show "keeps ?I ?rest"
      proof (cases "select_purge bs (d_keep dc) (rt_incomplete_grace_hours (c_retention config)) now (Some i)")
        case (Inr plan)
        have "i \<notin> set (pp_delete plan)" using in_progress_spared [OF Inr assms(4)] L by blast
        moreover have "\<forall>x \<in> set (pp_delete plan). valid_id x" using plan_ids [OF Inr] L by (metis UnCI imageE)
        ultimately have "keeps ?I (purge_loop (local_delete ?d) (d_name dc) False (pp_delete plan) [] False)"
          by (intro loop) blast
        then show ?thesis by (auto simp: Inr intro!: keeps_bnd triples split: prod.split)
      qed (simp add: triple_def bnd_def lift_def)
    qed
  qed (auto intro!: keeps_sq triples)
qed

subsection \<open>The whole second half of a run\<close>

lemma store_all:
  assumes "spread ds" "\<forall>dc \<in> set dcs. d_type dc = ''local'' \<and> configured config dc \<in> ds" "K \<subseteq> ds"
    and "\<forall>d \<in> ds. apart (ld_path d) src" "local_storable i"
    and "c = stored_tree (FDir es)" "map_of es meta_filename = Some (FFile m)"
  shows "triple (\<lambda>w. source_and src es (\<lambda>f. run_inv ds i c f \<and> held K i c f) (w_fs w))
    (store_to_destinations exec config dcs src i)
    (\<lambda>os w. source_and src es (\<lambda>f. run_inv ds i c f \<and> held K i c f) (w_fs w) \<and>
       ((\<exists>o' \<in> set os. do_stored o') \<longrightarrow> (\<exists>d \<in> ds. held {d} i c (w_fs w))))
    (\<lambda>_ w. source_and src es (\<lambda>f. run_inv ds i c f \<and> held {} i c f) (w_fs w))"
  using assms(2,3)
proof (induction dcs arbitrary: K)
  case Nil
  show ?case by (auto intro: triple_ret)
next
  case (Cons dc dcs)
  let ?S = "\<lambda>K w. source_and src es (\<lambda>f. run_inv ds i c f \<and> held K i c f) (w_fs w)"
  let ?d = "configured config dc"
  let ?post = "\<lambda>os w. ?S K w \<and> ((\<exists>o' \<in> set os. do_stored o') \<longrightarrow> (\<exists>d \<in> ds. held {d} i c (w_fs w)))"
  have d: "d_type dc = ''local''" "?d \<in> ds" "insert ?d K \<subseteq> ds" using Cons.prems by auto
  have one: "triple (?S K) (local_store ?d src i) (\<lambda>_. ?S (insert ?d K)) (\<lambda>_. ?S K)"
    by (rule store_step [OF assms(1) d(2) _ assms(5) Cons.prems(2) assms(6,7)]) (use assms(4) d(2) in blast)
  have weak: "?S K w \<Longrightarrow> ?S {} w" for K and w :: "'a world" by (simp add: source_and_def held_def)
  have ih: "triple (?S K') (store_to_destinations exec config dcs src i)
      (\<lambda>os w. ?S K' w \<and> ((\<exists>o' \<in> set os. do_stored o') \<longrightarrow> (\<exists>d \<in> ds. held {d} i c (w_fs w)))) (\<lambda>_. ?S {})"
    if "K' \<subseteq> ds" for K'
    by (rule Cons.IH) (use Cons.prems(1) that in auto)
  have stored: "triple (?S (insert ?d K)) (bnd (store_to_destinations exec config dcs src i)
      (\<lambda>os. ret (\<lparr>do_name = d_name dc, do_stored = True, do_error = []\<rparr> # os))) ?post (\<lambda>_. ?S {})"
    by (rule triple_bnd [OF ih [OF d(3)]], rule triple_ret) (use d(2) in \<open>auto simp: source_and_def held_def\<close>)
  have failed: "triple (?S K) (if stop then ret [\<lparr>do_name = d_name dc, do_stored = False, do_error = msg\<rparr>]
      else bnd (store_to_destinations exec config dcs src i) (\<lambda>os.
        ret (\<lparr>do_name = d_name dc, do_stored = False, do_error = msg\<rparr> # os))) ?post (\<lambda>_. ?S {})" for stop msg
    by (cases stop) (auto intro!: triple_ret triple_bnd [OF ih [OF Cons.prems(2)]])
  have log: "triple (?S K) (log_msg l msg) (\<lambda>_. ?S K) (\<lambda>_. ?S {})" for K l msg
    by (auto simp: triple_def log_msg_def)
  show ?case
    unfolding store_to_destinations.simps build_local [OF d(1)] bnd_lift_Inr local_operations Let_def
    by (rule triple_except_else [OF one])
       (rule triple_sq [OF log failed] triple_sq [OF log stored] weak; assumption?)+
qed

lemma purge_stored_keeps_run:
  assumes "spread ds" "K \<subseteq> ds"
    and "\<forall>dc \<in> set (c_destinations config). d_type dc = ''local'' \<and> configured config dc \<in> ds \<and> 1 \<le> d_keep dc"
  shows "fs_keeps (\<lambda>f. run_inv ds i c f \<and> held K i c f) (purge_stored_destinations exec config os i now err)"
proof (induction os arbitrary: err)
  case (Cons o' os)
  have "dc \<in> set (c_destinations config)" if "destination_by_name config (do_name o') = Some dc" for dc
    using map_of_SomeD [OF that [unfolded destination_by_name_def]] by auto
  with Cons assms(3) show ?case
    by (auto split: option.split intro!: keeps_raise keeps_bnd purge_one_keeps_run [OF assms(1) _ _ _ assms(2)])
qed (simp add: keeps_ret)

lemma triple_always: "triple P m (\<lambda>_. R) (\<lambda>_. R) \<Longrightarrow> P w \<Longrightarrow> R (snd (m w))"
  by (cases "m w"; cases "fst (m w)") (fastforce simp: triple_def)+

lemma finish_keeps_run:
  assumes "spread ds" "\<forall>dc \<in> set (c_destinations config). d_type dc = ''local'' \<and> configured config dc \<in> ds \<and> 1 \<le> d_keep dc"
    and "\<forall>d \<in> ds. apart (ld_path d) target_dir" "exec_readonly exec" "K \<subseteq> ds"
  shows "fs_keeps (\<lambda>f. run_inv ds i c f \<and> held K i c f) (purge_and_finish exec config target_dir i now os)"
proof -
  note ro = readonly_keeps [OF assms(4)]
  have st: "stable target_dir (\<lambda>f. run_inv ds i c f \<and> held K i c f)"
    by (rule stable_run_inv) (use assms(3,5) in \<open>auto intro: apart_sym\<close>)
  show ?thesis
    unfolding purge_and_finish_def Let_def
    by (intro keeps_sq keeps_bnd keeps_rmtree_ignore [OF st] keeps_run_hook [OF ro] keeps_finish_run [OF ro]
        purge_stored_keeps_run [OF assms(1,5,2)] triples) auto
qed

text \<open>
  C1. A finished backup is never lost. When every destination is a local directory that
  keeps at least one generation, apart from the others and from the work directory, the id
  is newer than every complete generation, and hook commands leave the file tree alone:
  whatever call fails and wherever the process dies between the manifest and the end of
  the run, the work directory still holds the generation, or some destination holds its
  complete copy, contents and all.
\<close>

theorem finished_backup_kept:
  assumes "\<forall>dc \<in> set (c_destinations config). d_type dc = ''local'' \<and> configured config dc \<in> ds \<and> 1 \<le> d_keep dc"
    and "c_destinations config \<noteq> []" "spread ds" "\<forall>d \<in> ds. apart (ld_path d) target_dir"
    and "exec_readonly exec" "local_storable backup_id"
    and "lookup_tree (w_fs w) target_dir = Some (FDir es)" "map_of es meta_filename = Some (FFile m)"
    and "run_inv ds backup_id (stored_tree (FDir es)) (w_fs w)"
    and "w' = snd (distribute exec config target_dir backup_id now w)"
  shows "lookup_tree (w_fs w') target_dir = Some (FDir es) \<or>
    (\<exists>d \<in> ds. local_holds d (w_fs w') backup_id = Some (stored_tree (FDir es)))"
proof -
  let ?c = "stored_tree (FDir es)"
  let ?S = "source_and target_dir es (\<lambda>f. run_inv ds backup_id ?c f \<and> held {} backup_id ?c f)"
  let ?I = "\<lambda>d f. run_inv ds backup_id ?c f \<and> held {d} backup_id ?c f"
  let ?R = "\<lambda>w. lookup_tree (w_fs w) target_dir = Some (FDir es) \<or> (\<exists>d \<in> ds. held {d} backup_id ?c (w_fs w))"
  note ro = readonly_keeps [OF assms(5)]
  have hook: "triple (\<lambda>w. ?S (w_fs w)) (run_hook exec cmd inp ff) (\<lambda>_ w. ?S (w_fs w)) (\<lambda>_. ?R)" for cmd inp ff
    by (rule triple_weaken [OF keeps_run_hook [OF ro, of ?S]]) (simp_all add: source_and_def)
  have kept: "triple (\<lambda>w. ?I d (w_fs w)) (purge_and_finish exec config target_dir backup_id now os) (\<lambda>_. ?R) (\<lambda>_. ?R)"
    if "d \<in> ds" for d os
    by (rule triple_weaken [OF finish_keeps_run [OF assms(3,1,4,5), where K = "{d}"]]) (use that in auto)
  have stores: "triple (\<lambda>w. ?S (w_fs w)) (store_to_destinations exec config (c_destinations config) target_dir backup_id)
      (\<lambda>os w. (?S (w_fs w) \<and> ((\<exists>o' \<in> set os. do_stored o') \<longrightarrow> (\<exists>d \<in> ds. held {d} backup_id ?c (w_fs w)))) \<and>
        outcomes_of (t_on_destination_failure (c_transfer config) = ''abort'') (c_destinations config) os) (\<lambda>_. ?R)"
    by (rule triple_weaken [OF triple_conj [OF store_all [OF assms(3) _ _ assms(4,6) refl assms(8), where K = "{}"]
          store_to_destinations_outcomes]]) (use assms(1) in \<open>auto simp: source_and_def\<close>)
  have "triple (\<lambda>w. ?S (w_fs w)) (distribute exec config target_dir backup_id now) (\<lambda>_. ?R) (\<lambda>_. ?R)"
    unfolding distribute_def
  proof (rule triple_sq [OF hook], rule triple_bnd [OF stores], rule triple_assume, goal_cases)
    case (1 os)
    show ?case
    proof (cases "\<exists>o' \<in> set os. do_stored o'")
      case True
      then have "filter do_stored os \<noteq> []" by (auto simp: filter_empty_conv)
      moreover have "triple (\<lambda>w. ?S (w_fs w) \<and> ((\<exists>o' \<in> set os. do_stored o') \<longrightarrow> (\<exists>d \<in> ds. held {d} backup_id ?c (w_fs w))))
          (purge_and_finish exec config target_dir backup_id now os) (\<lambda>_. ?R) (\<lambda>_. ?R)"
      proof (rule triple_pre)
        fix w :: "'a world" assume "?S (w_fs w) \<and> ((\<exists>o' \<in> set os. do_stored o') \<longrightarrow> (\<exists>d \<in> ds. held {d} backup_id ?c (w_fs w)))"
        with True obtain d where "d \<in> ds" "?I d (w_fs w)" by (auto simp: source_and_def)
        then show "triple ((=) w) (purge_and_finish exec config target_dir backup_id now os) (\<lambda>_. ?R) (\<lambda>_. ?R)"
          by (intro triple_weaken [OF kept]) auto
      qed
      ultimately show ?thesis by simp
    next
      case False
      then have f: "filter do_stored os = []" "filter (\<lambda>o'. \<not> do_stored o') os = os"
        by (auto simp: filter_empty_conv filter_id_conv)
      have "os \<noteq> []" using 1 assms(2) by (auto simp: outcomes_of_def)
      moreover have "fs_keeps ?S (sq (log_msg l msg) (finish_run exec s config))" for l msg s
        by (intro keeps_sq keeps_finish_run [OF ro] triples) auto
      then have "triple (\<lambda>w. ?S (w_fs w) \<and> C) (sq (log_msg l msg) (finish_run exec s config)) (\<lambda>_. ?R) (\<lambda>_. ?R)" for l msg s C
        by (rule triple_weaken) (auto simp: source_and_def)
      ultimately show ?thesis unfolding f by (auto simp: triple_def)
    qed
  qed
  then have "?R w'"
    unfolding assms(10) by (rule triple_always) (use assms(7,9) in \<open>simp add: source_and_def held_def\<close>)
  then show ?thesis by (auto simp: held_def)
qed

subsection \<open>A concrete run\<close>

lemma run_destination_sel:
  "d_type run_destination = ''local''" "d_keep run_destination = 2"
  "ld_path (configured config run_destination) = [''/'', ''b'']" "c_destinations run_config = [run_destination]"
proof -
  have "path_of ''/b'' = [''/'', ''b'']" by code_simp
  then show "d_type run_destination = ''local''" "d_keep run_destination = 2"
    "ld_path (configured config run_destination) = [''/'', ''b'']" "c_destinations run_config = [run_destination]"
    by (simp_all add: run_destination_def run_config_def sample_destination_def local_from_config_def)
qed

lemma run_world_tree: "w_fs run_world = sample_fs"
  by (simp add: run_world_def sample_world_def)

lemma run_world_inv:
  "run_inv {configured run_config run_destination} ''g1'' (stored_tree (FDir sample_generation)) (w_fs run_world)"
proof -
  have n: "exists_at (w_fs run_world) ([''/'', ''b''] @ [n]) \<longleftrightarrow> n = ''g0''" for n
    by (simp add: run_world_tree sample_fs_def exists_at_def)
  have "good_name ''g0''" "wf_tree sample_fs"
    using sample_wf by (simp_all add: good_name_def valid_id_def plain_def ends_with_iff partial_suffix_def sample_world_def)
  with n have ok: "local_ok (configured run_config run_destination) (w_fs run_world)"
    by (simp add: local_ok_def run_destination_sel run_world_tree)
  have only: "local_holds (configured run_config run_destination) (w_fs run_world) j = Some t \<Longrightarrow> j = ''g0''" for j t
    using n by (auto simp: local_holds_def run_destination_sel exists_at_def split: if_splits)
  have "''g0'' \<le> ''g1''" "''g1'' \<noteq> ''g0''" by code_simp+
  with only have new: "\<forall>j. local_holds (configured run_config run_destination) (w_fs run_world) j \<noteq> None \<longrightarrow> j \<le> ''g1''"
    and none: "local_holds (configured run_config run_destination) (w_fs run_world) ''g1'' = None"
    by (metis not_None_eq)+
  show ?thesis unfolding run_inv_def using ok new none by simp
qed

theorem finished_backup_kept_witness:
  "lookup_tree (w_fs (snd (distribute no_exec run_config [''/'', ''w'', ''g1''] ''g1'' (utc 0) run_world))) [''/'', ''w'', ''g1'']
     = Some (FDir sample_generation) \<or>
   local_holds (configured run_config run_destination)
     (w_fs (snd (distribute no_exec run_config [''/'', ''w'', ''g1''] ''g1'' (utc 0) run_world))) ''g1''
     = Some (stored_tree (FDir sample_generation))"
proof -
  let ?d = "configured run_config run_destination"
  have "\<forall>dc \<in> set (c_destinations run_config). d_type dc = ''local'' \<and> configured run_config dc \<in> {?d} \<and> 1 \<le> d_keep dc"
    "c_destinations run_config \<noteq> []" "spread {?d}" "\<forall>d \<in> {?d}. apart (ld_path d) [''/'', ''w'', ''g1'']"
    "exec_readonly (no_exec :: unit exec)" "local_storable ''g1''"
    by (simp_all add: run_destination_sel spread_def apart_def exec_readonly_def no_exec_def local_storable_def
        valid_id_def plain_def ends_with_iff partial_suffix_def)
  moreover have "lookup_tree (w_fs run_world) [''/'', ''w'', ''g1''] = Some (FDir sample_generation)"
    using sample_source by (simp add: run_world_def)
  moreover have "map_of sample_generation meta_filename = Some (FFile ''m'')"
    by (simp add: sample_generation_def meta_filename_def)
  ultimately show ?thesis
    using finished_backup_kept [OF _ _ _ _ _ _ _ _ run_world_inv refl] by blast
qed

end
