(* ===== verification/Local_Refines.thy ===== *)
theory Local_Refines
  imports Run_Durable
begin

text \<open>
  A local destination as an abstract map from ids to the whole contents of their complete
  generations: the operations refine the ones on the map, a deletion that is cut off is
  where they do not.
\<close>

subsection \<open>The abstract destination\<close>

type_synonym generations_map = "string \<Rightarrow> ftree option"

definition spec_store :: "generations_map \<Rightarrow> string \<Rightarrow> ftree \<Rightarrow> generations_map" where
  "spec_store s i c = (if s i = None then s(i \<mapsto> c) else s)"

definition spec_delete :: "generations_map \<Rightarrow> string \<Rightarrow> generations_map" where
  "spec_delete s i = s(i := None)"

lemma store_refines:
  assumes "local_store d src i w = (r, w')" "local_ok d (w_fs w)" "local_storable i" "apart (ld_path d) src"
    and "lookup_tree (w_fs w) src = Some (FDir es)" "map_of es meta_filename = Some (FFile m)"
  shows "local_holds d (w_fs w') =
    (if r = Inr () then spec_store (local_holds d (w_fs w)) i (stored_tree (FDir es)) else local_holds d (w_fs w))"
proof -
  have p: "plain i" using assms(3) by (simp add: local_storable_def valid_id_def)
  have wf: "wf_tree (w_fs w)" using assms(2) by (simp add: local_ok_def)
  show ?thesis
  proof (cases "local_holds d (w_fs w) i")
    case None
    have f: "is_file_at (w_fs w) (src @ [meta_filename])"
      using assms(5,6) by (simp add: is_file_at_conv lookup_snoc)
    have "local_holds d (w_fs w') i = (if r = Inr () then Some (stored_tree (FDir es)) else local_holds d (w_fs w) i)"
      by (rule store_holds_id [OF assms(1,3,2,4,5) f _ refl]) (simp add: None)
    moreover have "local_holds d (w_fs w') j = local_holds d (w_fs w) j" if "j \<noteq> i" for j
      using store_holds_others [OF p wf that, of d src] assms(1) by simp
    ultimately have "local_holds d (w_fs w') j = (if r = Inr () then spec_store (local_holds d (w_fs w)) i
        (stored_tree (FDir es)) else local_holds d (w_fs w)) j" for j
      using None by (cases "j = i") (simp_all add: spec_store_def)
    then show ?thesis by (rule ext)
  next
    case (Some t)
    then have "complete_at (ld_path d) i (w_fs w)" by (simp add: local_holds_def split: if_splits)
    from local_store_done(1) [OF p this, of src] assms(1) have "w_fs w' = w_fs w" by simp
    with Some show ?thesis by (simp add: spec_store_def)
  qed
qed

lemma delete_refines:
  assumes "local_delete d i w = (Inr (), w')" "valid_id i"
  shows "local_holds d (w_fs w') = spec_delete (local_holds d (w_fs w)) i"
proof
  fix j
  show "local_holds d (w_fs w') j = spec_delete (local_holds d (w_fs w)) i j"
  proof (cases "j = i")
    case True
    with local_delete_gone [OF assms(2,1)] show ?thesis by (simp add: spec_delete_def)
  next
    case False
    then have "local_holds d (w_fs w') j = local_holds d (w_fs w) j"
      using local_delete_others [OF assms(2) False, of d w] local_delete_no_new [of d w j i] assms(1)
      by (cases "local_holds d (w_fs w) j") auto
    with False show ?thesis by (simp add: spec_delete_def)
  qed
qed

text \<open>
  C5. A local destination implements a map from ids to whole generations: a store that
  returns is the map's store (which leaves an id it has alone), a store that fails or dies
  leaves the map as it is, a deletion that returns is the map's deletion, and a listing that
  returns gives exactly the map's ids as complete and changes nothing.
\<close>

theorem local_refines_map:
  assumes "local_ok d (w_fs w)" "local_storable i" "apart (ld_path d) src"
    and "lookup_tree (w_fs w) src = Some (FDir es)" "map_of es meta_filename = Some (FFile m)"
  shows "local_holds d (w_fs (snd (local_store d src i w))) =
      (if fst (local_store d src i w) = Inr () then spec_store (local_holds d (w_fs w)) i (stored_tree (FDir es))
       else local_holds d (w_fs w))
    \<and> (fst (local_delete d i w) = Inr () \<longrightarrow>
       local_holds d (w_fs (snd (local_delete d i w))) = spec_delete (local_holds d (w_fs w)) i)
    \<and> (\<forall>bs. fst (local_list_backups d w) = Inr bs \<longrightarrow>
       {sb_id b | b. b \<in> set bs \<and> sb_complete b} = dom (local_holds d (w_fs w)) \<and>
       local_holds d (w_fs (snd (local_list_backups d w))) = local_holds d (w_fs w))"
proof (intro conjI allI impI)
  show "local_holds d (w_fs (snd (local_store d src i w))) =
      (if fst (local_store d src i w) = Inr () then spec_store (local_holds d (w_fs w)) i (stored_tree (FDir es))
       else local_holds d (w_fs w))"
    by (rule store_refines [OF prod.collapse [symmetric] assms])
  have v: "valid_id i" using assms(2) by (simp add: local_storable_def)
  show "local_holds d (w_fs (snd (local_delete d i w))) = spec_delete (local_holds d (w_fs w)) i"
    if "fst (local_delete d i w) = Inr ()"
    by (rule delete_refines [OF _ v]) (simp add: prod_eq_iff that)
  fix bs assume "fst (local_list_backups d w) = Inr bs"
  then have l: "local_list_backups d w = (Inr bs, snd (local_list_backups d w))" by (simp add: prod_eq_iff)
  show "{sb_id b | b. b \<in> set bs \<and> sb_complete b} = dom (local_holds d (w_fs w))"
    unfolding local_list_exact [OF l] by (auto simp: dom_def)
  show "local_holds d (w_fs (snd (local_list_backups d w))) = local_holds d (w_fs w)"
    using local_list_backups_post [OF l] by simp
qed

theorem local_refines_map_witness:
  "local_holds sample_local (w_fs (snd (local_store sample_local [''/'', ''w'', ''g1''] ''g1'' sample_world))) ''g1''
   = Some (stored_tree (FDir sample_generation))"
proof -
  have n: "exists_at (w_fs sample_world) ([''/'', ''b''] @ [n]) \<longleftrightarrow> n = ''g0''" for n
    by (simp add: sample_world_def sample_fs_def exists_at_def)
  have "good_name ''g0''"
    by (simp add: good_name_def valid_id_def plain_def ends_with_iff partial_suffix_def)
  with n have ok: "local_ok sample_local (w_fs sample_world)"
    using sample_wf by (simp add: local_ok_def sample_local_def)
  have st: "local_storable ''g1''"
    by (simp add: local_storable_def valid_id_def plain_def ends_with_iff partial_suffix_def)
  have ap: "apart (ld_path sample_local) [''/'', ''w'', ''g1'']" by (simp add: sample_local_def apart_def)
  have m: "map_of sample_generation meta_filename = Some (FFile ''m'')"
    by (simp add: sample_generation_def meta_filename_def)
  have "local_holds sample_local (w_fs sample_world) ''g1'' = None"
    using sample_complete(2) by (simp add: local_holds_def)
  with local_refines_map [OF ok st ap sample_source m] sample_store show ?thesis
    by (simp add: spec_store_def)
qed

subsection \<open>A deletion cut off\<close>

text \<open>One complete generation at \<open>/b\<close>, and the process dies at the third removal step.\<close>

definition dying_world :: "unit world" where
  "dying_world = sample_world\<lparr>w_fs := FDir [(''/'', FDir [(''b'', FDir [(''g1'', FDir sample_generation)])])],
     w_fault := (\<lambda>n. if n = 3 then Kill 0 else NoFault)\<rparr>"


end
