(* ===== verification/Calm_Runs.thy ===== *)
theory Calm_Runs
  imports Copy_Laws
begin

text \<open>
  Computations that return normally when no call fails: a calculus with a rule for each
  form of composition and each file operation, the copy and the removal of a whole tree
  included.
\<close>

subsection \<open>Computations that return\<close>

text \<open>
  A quiet world: no call fails and, when \<open>b\<close> says so, the clock and every modification time
  are dates of Python's range.
\<close>

definition quiet :: "bool \<Rightarrow> 'e world \<Rightarrow> bool" where
  "quiet b w \<longleftrightarrow> calm w \<and> (b \<longrightarrow> (\<forall>p. in_range (w_mtime w p)) \<and> (\<forall>n. in_range (w_clock w n)))"

lemma quiet_calm [simp]: "quiet False w = calm w"
  by (simp add: quiet_def)

definition fine :: "bool \<Rightarrow> (ftree \<Rightarrow> bool) \<Rightarrow> ('e, 'a) io \<Rightarrow> ('a \<Rightarrow> ftree \<Rightarrow> bool) \<Rightarrow> bool" where
  "fine b I m J \<longleftrightarrow> (\<forall>w. quiet b w \<and> I (w_fs w) \<longrightarrow> (\<exists>x w'. m w = (Inr x, w') \<and> quiet b w' \<and> J x (w_fs w')))"

lemma fine_ret: "(\<And>f. I f \<Longrightarrow> J x f) \<Longrightarrow> fine b I (ret x) J"
  by (simp add: fine_def ret_def)

lemma fine_bnd: "fine b I m R \<Longrightarrow> (\<And>x. fine b (R x) (k x) J) \<Longrightarrow> fine b I (bnd m k) J"
  unfolding fine_def bnd_def by fastforce

lemma fine_sq: "fine b I m (\<lambda>_. R) \<Longrightarrow> fine b R n J \<Longrightarrow> fine b I (sq m n) J"
  unfolding sq_def by (rule fine_bnd)

lemma fine_except: "fine b I m J \<Longrightarrow> fine b I (except m c h) J"
  unfolding fine_def except_def by fastforce

lemma fine_except_else: "fine b I m R \<Longrightarrow> (\<And>x. fine b (R x) (k x) J) \<Longrightarrow> fine b I (except_else m c h k) J"
  unfolding fine_def except_else_def by fastforce

lemma fine_weaken: "fine b I' m J' \<Longrightarrow> (\<And>f. I f \<Longrightarrow> I' f) \<Longrightarrow> (\<And>x f. J' x f \<Longrightarrow> J x f) \<Longrightarrow> fine b I m J"
  unfolding fine_def by meson

lemma fine_assume: "(C \<Longrightarrow> fine b I m J) \<Longrightarrow> fine b (\<lambda>f. I f \<and> C) m J"
  by (auto simp: fine_def)

lemma fine_False: "fine b (\<lambda>_. False) m J"
  by (simp add: fine_def)

lemma quiet_tick [simp]: "quiet b (tick w) = quiet b w"
  by (simp add: quiet_def tick_def calm_def)

lemma fine_sys_torn:
  fixes act :: "'e world \<Rightarrow> (exn + 'a) \<times> 'e world"
  assumes "\<And>w :: 'e world. quiet b w \<Longrightarrow> I (w_fs w) \<Longrightarrow> \<exists>x w'. act w = (Inr x, w') \<and> quiet b w' \<and> J x (w_fs w')"
  shows "fine b I (sys_torn act torn) J"
  unfolding fine_def
proof (intro allI impI)
  fix w :: "'e world" assume w: "quiet b w \<and> I (w_fs w)"
  then have "quiet b (tick w)" "I (w_fs (tick w))" by simp_all
  from assms [OF this] w show "\<exists>x w'. sys_torn act torn w = (Inr x, w') \<and> quiet b w' \<and> J x (w_fs w')"
    by (auto simp: sys_torn_def quiet_def calm_def)
qed

lemma fine_read: "(\<And>w. quiet b w \<Longrightarrow> I (w_fs w) \<Longrightarrow> \<exists>x. g w = Inr x \<and> J x (w_fs w)) \<Longrightarrow> fine b I (read_sys g) J"
  unfolding read_sys_def sys_def by (rule fine_sys_torn) auto

lemma fine_and: "fine b I m J \<Longrightarrow> triple (\<lambda>w. K (w_fs w)) m (\<lambda>x w. R x (w_fs w)) (\<lambda>_ _. True) \<Longrightarrow>
   fine b (\<lambda>f. I f \<and> K f) m (\<lambda>x f. J x f \<and> R x f)"
  unfolding fine_def triple_def by fastforce

lemma fine_frame: "fine b I m J \<Longrightarrow> fs_keeps K m \<Longrightarrow> fine b (\<lambda>f. I f \<and> K f) m (\<lambda>x f. J x f \<and> K f)"
  unfolding fine_def triple_def by fastforce

subsection \<open>The file operations\<close>

lemma quiet_alter [simp]:
  "quiet b w \<Longrightarrow> quiet b (set_at p x w)" "quiet b w \<Longrightarrow> quiet b (set_contents p s w)" "quiet b w \<Longrightarrow> quiet b (move_tree p q t w)"
  "quiet b w \<Longrightarrow> quiet b (w\<lparr>w_mtime := (w_mtime w)(p := w_mtime w q)\<rparr>)"
  by (auto simp: quiet_def calm_def set_at_def set_contents_def move_tree_def the_clock_def)

lemma fine_tests:
  "fine b I (path_is_dir p) (\<lambda>b f. I f \<and> b = is_dir_at f p)" "fine b I (path_is_file p) (\<lambda>b f. I f \<and> b = is_file_at f p)"
  "fine b I (path_exists p) (\<lambda>b f. I f \<and> b = exists_at f p)"
  unfolding path_is_dir_def path_is_file_def path_exists_def by (rule fine_read; simp)+

lemma fine_copystat: "fine b I (copystat p q) (\<lambda>_. I)"
  unfolding copystat_def sys_def by (rule fine_sys_torn) simp

lemma fine_write_new:
  "fine b (\<lambda>f. \<not> exists_at f (p @ [c]) \<and> is_dir_at f p) (write_text (p @ [c]) s) (\<lambda>_ _. True)"
  unfolding write_text_def open_write_def write_data_def sys_def
  by (rule fine_sq [where R = "\<lambda>_. True"]; rule fine_sys_torn) (simp_all add: exists_at_iff)

lemma fine_copy_file:
  "fine b (\<lambda>f. \<not> exists_at f (p @ [c]) \<and> is_dir_at f p) (copy_file src s (p @ [c])) (\<lambda>_ _. True)"
  unfolding copy_file_def
  by (rule fine_sq, rule fine_read [where J = "\<lambda>_ f. \<not> exists_at f (p @ [c]) \<and> is_dir_at f p"], simp,
      rule fine_sq [OF fine_write_new fine_copystat])

lemma fine_copy2:
  "fine b (\<lambda>f. is_file_at f src \<and> \<not> exists_at f (p @ [c]) \<and> is_dir_at f p) (copy2 src (p @ [c])) (\<lambda>_ _. True)"
  unfolding copy2_def
  by (rule fine_bnd [where R = "\<lambda>_ f. \<not> exists_at f (p @ [c]) \<and> is_dir_at f p"],
      unfold read_file_def, rule fine_read)
     (auto simp: is_file_at_conv intro!: fine_sq [OF fine_write_new fine_copystat])

lemma fine_makedirs:
  "fine b (\<lambda>f. \<not> exists_at f (p @ [c]) \<and> is_dir_at f p) (os_makedirs (p @ [c]))
     (\<lambda>_ f. lookup_tree f (p @ [c]) = Some (FDir []))"
proof -
  have new: "fine b (\<lambda>f. \<not> exists_at f (p @ [c]) \<and> is_dir_at f p) (os_mkdir_new (p @ [c]))
      (\<lambda>_ f. lookup_tree f (p @ [c]) = Some (FDir []))"
    unfolding os_mkdir_new_def
  proof (rule fine_bnd)
    show "fine b (\<lambda>f. \<not> exists_at f (p @ [c]) \<and> is_dir_at f p) (os_mkdir (p @ [c]))
        (\<lambda>r f. lookup_tree f (p @ [c]) = Some (FDir []) \<and> r = Created)"
      unfolding os_mkdir_def sys_def by (rule fine_sys_torn) (simp add: lookup_alter_same)
    show "fine b (\<lambda>f. lookup_tree f (p @ [c]) = Some (FDir []) \<and> r = Created)
        (case r of Created \<Rightarrow> ret () | Already_There \<Rightarrow> raise file_exists | Parent_Missing \<Rightarrow> raise no_such_file)
        (\<lambda>_ f. lookup_tree f (p @ [c]) = Some (FDir []))" for r
      by (rule fine_assume) (simp add: fine_ret)
  qed
  show ?thesis
  proof (cases "p = []")
    case True
    with new show ?thesis by (simp add: os_makedirs_def)
  next
    case False
    then have eq: "os_makedirs (p @ [c]) = bnd (os_path_exists p) (\<lambda>h.
        sq (do_when (\<not> h) (except (makedirs_rev (rev p)) (\<lambda>e. e = file_exists) (\<lambda>_. ret ()))) (os_mkdir_new (p @ [c])))"
      by (simp add: os_makedirs_def Let_def)
    have ex: "fine b (\<lambda>f. \<not> exists_at f (p @ [c]) \<and> is_dir_at f p) (os_path_exists p)
        (\<lambda>h f. (\<not> exists_at f (p @ [c]) \<and> is_dir_at f p) \<and> h = True)"
      unfolding os_path_exists_def
      by (rule fine_except, rule fine_weaken [OF fine_tests(3)]) (auto simp: exists_at_iff)
    show ?thesis unfolding eq
      by (rule fine_bnd [OF ex], rule fine_assume)
         (auto simp: do_when_def intro!: fine_sq [OF fine_ret new])
  qed
qed

subsection \<open>Copying a tree\<close>

lemma fine_note_error: "fine b I m (\<lambda>_. J) \<Longrightarrow> fine b I (note_error m) (\<lambda>errs f. J f \<and> errs = [])"
  unfolding note_error_def by (rule fine_except [OF fine_sq]) (auto intro: fine_ret)

lemma stable_Ball: "(\<And>c. c \<in> A \<Longrightarrow> stable p (I c)) \<Longrightarrow> stable p (\<lambda>f. \<forall>c \<in> A. I c f)"
  unfolding stable_def by blast

lemma grows_Ball: "(\<And>c. c \<in> A \<Longrightarrow> grows p (I c)) \<Longrightarrow> grows p (\<lambda>f. \<forall>c \<in> A. I c f)"
  unfolding grows_def by blast

definition free_in :: "path \<Rightarrow> (string \<times> ftree) list \<Rightarrow> ftree \<Rightarrow> bool" where
  "free_in dst es f \<longleftrightarrow> is_dir_at f dst \<and> (\<forall>c \<in> fst ` set es. \<not> exists_at f (dst @ [c]))"

lemma stable_free_in: "c \<notin> fst ` set es \<Longrightarrow> stable (dst @ [c]) (free_in dst es)"
  unfolding free_in_def exists_at_def
  by (intro stable_conj stable_Ball stable_lookup [where P = "\<lambda>t. \<not> t \<noteq> None"] stable_is_dir) (auto simp: is_prefix_iff)

lemma grows_free_in: "c \<notin> fst ` set es \<Longrightarrow> grows (dst @ [c]) (free_in dst es)"
  unfolding free_in_def exists_at_def
  by (intro grows_conj grows_Ball grows_lookup [where P = "\<lambda>t. \<not> t \<noteq> None"] grows_is_dir) (auto simp: is_prefix_iff)

lemma free_in_empty: "lookup_tree f q = Some (FDir []) \<Longrightarrow> free_in q es f"
  by (auto simp: free_in_def is_dir_at_conv exists_at_def lookup_append)

lemma fine_copy_tree:
  "dst = p @ [x] \<Longrightarrow> wf_tree t \<Longrightarrow>
     fine b (\<lambda>f. \<not> exists_at f dst \<and> is_dir_at f p) (copy_tree ign src t dst :: ('e, unit) io) (\<lambda>_ _. True)"
  "wf_tree (FDir es) \<Longrightarrow> fine b (free_in dst es) (copy_entries ign src es dst :: ('e, string list) io) (\<lambda>errs _. errs = [])"
proof (induction ign src t dst and ign src es dst arbitrary: p x rule: copy_tree_copy_entries.induct)
  case (1 ign src s dst)
  then show ?case by (simp add: fine_copy_file)
next
  case (2 ign src es dst)
  have m: "fine b (\<lambda>f. \<not> exists_at f dst \<and> is_dir_at f p) (os_makedirs dst :: ('e, unit) io) (\<lambda>_. free_in dst es)"
    unfolding 2(2) by (rule fine_weaken [OF fine_makedirs _ free_in_empty])
  have e: "fine b (free_in dst es) (copy_entries ign src es dst :: ('e, string list) io) (\<lambda>errs f. True \<and> errs = [])"
    using 2(1) [OF 2(3)] by simp
  have n: "fine b (\<lambda>f. True \<and> errs = []) (bnd (note_error (copystat src dst)) (\<lambda>errs'.
      if errs @ errs' = [] then ret () else raise (OSError (py_join '', '' (errs @ errs')))) :: ('e, unit) io) (\<lambda>_ _. True)" for errs
    by (rule fine_assume, rule fine_bnd [OF fine_note_error [OF fine_copystat]], rule fine_assume)
       (simp add: fine_ret)
  show ?case unfolding copy_tree.simps by (rule fine_sq [OF m fine_bnd [OF e n]])
next
  case (3 ign src dst)
  then show ?case by (simp add: fine_ret)
next
  case (4 ign src c t es dst)
  have wf: "wf_tree t" "wf_tree (FDir es)" and c: "c \<notin> fst ` set es" using 4(4) by auto
  show ?case
  proof (cases "c = ign")
    case True
    with 4(1) [OF True wf(2)] show ?thesis
      by (auto simp: free_in_def elim!: fine_weaken)
  next
    case False
    have k: "fs_keeps (free_in dst es) (copy_tree ign (src @ [c]) t (dst @ [c]) :: ('e, unit) io)"
      by (rule keeps_copy_tree(1) [OF stable_free_in grows_free_in]) (use c in simp_all)
    have "fine b (\<lambda>f. (\<not> exists_at f (dst @ [c]) \<and> is_dir_at f dst) \<and> free_in dst es f)
        (copy_tree ign (src @ [c]) t (dst @ [c]) :: ('e, unit) io) (\<lambda>_ f. free_in dst es f)"
      by (rule fine_weaken [OF fine_frame [OF 4(2) [OF False refl wf(1)] k]]) simp_all
    then have hd: "fine b (free_in dst ((c, t) # es)) (note_error (copy_tree ign (src @ [c]) t (dst @ [c])) :: ('e, string list) io)
        (\<lambda>errs f. free_in dst es f \<and> errs = [])"
      by (rule fine_note_error [OF fine_weaken]) (auto simp: free_in_def)
    have tl: "fine b (\<lambda>f. free_in dst es f \<and> errs = []) (bnd (copy_entries ign src es dst) (\<lambda>errs'. ret (errs @ errs')) :: ('e, string list) io)
        (\<lambda>errs _. errs = [])" for errs
      by (rule fine_assume, rule fine_bnd [OF 4(3) [OF False wf(2)]]) (simp add: fine_ret)
    show ?thesis using fine_bnd [OF hd tl] False by simp
  qed
qed

lemma fine_copytree:
  assumes "wf_tree (FDir es)"
  shows "fine b (\<lambda>f. lookup_tree f src = Some (FDir es) \<and> \<not> exists_at f (p @ [c]) \<and> is_dir_at f p)
    (copytree ign src (p @ [c]) :: ('e, unit) io) (\<lambda>_ _. True)"
  unfolding copytree_def
proof (rule fine_bnd)
  show "fine b (\<lambda>f. lookup_tree f src = Some (FDir es) \<and> \<not> exists_at f (p @ [c]) \<and> is_dir_at f p) (scan_tree src :: ('e, ftree) io)
      (\<lambda>t f. (\<not> exists_at f (p @ [c]) \<and> is_dir_at f p) \<and> t = FDir es)"
    unfolding scan_tree_def by (rule fine_read) simp
  show "fine b (\<lambda>f. (\<not> exists_at f (p @ [c]) \<and> is_dir_at f p) \<and> t = FDir es) (copy_tree ign src t (p @ [c]) :: ('e, unit) io)
      (\<lambda>_ _. True)" for t
    by (rule fine_assume) (simp only: fine_copy_tree(1) [OF refl assms])
qed

subsection \<open>Removing a tree\<close>

lemma for_each_append: "for_each (xs @ ys) f = sq (for_each xs f) (for_each ys f)"
proof (induction xs)
  case Nil
  show ?case by (simp add: sq_def bnd_def ret_def fun_eq_iff)
next
  case (Cons x xs)
  then show ?case by (auto simp: sq_def bnd_def fun_eq_iff split: prod.split sum.split)
qed

text \<open>While the first entry of a directory is being removed, the others stay as they are.\<close>

definition shrinking :: "path \<Rightarrow> string \<Rightarrow> (string \<times> ftree) list \<Rightarrow> ftree \<Rightarrow> bool" where
  "shrinking p c es f \<longleftrightarrow> (\<exists>u. lookup_tree f p = Some (FDir ((c, u) # es))) \<or> adding p es c f"

lemma set_entry_head: "c \<notin> fst ` set es \<Longrightarrow>
   set_entry c x ((c, u) # es) = (case x of None \<Rightarrow> es | Some t \<Rightarrow> (c, t) # es)"
  by (auto simp: set_entry_def filter_id_conv rev_image_eqI intro!: map_idI split: option.split)

lemma fine_os_remove:
  assumes "\<And>f. I f \<Longrightarrow> lookup_tree f (p @ [c]) = Some (FDir []) \<or> (\<exists>s. lookup_tree f (p @ [c]) = Some (FFile s))"
  shows "fine b I (os_remove (p @ [c])) (\<lambda>_ f. \<not> exists_at f (p @ [c]))"
  unfolding os_remove_def sys_def
proof (rule fine_sys_torn)
  fix w :: "'a world" assume "quiet b w" "I (w_fs w)"
  with assms [OF this(2)] parent_is_dir [of "w_fs w" p c "[]"]
  show "\<exists>x w'. (case lookup_tree (w_fs w) (p @ [c]) of None \<Rightarrow> (Inl no_such_file, w)
      | Some (FDir (e # es)) \<Rightarrow> (Inl not_empty, w) | Some _ \<Rightarrow> (Inr (), set_at (p @ [c]) None w)) = (Inr x, w') \<and>
      quiet b w' \<and> \<not> exists_at (w_fs w') (p @ [c])"
    by (auto simp: exists_at_def lookup_alter_same)
qed

lemma stable_shrinking:
  assumes "c \<notin> fst ` set es"
  shows "stable (p @ [c]) (shrinking p c es)"
  unfolding stable_def
proof (intro allI impI)
  fix f q and x :: "ftree option"
  assume q: "is_prefix (p @ [c]) q" and s: "shrinking p c es f" and wf: "\<forall>t. x = Some t \<longrightarrow> wf_tree t"
  then obtain r where q': "q = p @ c # r" by (auto simp: is_prefix_iff)
  from s consider u where "lookup_tree f p = Some (FDir ((c, u) # es))" | "adding p es c f"
    by (auto simp: shrinking_def)
  then show "shrinking p c es (alter q x f)"
  proof cases
    case (1 u)
    from lookup_alter_child [OF 1, of c r x] show ?thesis
      by (auto simp: q' shrinking_def adding_def set_entry_head [OF assms] split: option.splits)
  next
    case 2
    with stable_adding [OF assms, of p] q wf show ?thesis by (auto simp: shrinking_def stable_def)
  qed
qed

lemma shrunk: "shrinking p c es f \<Longrightarrow> c \<notin> fst ` set es \<Longrightarrow> \<not> exists_at f (p @ [c]) \<Longrightarrow> lookup_tree f p = Some (FDir es)"
  by (auto simp: shrinking_def adding_def exists_at_def lookup_snoc map_add_def split: option.splits)

lemma fine_removal:
  "p = q @ [x] \<Longrightarrow> wf_tree t \<Longrightarrow>
     fine b (\<lambda>f. lookup_tree f p = Some t) (for_each (removal p t) os_remove :: ('e, unit) io) (\<lambda>_ f. \<not> exists_at f p)"
  "wf_tree (FDir es) \<Longrightarrow>
     fine b (\<lambda>f. lookup_tree f p = Some (FDir es)) (for_each (removal_entries p es) os_remove :: ('e, unit) io)
       (\<lambda>_ f. lookup_tree f p = Some (FDir []))"
proof (induction p t and p es arbitrary: q x rule: removal_removal_entries.induct)
  case (1 p s)
  show ?case unfolding removal.simps for_each.simps 1(1)
    by (rule fine_sq [OF fine_os_remove fine_ret]) auto
next
  case (2 p es)
  show ?case unfolding removal.simps for_each_append
    by (rule fine_sq [OF 2(1) [OF 2(3)]], unfold for_each.simps 2(2), rule fine_sq [OF fine_os_remove fine_ret]) auto
next
  case (3 p)
  show ?case by (simp add: fine_ret)
next
  case (4 p c t es)
  then have wf: "wf_tree t" "wf_tree (FDir es)" and c: "c \<notin> fst ` set es" by auto
  have k: "fs_keeps (shrinking p c es) (for_each (removal (p @ [c]) t) os_remove :: ('e, unit) io)"
    by (intro keeps_for_each keeps_os_remove [OF stable_shrinking [OF c]] removal_prefix)
  have "fine b (\<lambda>f. lookup_tree f p = Some (FDir ((c, t) # es)))
      (for_each (removal (p @ [c]) t) os_remove :: ('e, unit) io) (\<lambda>_ f. lookup_tree f p = Some (FDir es))"
    by (rule fine_weaken [OF fine_frame [OF 4(1) [OF refl wf(1)] k]])
       (auto simp: shrinking_def lookup_snoc intro: shrunk [OF _ c])
  then show ?case unfolding removal_entries.simps for_each_append
    by (rule fine_sq [OF _ 4(2) [OF wf(2)]])
qed

lemma fine_rmtree:
  assumes "\<And>f. I f \<Longrightarrow> is_dir_at f (p @ [c]) \<and> wf_tree f"
  shows "fine b I (rmtree (p @ [c])) (\<lambda>_ f. \<not> exists_at f (p @ [c]))"
  unfolding rmtree_def
proof (rule fine_bnd)
  show "fine b I (scan_tree (p @ [c])) (\<lambda>t f. lookup_tree f (p @ [c]) = Some t \<and> wf_tree t)"
    unfolding scan_tree_def
    by (rule fine_read) (use assms wf_tree_lookup in \<open>fastforce simp: is_dir_at_conv\<close>)
  show "fine b (\<lambda>f. lookup_tree f (p @ [c]) = Some t \<and> wf_tree t) (for_each (removal (p @ [c]) t) os_remove)
      (\<lambda>_ f. \<not> exists_at f (p @ [c]))" for t
    by (rule fine_assume [OF fine_removal(1) [OF refl]])
qed

lemma for_each_except: "for_each xs g w = (Inr (), w') \<Longrightarrow> for_each xs (\<lambda>q. except (g q) c (h q)) w = (Inr (), w')"
  by (induction xs arbitrary: w) (auto simp: sq_def bnd_def except_def split: prod.splits sum.splits)

lemma fine_for_each_except: "fine b I (for_each xs g) J \<Longrightarrow> fine b I (for_each xs (\<lambda>q. except (g q) c (h q))) J"
  unfolding fine_def using for_each_except by fastforce

lemma fine_rmtree_ignore:
  assumes "\<And>f. I f \<Longrightarrow> is_dir_at f (p @ [c]) \<and> wf_tree f"
  shows "fine b I (rmtree_ignore (p @ [c])) (\<lambda>_ f. \<not> exists_at f (p @ [c]))"
  unfolding rmtree_ignore_def
proof (rule fine_except_else)
  show "fine b I (scan_tree (p @ [c])) (\<lambda>t f. lookup_tree f (p @ [c]) = Some t \<and> wf_tree t)"
    unfolding scan_tree_def
    by (rule fine_read) (use assms wf_tree_lookup in \<open>fastforce simp: is_dir_at_conv\<close>)
  show "fine b (\<lambda>f. lookup_tree f (p @ [c]) = Some t \<and> wf_tree t)
      (for_each (removal (p @ [c]) t) (\<lambda>q. except (os_remove q) is_os_error (\<lambda>_. ret ())))
      (\<lambda>_ f. \<not> exists_at f (p @ [c]))" for t
    by (rule fine_assume [OF fine_for_each_except [OF fine_removal(1) [OF refl]]])
qed

end
