(* ===== verification/Local_Live.thy ===== *)
theory Local_Live
  imports Local_Refines Calm_Runs
begin

text \<open>
  Without failures a store to a local destination succeeds, over a left-over partial copy
  too.
\<close>

subsection \<open>Storing and deleting\<close>

lemma fine_mkdir_p:
  assumes "\<And>f. I f \<Longrightarrow> is_dir_at f p"
  shows "fine b I (mkdir_p p :: ('e, unit) io) (\<lambda>_. I)"
proof -
  have mk: "fine b I (os_mkdir p) (\<lambda>r f. I f \<and> r = Already_There)"
    unfolding os_mkdir_def sys_def by (rule fine_sys_torn) (use assms in \<open>auto simp: exists_at_iff\<close>)
  have settle: "fine b I (mkdir_settle p e) (\<lambda>_. I)" for e
    unfolding mkdir_settle_def
    by (rule fine_bnd [OF fine_weaken [OF fine_tests(1) [of b I] _, where J = "\<lambda>b f. I f \<and> b = True"]])
       (use assms in \<open>auto intro!: fine_assume fine_ret simp: fine_False\<close>)
  have body: "fine b (\<lambda>f. I f \<and> r = Already_There) (case r of Created \<Rightarrow> ret () | Already_There \<Rightarrow> mkdir_settle p file_exists
      | Parent_Missing \<Rightarrow> m) (\<lambda>_. I)" for r m
    by (rule fine_assume) (simp add: settle)
  have "\<exists>k :: ('e, unit) io. mkdir_p p = except_else (os_mkdir p) is_os_error (mkdir_settle p)
      (\<lambda>r. case r of Created \<Rightarrow> ret () | Already_There \<Rightarrow> mkdir_settle p file_exists | Parent_Missing \<Rightarrow> k)"
  proof (cases p rule: rev_cases)
    case Nil
    then show ?thesis by (auto simp: mkdir_p_def mkdir_here_def)
  next
    case (snoc q c)
    then show ?thesis by (auto simp: mkdir_p_def Let_def)
  qed
  then obtain k :: "('e, unit) io" where eq: "mkdir_p p = except_else (os_mkdir p) is_os_error (mkdir_settle p)
      (\<lambda>r. case r of Created \<Rightarrow> ret () | Already_There \<Rightarrow> mkdir_settle p file_exists | Parent_Missing \<Rightarrow> k)" by blast
  show ?thesis unfolding eq by (rule fine_except_else [OF mk body])
qed

lemma fine_os_rename:
  assumes "apart (q @ [x]) (p @ [c])"
  shows "fine b (\<lambda>f. exists_at f (q @ [x]) \<and> \<not> exists_at f (p @ [c]) \<and> is_dir_at f p) (os_rename (q @ [x]) (p @ [c]))
    (\<lambda>_ f. \<not> exists_at f (q @ [x]))"
proof -
  have gone: "lookup_tree (alter (p @ [c]) (Some t) (alter (q @ [x]) None f)) (q @ [x]) = None"
    if "lookup_tree f (q @ [x]) = Some t" for f t
    using that parent_is_dir [of f q x "[]"] by (simp add: lookup_alter_apart [OF apart_sym [OF assms]] lookup_alter_same)
  show ?thesis
    unfolding os_rename_def sys_def
    by (rule fine_sys_torn) (use apart_not_prefix [OF assms] in \<open>auto simp: exists_at_def gone\<close>)
qed

definition room_for :: "path \<Rightarrow> string \<Rightarrow> ftree \<Rightarrow> bool" where
  "room_for p i f \<longleftrightarrow> is_dir_at f p \<and> \<not> exists_at f (p @ [i])"

lemma frames_room_for:
  "c \<noteq> i \<Longrightarrow> stable (p @ [c]) (room_for p i)" "c \<noteq> i \<Longrightarrow> grows (p @ [c]) (room_for p i)"
  unfolding room_for_def exists_at_def
  by (intro frames stable_lookup [where P = "\<lambda>t. \<not> t \<noteq> None"] grows_lookup [where P = "\<lambda>t. \<not> t \<noteq> None"];
      auto simp: is_prefix_iff)+

lemma fine_local_transfer:
  fixes d :: local_destination
  assumes "separate d src i" "plain i"
  defines "partial \<equiv> ld_path d @ [i @ partial_suffix]"
  shows "fine b (\<lambda>f. before_commit d src i es None f \<and> room_for (ld_path d) i f \<and> \<not> is_file_at f partial)
    (local_transfer d src i :: ('e, unit) io) (\<lambda>_ f. \<not> exists_at f partial)"
proof -
  let ?B = "\<lambda>f. before_commit d src i es None f \<and> room_for (ld_path d) i f"
  have st: "stable partial ?B" and gr: "grows partial ?B"
    unfolding partial_def
    by (intro stable_conj grows_conj stable_before_commit grows_before_commit_partial frames_room_for assms(1); simp)+
  have mk: "fine b (\<lambda>f. ?B f \<and> \<not> is_file_at f partial) (mkdir_p (ld_path d) :: ('e, unit) io)
      (\<lambda>_ f. ?B f \<and> \<not> is_file_at f partial)"
    by (rule fine_weaken [OF fine_mkdir_p]) (auto simp: room_for_def)
  have rm: "fine b (\<lambda>f. ?B f \<and> \<not> is_file_at f partial)
      (bnd (path_exists partial) (\<lambda>stale. do_when stale (rmtree partial)) :: ('e, unit) io)
      (\<lambda>_ f. ?B f \<and> \<not> exists_at f partial)"
  proof (rule fine_bnd [OF fine_tests(3)])
    fix stale
    have "fine b (\<lambda>f. (is_dir_at f partial \<and> wf_tree f) \<and> ?B f) (rmtree partial :: ('e, unit) io)
        (\<lambda>_ f. \<not> exists_at f partial \<and> ?B f)"
      unfolding partial_def by (rule fine_frame [OF fine_rmtree keeps_rmtree [OF st [unfolded partial_def]]]) simp
    then have "fine b (\<lambda>f. ?B f \<and> is_dir_at f partial) (rmtree partial :: ('e, unit) io)
        (\<lambda>_ f. ?B f \<and> \<not> exists_at f partial)"
      by (rule fine_weaken) (auto simp: before_commit_def)
    then show "fine b (\<lambda>f. (?B f \<and> \<not> is_file_at f partial) \<and> stale = exists_at f partial)
        (do_when stale (rmtree partial) :: ('e, unit) io) (\<lambda>_ f. ?B f \<and> \<not> exists_at f partial)"
      by (cases stale) (auto simp: do_when_def exists_at_iff intro: fine_ret elim!: fine_weaken)
  qed
  have data: "fine b (\<lambda>f. ?B f \<and> \<not> exists_at f partial) (copytree meta_filename src partial :: ('e, unit) io)
      (\<lambda>_ f. ?B f \<and> lookup_tree f partial = Some (FDir (copied_entries meta_filename es)))"
  proof (cases "wf_tree (FDir es)")
    case True
    have "fine b (\<lambda>f. (lookup_tree f src = Some (FDir es) \<and> \<not> exists_at f partial \<and> is_dir_at f (ld_path d)) \<and>
          (before_commit d src i es None f \<and> is_dir_at f (ld_path d)))
        (copytree meta_filename src partial :: ('e, unit) io)
        (\<lambda>_ f. True \<and> before_commit d src i es None f \<and>
           lookup_tree f partial = Some (FDir (copied_entries meta_filename es)))"
      unfolding partial_def
      by (rule fine_and [OF fine_copytree [OF True] triple_weaken [OF transfer_data [OF assms(1)]]]) auto
    from fine_frame [OF this keeps_copytree [OF st gr]] show ?thesis
      by (rule fine_weaken) (auto simp: room_for_def before_commit_def)
  next
    case False
    then have "\<not> before_commit d src i es None f" for f
      using wf_tree_lookup [of f src "FDir es"] by (auto simp: before_commit_def simp del: wf_tree.simps)
    then show ?thesis by (simp add: fine_False)
  qed
  have meta: "fine b (\<lambda>f. ?B f \<and> lookup_tree f partial = Some (FDir (copied_entries meta_filename es)))
      (bnd (path_is_file (src @ [meta_filename])) (\<lambda>m. do_when m
        (copy2 (src @ [meta_filename]) (partial @ [meta_filename]))) :: ('e, unit) io)
      (\<lambda>_ f. ?B f \<and> lookup_tree f partial = Some (stored_tree (FDir es)))"
    (is "fine b ?I ?m _")
  proof -
    have "fine b ?I ?m (\<lambda>_ _. True)"
    proof (rule fine_bnd [OF fine_tests(2)])
      have *: "\<not> exists_at f (partial @ [meta_filename]) \<and> is_dir_at f partial" if "?I f" for f
        using that meta_not_copied [of es] by (auto simp: exists_at_def lookup_snoc is_dir_at_conv map_of_eq_None_iff)
      show "fine b (\<lambda>f. ?I f \<and> m = is_file_at f (src @ [meta_filename]))
          (do_when m (copy2 (src @ [meta_filename]) (partial @ [meta_filename])) :: ('e, unit) io) (\<lambda>_ _. True)" for m
        by (cases m) (auto simp: do_when_def * intro!: fine_ret fine_weaken [OF fine_copy2])
    qed
    moreover have "achieves (\<lambda>w. before_commit d src i es None (w_fs w) \<and>
          lookup_tree (w_fs w) partial = Some (FDir (copied_entries meta_filename es))) ?m
        (\<lambda>_ w. before_commit d src i es None (w_fs w) \<and> lookup_tree (w_fs w) partial = Some (stored_tree (FDir es)))"
      unfolding partial_def by (rule triple_weaken [OF transfer_meta [OF assms(1)]]) auto
    ultimately have "fine b ?I ?m (\<lambda>_ f. before_commit d src i es None f \<and> lookup_tree f partial = Some (stored_tree (FDir es)))"
      by (rule fine_weaken [OF fine_and [where I = ?I and K = "\<lambda>f. before_commit d src i es None f \<and>
            lookup_tree f partial = Some (FDir (copied_entries meta_filename es))" and
            R = "\<lambda>_ f. before_commit d src i es None f \<and> lookup_tree f partial = Some (stored_tree (FDir es))"]]) auto
    moreover have "fs_keeps ?B ?m"
      by (intro keeps_bnd keeps_reads keeps_do_when keeps_copy2 [OF st]) simp
    ultimately show ?thesis
      by (rule fine_weaken [OF fine_frame [where K = ?B]]) auto
  qed
  have rn: "fine b (\<lambda>f. ?B f \<and> lookup_tree f partial = Some (stored_tree (FDir es)))
      (os_rename partial (ld_path d @ [i]) :: ('e, unit) io) (\<lambda>_ f. \<not> exists_at f partial)"
    unfolding partial_def
    by (rule fine_weaken [OF fine_os_rename]) (auto simp: room_for_def exists_at_def apart_def is_prefix_iff)
  show ?thesis
    unfolding local_transfer_def Let_def path_join_plain [OF assms(2)] path_join_plain [OF plain_partial [OF assms(2)]]
      path_join_plain [OF plain_meta]
    using fine_sq [OF mk fine_sq [OF rm fine_sq [OF data fine_sq [OF meta rn]]]]
    by (simp add: partial_def conj_assoc)
qed

lemma fine_local_store:
  fixes d :: local_destination
  assumes "separate d src i" "plain i"
  shows "fine b (\<lambda>f. before_commit d src i es None f \<and> room_for (ld_path d) i f \<and>
      \<not> is_file_at f (ld_path d @ [i @ partial_suffix]))
    (local_store d src i :: ('e, unit) io) (\<lambda>_ f. \<not> exists_at f (ld_path d @ [i @ partial_suffix]) \<and>
      lookup_tree f (ld_path d @ [i]) = Some (stored_tree (FDir es)))"
    (is "fine b ?J _ _")
proof -
  have inc: "\<not> complete_at (ld_path d) i f" if "?J f" for f
    using that is_file_at_below [of f "ld_path d @ [i]" "[meta_filename]"] by (auto simp: room_for_def complete_at_def)
  have t: "fine b (\<lambda>f. ?J f \<and> c = False) (if c then ret () else except (local_transfer d src i) is_os_error
      (\<lambda>e. raise (local_error d ''store'' e)) :: ('e, unit) io) (\<lambda>_ f. \<not> exists_at f (ld_path d @ [i @ partial_suffix]))" for c
    by (rule fine_assume) (simp add: fine_except [OF fine_local_transfer [OF assms]])
  have "fine b ?J (local_store d src i :: ('e, unit) io) (\<lambda>_ f. \<not> exists_at f (ld_path d @ [i @ partial_suffix]))"
    unfolding local_store_def path_join_plain [OF assms(2)] path_join_plain [OF plain_meta]
    by (rule fine_bnd [OF fine_weaken [OF fine_tests(2) [of b ?J]] t]) (use inc in \<open>auto simp: complete_at_def\<close>)
  from fine_and [OF this triple_weaken [OF local_store_result [OF assms, where es = es and old = None]],
      where K = ?J and R = "\<lambda>_ f. lookup_tree f (ld_path d @ [i]) = Some (stored_tree (FDir es))"]
  show ?thesis by (rule fine_weaken) (use inc in auto)
qed

text \<open>
  Storing succeeds. When no call fails, the destination directory exists and the
  generation is not there yet, a store returns normally and the final name holds the
  whole copy of the source, whatever an interrupted store has left under the partial name.
\<close>

theorem local_store_succeeds:
  fixes w :: "'e world"
  assumes "calm w" "plain i" "separate d src i" "wf_tree (w_fs w)" "lookup_tree (w_fs w) src = Some (FDir es)"
    and "is_dir_at (w_fs w) (ld_path d)" "\<not> exists_at (w_fs w) (ld_path d @ [i])"
    and "\<not> is_file_at (w_fs w) (ld_path d @ [i @ partial_suffix])"
  shows "\<exists>w'. local_store d src i w = (Inr (), w') \<and>
    lookup_tree (w_fs w') (ld_path d @ [i]) = Some (stored_tree (FDir es))"
  using fine_local_store [OF assms(3,2), of False es] assms
  by (auto simp: fine_def before_commit_def room_for_def exists_at_def)

text \<open>A store was interrupted before: the destination holds a piece of the generation.\<close>

definition stale_world :: "unit world" where
  "stale_world = sample_world\<lparr>w_fs := FDir [(''/'', FDir [
     (''w'', FDir [(''g1'', FDir sample_generation)]),
     (''b'', FDir [(''g1.partial'', FDir [(''ibdata'', FFile [])])])])]\<rparr>"

theorem local_store_succeeds_witness:
  "\<exists>w'. local_store sample_local [''/'', ''w'', ''g1''] ''g1'' stale_world = (Inr (), w') \<and>
     lookup_tree (w_fs w') [''/'', ''b'', ''g1''] = Some (FDir sample_generation)"
proof -
  have "calm stale_world" "wf_tree (w_fs stale_world)" "lookup_tree (w_fs stale_world) [''/'', ''w'', ''g1''] = Some (FDir sample_generation)"
    "is_dir_at (w_fs stale_world) (ld_path sample_local)" "\<not> exists_at (w_fs stale_world) (ld_path sample_local @ [''g1''])"
    "\<not> is_file_at (w_fs stale_world) (ld_path sample_local @ [''g1'' @ partial_suffix])"
    by (simp_all add: stale_world_def sample_world_def calm_def sample_generation_def sample_local_def is_dir_at_def
        exists_at_def is_file_at_def partial_suffix_def)
  from local_store_succeeds [OF this(1) sample_plain(2) sample_separate this(2-6)] show ?thesis
    by (simp add: sample_local_def stored_tree_def sample_generation_def meta_filename_def)
qed

end
