(* ===== verification/Run_Live.thy ===== *)
theory Run_Live
  imports Run_Durable Local_Live
begin

text \<open>
  Without failures a run over local destinations succeeds, from the stored generation to the
  last purge: the calculus of \<open>Calm_Runs\<close> carried through the pipeline.
\<close>

subsection \<open>A destination in order\<close>

text \<open>A directory that holds nothing but generations under names the listing can have.\<close>

definition tidy :: "path \<Rightarrow> ftree \<Rightarrow> bool" where
  "tidy p f \<longleftrightarrow> wf_tree f \<and> is_dir_at f p \<and> (\<forall>n. exists_at f (p @ [n]) \<longrightarrow> good_name n \<and> is_dir_at f (p @ [n]))"

text \<open>In order but for the entries in \<open>N\<close>.\<close>

definition tidy_but :: "string set \<Rightarrow> path \<Rightarrow> ftree \<Rightarrow> bool" where
  "tidy_but N p f \<longleftrightarrow> wf_tree f \<and> is_dir_at f p \<and>
     (\<forall>n. n \<notin> N \<longrightarrow> exists_at f (p @ [n]) \<longrightarrow> good_name n \<and> is_dir_at f (p @ [n]))"

lemma tidy_tidy_but: "tidy p f \<Longrightarrow> tidy_but N p f"
  by (simp add: tidy_def tidy_but_def)

lemma tidy_but_tidy:
  "tidy_but N p f \<Longrightarrow> (\<And>n. n \<in> N \<Longrightarrow> exists_at f (p @ [n]) \<Longrightarrow> good_name n \<and> is_dir_at f (p @ [n])) \<Longrightarrow> tidy p f"
  unfolding tidy_def tidy_but_def by blast

lemma is_dir_at_lookup: "is_dir_at f p \<longleftrightarrow> (case lookup_tree f p of Some (FDir _) \<Rightarrow> True | _ \<Rightarrow> False)"
  by (auto simp: is_dir_at_conv split: option.split ftree.split)

lemma tidy_but_entry: "tidy_but N p = (\<lambda>f. (wf_tree f \<and> is_dir_at f p) \<and> (\<forall>n \<in> - N.
    case lookup_tree f (p @ [n]) of None \<Rightarrow> True | Some (FDir _) \<Rightarrow> good_name n | Some (FFile _) \<Rightarrow> False))"
  unfolding tidy_but_def exists_at_def
  by (rule ext) (auto simp: is_dir_at_lookup split: option.splits ftree.splits)

lemma stable_tidy_but: "n \<in> N \<Longrightarrow> stable (p @ [n]) (tidy_but N p)"
  unfolding tidy_but_entry
  by (intro stable_conj stable_Ball stable_wf stable_is_dir
      stable_lookup [where P = "\<lambda>t. case t of None \<Rightarrow> True | Some (FDir _) \<Rightarrow> good_name m | Some (FFile _) \<Rightarrow> False" for m])
     (auto simp: is_prefix_iff)

lemma grows_tidy_but: "grows p (tidy_but N p)"
  unfolding tidy_but_entry
  by (intro grows_conj grows_Ball grows_wf grows_is_dir
      grows_lookup [where P = "\<lambda>t. case t of None \<Rightarrow> True | Some (FDir _) \<Rightarrow> good_name m | Some (FFile _) \<Rightarrow> False" for m])
     (auto simp: is_prefix_iff)

lemma tidy_all_entries: "tidy p = tidy_but {} p"
  by (simp add: fun_eq_iff tidy_def tidy_but_def)

lemma frames_tidy_apart:
  assumes "apart q p"
  shows "stable q (tidy p)" "grows q (tidy p)"
proof -
  have a: "apart q (p @ [n])" "\<not> is_prefix (p @ [n]) q" for n
    using apart_below [OF assms, of "[]" "[n]"] by (simp_all add: apart_def)
  have p: "\<not> is_prefix q p" using apart_not_prefix(1) [OF assms] .
  show "stable q (tidy p)" unfolding tidy_all_entries tidy_but_entry
    by (intro stable_conj stable_Ball stable_wf stable_is_dir p
      stable_lookup [where P = "\<lambda>t. case t of None \<Rightarrow> True | Some (FDir _) \<Rightarrow> good_name m | Some (FFile _) \<Rightarrow> False" for m] a)
  show "grows q (tidy p)" unfolding tidy_all_entries tidy_but_entry
    by (intro grows_conj grows_Ball grows_wf grows_is_dir
      grows_lookup [where P = "\<lambda>t. case t of None \<Rightarrow> True | Some (FDir _) \<Rightarrow> good_name m | Some (FFile _) \<Rightarrow> False" for m] a)
qed

subsection \<open>Deleting\<close>

lemma fine_delete_one:
  assumes "plain n" "stable (ld_path d @ [n]) K" "n \<in> N"
  shows "fine b (\<lambda>f. tidy_but N (ld_path d) f \<and> \<not> is_file_at f (ld_path d @ [n]) \<and> K f) (local_delete_one d n)
    (\<lambda>_ f. tidy_but N (ld_path d) f \<and> \<not> exists_at f (ld_path d @ [n]) \<and> K f)"
    (is "fine b ?I _ ?J")
  unfolding local_delete_one_def Let_def path_join_plain [OF assms(1)]
proof (rule fine_bnd [OF fine_tests(3) [of b ?I]])
  fix there
  let ?p = "ld_path d @ [n]" and ?K = "\<lambda>f. tidy_but N (ld_path d) f \<and> K f"
  have "stable ?p ?K" using stable_tidy_but [OF assms(3)] assms(2) by (rule stable_conj)
  then have "fine b (\<lambda>f. (is_dir_at f ?p \<and> wf_tree f) \<and> ?K f) (rmtree ?p) (\<lambda>_ f. \<not> exists_at f ?p \<and> ?K f)"
    by (intro fine_frame fine_rmtree keeps_rmtree) auto
  then have "fine b (\<lambda>f. ?I f \<and> exists_at f ?p) (rmtree ?p) ?J"
    by (rule fine_weaken) (auto simp: tidy_but_def exists_at_iff)
  then show "fine b (\<lambda>f. ?I f \<and> there = exists_at f ?p)
      (do_when there (except (rmtree ?p) is_os_error (\<lambda>e. raise (local_error d ''delete'' e)))) ?J"
    by (cases there) (auto simp: do_when_def intro: fine_ret fine_except)
qed

lemma plain_good: "good_name n \<Longrightarrow> plain n"
  by (simp add: good_name_def valid_id_def)

lemma fine_local_delete:
  assumes "plain i" "stable (ld_path d @ [i]) K" "stable (ld_path d @ [i @ partial_suffix]) K"
  shows "fine b (\<lambda>f. tidy (ld_path d) f \<and> K f) (local_delete d i) (\<lambda>_ f. tidy (ld_path d) f \<and> K f)"
proof -
  let ?p = "ld_path d" and ?N = "{i, i @ partial_suffix}"
  have gone: "stable (?p @ [i @ partial_suffix]) (\<lambda>f. \<not> exists_at f (?p @ [i]))"
    unfolding exists_at_def by (rule stable_lookup [where P = "\<lambda>t. \<not> t \<noteq> None"]) simp
  have nf: "stable (?p @ [i]) (\<lambda>f. \<not> is_file_at f (?p @ [i @ partial_suffix]))"
    unfolding is_file_at_def by (rule stable_lookup [where P = "\<lambda>t. \<not> (case t of Some t \<Rightarrow> \<not> is_dir_tree t | None \<Rightarrow> False)"]) simp
  have one: "fine b (\<lambda>f. tidy ?p f \<and> K f) (local_delete_one d i)
      (\<lambda>_ f. (tidy_but ?N ?p f \<and> \<not> exists_at f (?p @ [i])) \<and> \<not> is_file_at f (?p @ [i @ partial_suffix]) \<and> K f)"
    by (rule fine_weaken [OF fine_delete_one [OF assms(1) stable_conj [OF nf assms(2)], of ?N]])
       (auto simp: tidy_tidy_but tidy_def exists_at_iff is_dir_at_def is_file_at_def split: option.splits ftree.splits)
  have two: "fine b (\<lambda>f. (tidy_but ?N ?p f \<and> \<not> exists_at f (?p @ [i])) \<and> \<not> is_file_at f (?p @ [i @ partial_suffix]) \<and> K f)
      (local_delete_one d (i @ partial_suffix)) (\<lambda>_ f. tidy ?p f \<and> K f)"
    by (rule fine_weaken [OF fine_delete_one [OF plain_partial [OF assms(1)] stable_conj [OF gone assms(3)], of ?N]])
       (auto intro: tidy_but_tidy)
  show ?thesis
    unfolding local_delete_def for_each.simps
    by (rule fine_sq [OF one fine_sq [OF two fine_ret]])
qed

subsection \<open>Listing\<close>

definition datable :: "stored_backup list \<Rightarrow> bool" where
  "datable bs \<longleftrightarrow> (\<forall>x \<in> set bs. aware (sb_stored_at x) \<and> plain (sb_id x))"

lemma fine_listed_entry:
  assumes "good_name name" "\<And>f. I f \<Longrightarrow> exists_at f (ld_path d @ [name])"
  shows "fine True I (listed_entry d name) (\<lambda>bs f. I f \<and> datable bs)"
proof -
  let ?e = "ld_path d @ [name]"
  have mtime: "fine True I (st_mtime ?e) (\<lambda>t f. I f \<and> in_range t)"
    unfolding st_mtime_def by (rule fine_read) (use assms(2) in \<open>auto simp: quiet_def\<close>)
  have entry: "fine True (\<lambda>f. I f \<and> plain i) (bnd (st_mtime ?e) (\<lambda>t. bnd (lift (from_mtime t)) (\<lambda>at.
      ret [\<lparr>sb_id = i, sb_complete = c, sb_stored_at = at\<rparr>]))) (\<lambda>bs f. I f \<and> datable bs)" for i c
  proof (rule fine_assume, rule fine_bnd [OF mtime], rule fine_assume)
    fix t assume "plain i" "in_range t"
    then show "fine True I (bnd (lift (from_mtime t)) (\<lambda>at. ret [\<lparr>sb_id = i, sb_complete = c, sb_stored_at = at\<rparr>]))
        (\<lambda>bs f. I f \<and> datable bs)"
      by (simp add: from_mtime_def fine_ret datable_def aware_def utc_def)
  qed
  have kind: "fine True I (if ends_with partial_suffix name then ret (drop_end (length partial_suffix) name, False)
      else bnd (path_is_file (path_join ?e meta_filename)) (\<lambda>c. ret (name, c))) (\<lambda>r f. I f \<and> plain (fst r))"
  proof -
    have "fine True I (bnd (path_is_file q) (\<lambda>c. ret (name, c))) (\<lambda>r f. I f \<and> plain (fst r))" for q
      by (rule fine_bnd [OF fine_tests(2) [of True I]]) (use assms(1) in \<open>auto simp: good_name_def valid_id_def intro: fine_ret\<close>)
    then show ?thesis using assms(1) by (auto simp: good_name_def valid_id_def intro: fine_ret)
  qed
  show ?thesis
    unfolding listed_entry_def Let_def
  proof (rule fine_bnd [OF fine_tests(1) [of True I]])
    fix isd
    have "fine True I (bnd (if ends_with partial_suffix name then ret (drop_end (length partial_suffix) name, False)
        else bnd (path_is_file (path_join ?e meta_filename)) (\<lambda>c. ret (name, c))) (\<lambda>(i, c).
          bnd (st_mtime ?e) (\<lambda>t. bnd (lift (from_mtime t)) (\<lambda>at.
            ret [\<lparr>sb_id = i, sb_complete = c, sb_stored_at = at\<rparr>])))) (\<lambda>bs f. I f \<and> datable bs)"
      by (rule fine_bnd [OF kind]) (use entry in \<open>simp add: split_beta\<close>)
    then show "fine True (\<lambda>f. I f \<and> isd = is_dir_at f ?e) (if \<not> isd then ret [] else
        bnd (if ends_with partial_suffix name then ret (drop_end (length partial_suffix) name, False)
          else bnd (path_is_file (path_join ?e meta_filename)) (\<lambda>c. ret (name, c))) (\<lambda>(i, c).
            bnd (st_mtime ?e) (\<lambda>t. bnd (lift (from_mtime t)) (\<lambda>at.
              ret [\<lparr>sb_id = i, sb_complete = c, sb_stored_at = at\<rparr>])))) (\<lambda>bs f. I f \<and> datable bs)"
      by (cases isd) (auto simp: datable_def intro!: fine_ret elim: fine_weaken)
  qed
qed

lemma fine_listed_entries:
  assumes "\<forall>n \<in> set names. good_name n" "\<And>f n. I f \<Longrightarrow> n \<in> set names \<Longrightarrow> exists_at f (ld_path d @ [n])"
  shows "fine True I (listed_entries d names :: ('e, stored_backup list) io) (\<lambda>bs f. I f \<and> datable bs)"
  using assms
proof (induction names)
  case Nil
  then show ?case by (simp add: fine_ret datable_def)
next
  case (Cons n names)
  have tl: "fine True (\<lambda>f. I f \<and> datable b) (bnd (listed_entries d names) (\<lambda>bs. ret (b @ bs)) :: ('e, stored_backup list) io)
      (\<lambda>bs f. I f \<and> datable bs)" for b
  proof (rule fine_assume, rule fine_bnd)
    show "fine True I (listed_entries d names :: ('e, stored_backup list) io) (\<lambda>bs f. I f \<and> datable bs)"
      by (rule Cons.IH) (use Cons.prems in auto)
    show "datable b \<Longrightarrow> fine True (\<lambda>f. I f \<and> datable bs) (ret (b @ bs) :: ('e, stored_backup list) io) (\<lambda>bs f. I f \<and> datable bs)" for bs
      by (rule fine_ret) (auto simp: datable_def)
  qed
  have hd: "fine True I (listed_entry d n :: ('e, stored_backup list) io) (\<lambda>b f. I f \<and> datable b)"
    by (rule fine_listed_entry) (use Cons.prems in auto)
  show ?case unfolding listed_entries.simps by (rule fine_bnd [OF hd tl])
qed

lemma fine_list_backups:
  "fine True (\<lambda>f. tidy (ld_path d) f \<and> K f) (local_list_backups d) (\<lambda>bs f. (tidy (ld_path d) f \<and> K f) \<and> datable bs)"
  (is "fine True ?I _ _")
  unfolding local_list_backups_def
proof (rule fine_bnd [OF fine_weaken [OF fine_tests(1) [of True ?I], where J = "\<lambda>r f. ?I f \<and> r = True"]], goal_cases)
  case (3 there)
  have names: "fine True ?I (list_dir (ld_path d))
      (\<lambda>ns f. (?I f \<and> ns = names_at f (ld_path d)) \<and> (\<forall>n \<in> set ns. good_name n))"
    unfolding list_dir_def by (rule fine_read) (auto simp: tidy_def names_at_iff)
  have "fine True (\<lambda>f. (?I f \<and> ns = names_at f (ld_path d)) \<and> (\<forall>n \<in> set ns. good_name n)) (listed_entries d ns)
      (\<lambda>bs f. ?I f \<and> datable bs)" for ns
    by (rule fine_assume, rule fine_weaken [OF fine_listed_entries [where I = "\<lambda>f. ?I f \<and> ns = names_at f (ld_path d)"]])
       (auto simp: names_at_iff)
  then have "fine True ?I (bnd (list_dir (ld_path d)) (listed_entries d)) (\<lambda>bs f. ?I f \<and> datable bs)"
    by (rule fine_bnd [OF names])
  then show ?case by (intro fine_assume) simp
qed (auto simp: tidy_def)

subsection \<open>Purging\<close>

lemma fine_log: "fine b I (log_msg l m) (\<lambda>_. I)"
  by (simp add: fine_def log_msg_def quiet_def calm_def)

lemma fine_purge_loop:
  assumes "stable (ld_path d) K"
  shows "\<forall>i \<in> set ids. plain i \<Longrightarrow>
    fine b (\<lambda>f. tidy (ld_path d) f \<and> K f) (purge_loop (local_delete d) name False ids dl False :: ('e, string list \<times> bool) io)
      (\<lambda>r f. (tidy (ld_path d) f \<and> K f) \<and> snd r = False)"
proof (induction ids arbitrary: dl)
  case Nil
  show ?case by (simp add: fine_ret)
next
  case (Cons i ids)
  let ?I = "\<lambda>f. tidy (ld_path d) f \<and> K f"
  have K: "stable (ld_path d @ [n]) K" for n by (rule stable_mono [OF assms]) simp
  have del: "fine b ?I (local_delete d i :: ('e, unit) io) (\<lambda>_. ?I)"
    by (rule fine_local_delete [OF _ K K]) (use Cons.prems in simp)
  have one: "fine b ?I (sq (local_delete d i) (sq (log_msg l m) (ret (dl @ [i], False))) :: ('e, string list \<times> bool) io)
      (\<lambda>r f. ?I f \<and> snd r = False)" for l m
    by (intro fine_sq [OF del] fine_sq [OF fine_log] fine_ret) simp
  have rest: "fine b (\<lambda>f. ?I f \<and> snd r = False) ((case r of (dl', err') \<Rightarrow>
      purge_loop (local_delete d) name False ids dl' err') :: ('e, string list \<times> bool) io) (\<lambda>r f. ?I f \<and> snd r = False)" for r
    by (rule fine_assume) (use Cons in \<open>simp add: split_beta\<close>)
  show ?case unfolding purge_loop.simps if_False
    by (rule fine_bnd [OF fine_except [OF one] rest])
qed

definition purgeable :: "config \<Rightarrow> datetime \<Rightarrow> bool" where
  "purgeable config now \<longleftrightarrow> aware now \<and> \<bar>rt_incomplete_grace_hours (c_retention config) div 24\<bar> \<le> 999999999"

lemma fine_purge_one:
  assumes "purgeable config now" "d_type dc = ''local''" "stable (ld_path (configured config dc)) K"
  shows "fine True (\<lambda>f. tidy (ld_path (configured config dc)) f \<and> K f)
    (purge_one_destination exec config dc now False ip :: ('e, destination_purge_result \<times> bool) io)
    (\<lambda>r f. (tidy (ld_path (configured config dc)) f \<and> K f) \<and> snd r = False)"
proof -
  let ?d = "configured config dc"
  let ?I = "\<lambda>f. tidy (ld_path ?d) f \<and> K f"
  have plan: "\<exists>plan. select_purge bs keep (rt_incomplete_grace_hours (c_retention config)) now ip = Inr plan \<and>
      (\<forall>i \<in> set (pp_delete plan). plain i)" if "datable bs" for bs keep
  proof -
    have "\<exists>plan. select_purge bs keep (rt_incomplete_grace_hours (c_retention config)) now ip = Inr plan"
      using assms(1) that purge_incomplete_total [of now "incompletes bs"]
      by (simp add: select_purge_def timedelta_hours_def Let_def purgeable_def datable_def incompletes_def)
    then obtain plan where p: "select_purge bs keep (rt_incomplete_grace_hours (c_retention config)) now ip = Inr plan" ..
    from plan_partition [OF p] have "set (pp_delete plan) \<subseteq> set (map sb_id bs)"
      by (metis Un_upper2 set_append set_mset_mset)
    with p that show ?thesis by (auto simp: datable_def)
  qed
  have after: "fine True (\<lambda>f. ?I f \<and> datable bs) (bnd (lift (select_purge bs keep (rt_incomplete_grace_hours (c_retention config)) now ip))
      (\<lambda>plan. bnd (purge_loop (local_delete ?d) name False (pp_delete plan) [] False) (\<lambda>(deleted, had_error).
         ret (\<lparr>pr_name = name, pr_deleted = deleted, pr_kept = pp_keep plan, pr_error = []\<rparr>, had_error)))
       :: ('e, destination_purge_result \<times> bool) io) (\<lambda>r f. ?I f \<and> snd r = False)" for bs keep name
  proof (rule fine_assume)
    assume "datable bs"
    from plan [OF this, of keep] obtain plan
      where p: "select_purge bs keep (rt_incomplete_grace_hours (c_retention config)) now ip = Inr plan"
        "\<forall>i \<in> set (pp_delete plan). plain i" by blast
    show "fine True ?I (bnd (lift (select_purge bs keep (rt_incomplete_grace_hours (c_retention config)) now ip))
      (\<lambda>plan. bnd (purge_loop (local_delete ?d) name False (pp_delete plan) [] False) (\<lambda>(deleted, had_error).
         ret (\<lparr>pr_name = name, pr_deleted = deleted, pr_kept = pp_keep plan, pr_error = []\<rparr>, had_error)))
       :: ('e, destination_purge_result \<times> bool) io) (\<lambda>r f. ?I f \<and> snd r = False)"
      unfolding p(1) bnd_lift_Inr
      by (rule fine_bnd [OF fine_purge_loop [OF assms(3) p(2)]]) (auto simp: split_beta intro: fine_ret)
  qed
  show ?thesis
    unfolding purge_one_destination_def build_local [OF assms(2)] bnd_lift_Inr local_operations purge_destination_def
    by (rule fine_except_else [OF fine_list_backups after])
qed

end
