(* ===== verification/Run_Succeeds.thy ===== *)
theory Run_Succeeds
  imports Run_Live
begin

text \<open>
  The second half of a run over local destinations, without failures: every destination
  gets the generation, the work copy goes, the purges pass over the new generation, and the
  run ends with exit code 0.
\<close>

subsection \<open>Storing everywhere\<close>

lemma storable_good: "local_storable i \<Longrightarrow> good_name i \<and> plain i"
  by (simp add: local_storable_def good_name_def valid_id_def)

lemma tidy_no_file: "tidy p f \<Longrightarrow> \<not> is_file_at f (p @ [n])"
  unfolding tidy_def exists_at_iff is_dir_at_def is_file_at_def by (auto split: option.splits)

lemma fine_store_tidy:
  fixes d :: local_destination
  assumes "apart (ld_path d) src" "local_storable i" "stable (ld_path d) K" "grows (ld_path d) K"
  shows "fine b (\<lambda>f. lookup_tree f src = Some (FDir es) \<and> tidy (ld_path d) f \<and> \<not> exists_at f (ld_path d @ [i]) \<and> K f)
    (local_store d src i :: ('e, unit) io)
    (\<lambda>_ f. lookup_tree f src = Some (FDir es) \<and> tidy (ld_path d) f \<and>
       lookup_tree f (ld_path d @ [i]) = Some (stored_tree (FDir es)) \<and> K f)"
proof -
  let ?p = "ld_path d" and ?N = "{i, i @ partial_suffix}"
  let ?I = "\<lambda>f. lookup_tree f src = Some (FDir es) \<and> tidy_but ?N (ld_path d) f \<and> K f"
  have p: "plain i" and good: "good_name i" using storable_good [OF assms(2)] by simp_all
  have K: "stable (?p @ [n]) K" for n by (rule stable_mono [OF assms(3)]) simp
  have a: "apart (?p @ [n]) src" for n using apart_below [OF assms(1), of "[n]" "[]"] by simp
  have st: "stable (?p @ [n]) ?I" if "n \<in> ?N" for n
    by (intro stable_conj stable_lookup [where P = "\<lambda>t. t = Some (FDir es)"] a stable_tidy_but that K)
  have gr: "grows ?p ?I"
    by (intro grows_conj grows_lookup [where P = "\<lambda>t. t = Some (FDir es)"] grows_tidy_but assms(4))
       (use assms(1) in \<open>simp add: apart_def\<close>)
  have "fs_keeps ?I (local_store d src i :: ('e, unit) io)"
    by (rule keeps_local_store [OF p st st gr]) (simp_all add: tidy_but_def)
  from fine_frame [OF fine_local_store [OF apart_separate [OF assms(1)] p, where es = es and b = b] this]
  show ?thesis
  proof (rule fine_weaken, goal_cases)
    case (1 f)
    then show ?case
      using tidy_no_file [of "ld_path d" f] tidy_tidy_but [of "ld_path d" f ?N]
      by (auto simp: before_commit_def room_for_def exists_at_def tidy_def)
  next
    case (2 x f)
    then show ?case
      by (auto simp: exists_at_def is_dir_at_lookup stored_tree_def good intro!: tidy_but_tidy [where N = ?N])
  qed
qed

abbreviation dest_path :: "config \<Rightarrow> destination_config \<Rightarrow> path" where
  "dest_path config dc \<equiv> ld_path (configured config dc)"

definition stored_outcomes :: "destination_config list \<Rightarrow> destination_outcome list" where
  "stored_outcomes dcs = map (\<lambda>dc. \<lparr>do_name = d_name dc, do_stored = True, do_error = []\<rparr>) dcs"

lemma frames_stored:
  assumes "apart q p"
  shows "stable q (\<lambda>f. tidy p f \<and> lookup_tree f (p @ [i]) = t)" "grows q (\<lambda>f. tidy p f \<and> lookup_tree f (p @ [i]) = t)"
    "stable q (\<lambda>f. tidy p f \<and> \<not> exists_at f (p @ [i]))" "grows q (\<lambda>f. tidy p f \<and> \<not> exists_at f (p @ [i]))"
proof -
  have a: "apart q (p @ [i])" "\<not> is_prefix (p @ [i]) q"
    using apart_below [OF assms, of "[]" "[i]"] by (simp_all add: apart_def)
  show "stable q (\<lambda>f. tidy p f \<and> lookup_tree f (p @ [i]) = t)" "grows q (\<lambda>f. tidy p f \<and> lookup_tree f (p @ [i]) = t)"
    by (intro stable_conj grows_conj frames_tidy_apart assms stable_lookup [where P = "\<lambda>u. u = t"]
        grows_lookup [where P = "\<lambda>u. u = t"] a)+
  show "stable q (\<lambda>f. tidy p f \<and> \<not> exists_at f (p @ [i]))" "grows q (\<lambda>f. tidy p f \<and> \<not> exists_at f (p @ [i]))"
    unfolding exists_at_def
    by (intro stable_conj grows_conj frames_tidy_apart assms stable_lookup [where P = "\<lambda>t. \<not> t \<noteq> None"]
        grows_lookup [where P = "\<lambda>t. \<not> t \<noteq> None"] a)+
qed

lemma fine_store_all:
  assumes "\<forall>dc \<in> set dcs. d_type dc = ''local'' \<and> apart (dest_path config dc) src"
    and "sorted_wrt apart (map (dest_path config) dcs)" "local_storable i"
    and "\<forall>dc \<in> set dcs. stable (dest_path config dc) K \<and> grows (dest_path config dc) K"
  shows "fine b (\<lambda>f. lookup_tree f src = Some (FDir es) \<and> K f \<and>
      (\<forall>dc \<in> set dcs. tidy (dest_path config dc) f \<and> \<not> exists_at f (dest_path config dc @ [i])))
    (store_to_destinations exec config dcs src i :: ('e, destination_outcome list) io)
    (\<lambda>os f. (lookup_tree f src = Some (FDir es) \<and> K f \<and> (\<forall>dc \<in> set dcs. tidy (dest_path config dc) f \<and>
        lookup_tree f (dest_path config dc @ [i]) = Some (stored_tree (FDir es)))) \<and> os = stored_outcomes dcs)"
  using assms
proof (induction dcs arbitrary: K)
  case Nil
  show ?case by (simp add: fine_ret stored_outcomes_def)
next
  case (Cons dc dcs)
  let ?p = "dest_path config dc" and ?q = "dest_path config"
  let ?src = "\<lambda>f. lookup_tree f src = Some (FDir es)" and ?c = "Some (stored_tree (FDir es))"
  let ?todo = "\<lambda>f. \<forall>dc \<in> set dcs. tidy (?q dc) f \<and> \<not> exists_at f (?q dc @ [i])"
  let ?K = "\<lambda>f. (tidy ?p f \<and> lookup_tree f (?p @ [i]) = ?c) \<and> K f"
  have ap: "apart ?p (?q dc')" "apart (?q dc') ?p" if "dc' \<in> set dcs" for dc'
    using Cons.prems(2) that by (auto intro: apart_sym)
  have d: "d_type dc = ''local''" "apart ?p src" "stable ?p K" "grows ?p K" using Cons.prems by auto
  have todo: "stable ?p (\<lambda>f. K f \<and> ?todo f)" "grows ?p (\<lambda>f. K f \<and> ?todo f)"
    by (intro stable_conj grows_conj stable_Ball grows_Ball d frames_stored ap; assumption)+
  have one: "fine b (\<lambda>f. ?src f \<and> K f \<and> (\<forall>dc' \<in> set (dc # dcs). tidy (?q dc') f \<and> \<not> exists_at f (?q dc' @ [i])))
      (local_store (configured config dc) src i :: ('e, unit) io) (\<lambda>_ f. ?src f \<and> ?K f \<and> ?todo f)"
    by (rule fine_weaken [OF fine_store_tidy [OF d(2) Cons.prems(3) todo, of b es]]) auto
  have rest: "fine b (\<lambda>f. ?src f \<and> ?K f \<and> ?todo f) (store_to_destinations exec config dcs src i :: ('e, destination_outcome list) io)
      (\<lambda>os f. (?src f \<and> ?K f \<and> (\<forall>dc \<in> set dcs. tidy (?q dc) f \<and> lookup_tree f (?q dc @ [i]) = ?c)) \<and> os = stored_outcomes dcs)"
  proof (rule Cons.IH)
    show "\<forall>dc' \<in> set dcs. stable (?q dc') ?K \<and> grows (?q dc') ?K"
    proof
      fix dc' assume dc': "dc' \<in> set dcs"
      have "stable (?q dc') K" "grows (?q dc') K" using Cons.prems(4) dc' by simp_all
      then show "stable (?q dc') ?K \<and> grows (?q dc') ?K"
        by (intro conjI stable_conj [OF frames_stored(1)] grows_conj [OF frames_stored(2)] ap dc')
    qed
  qed (use Cons.prems in auto)
  have out: "fine b (\<lambda>f. (?src f \<and> ?K f \<and> (\<forall>dc \<in> set dcs. tidy (?q dc) f \<and> lookup_tree f (?q dc @ [i]) = ?c)) \<and> os = stored_outcomes dcs)
      (ret (\<lparr>do_name = d_name dc, do_stored = True, do_error = []\<rparr> # os) :: ('e, destination_outcome list) io)
      (\<lambda>os f. (?src f \<and> K f \<and> (\<forall>dc \<in> set (dc # dcs). tidy (?q dc) f \<and> lookup_tree f (?q dc @ [i]) = ?c)) \<and> os = stored_outcomes (dc # dcs))"
    for os
    by (rule fine_ret) (auto simp: stored_outcomes_def)
  show ?case
    unfolding store_to_destinations.simps build_local [OF d(1)] bnd_lift_Inr local_operations
    by (rule fine_except_else [OF one fine_sq [OF fine_log fine_bnd [OF rest out]]])
qed

subsection \<open>Purging everywhere\<close>

lemma fine_purge_stored:
  fixes L :: "ftree \<Rightarrow> bool"
  assumes "purgeable config now" "\<forall>dc \<in> set (c_destinations config). d_type dc = ''local''"
    and "sorted_wrt apart (map (dest_path config) (c_destinations config))"
    and "\<forall>dc \<in> set (c_destinations config). stable (dest_path config dc) L"
    and "\<forall>o' \<in> set os. do_name o' \<in> d_name ` set (c_destinations config)"
  shows "fine True (\<lambda>f. (\<forall>dc \<in> set (c_destinations config). tidy (dest_path config dc) f) \<and> L f)
    (purge_stored_destinations exec config os i now False :: ('e, bool) io)
    (\<lambda>err f. ((\<forall>dc \<in> set (c_destinations config). tidy (dest_path config dc) f) \<and> L f) \<and> err = False)"
  using assms(5)
proof (induction os)
  case Nil
  show ?case by (simp add: fine_ret)
next
  case (Cons o' os)
  let ?q = "dest_path config" and ?dcs = "set (c_destinations config)"
  let ?I = "\<lambda>f. (\<forall>dc \<in> ?dcs. tidy (?q dc) f) \<and> L f"
  have "do_name o' \<in> fst ` set (rev (map (\<lambda>d. (d_name d, d)) (c_destinations config)))"
    using Cons.prems by force
  then obtain dc where dc: "destination_by_name config (do_name o') = Some dc"
    unfolding destination_by_name_def by (metis not_None_eq map_of_eq_None_iff)
  have mem: "dc \<in> ?dcs"
    using map_of_SomeD [OF dc [unfolded destination_by_name_def]] by auto
  have ap: "?q dc' = ?q dc \<or> apart (?q dc) (?q dc')" if "dc' \<in> ?dcs" for dc'
    using assms(3) mem that by (auto simp: sorted_wrt_iff_nth_less in_set_conv_nth) (metis apart_sym linorder_neqE_nat)
  let ?K = "\<lambda>f. (\<forall>dc' \<in> {dc' \<in> ?dcs. apart (?q dc) (?q dc')}. tidy (?q dc') f) \<and> L f"
  have st: "stable (?q dc) ?K"
    by (intro stable_conj stable_Ball frames_tidy_apart) (use assms(4) mem in auto)
  have same: "?I f \<longleftrightarrow> tidy (?q dc) f \<and> ?K f" for f
    using ap mem by (metis (no_types, lifting) mem_Collect_eq)
  have one: "fine True ?I (purge_one_destination exec config dc now False ip :: ('e, destination_purge_result \<times> bool) io)
      (\<lambda>r f. ?I f \<and> snd r = False)" for ip
    unfolding same by (rule fine_purge_one [OF assms(1) _ st]) (use assms(2) mem in blast)
  have rest: "fine True (\<lambda>f. ?I f \<and> snd r = False) ((case r of (_, error) \<Rightarrow>
      purge_stored_destinations exec config os i now (False \<or> error)) :: ('e, bool) io) (\<lambda>err f. ?I f \<and> err = False)"
    for r :: "destination_purge_result \<times> bool"
    by (rule fine_assume) (use Cons in \<open>simp add: split_beta\<close>)
  show ?case unfolding purge_stored_destinations.simps dc option.case
    by (rule fine_bnd [OF one rest])
qed

subsection \<open>From the manifest to the end of the run\<close>

lemma quiet_hook: "fine b I (run_hook exec [] inp ff :: ('e, unit) io) (\<lambda>_. I)"
  by (simp add: run_hook_def fine_ret)

lemma held_copy:
  assumes "lookup_tree f (ld_path d @ [i]) = Some (stored_tree (FDir es))" "map_of es meta_filename = Some (FFile m)"
    and "local_storable i"
  shows "local_holds d f i = Some (stored_tree (FDir es))"
proof -
  have "is_file_at f (ld_path d @ [i, meta_filename])"
    using lookup_append [of f "ld_path d @ [i]" "[meta_filename]"] assms(1,2)
      map_of_eq_None_iff [THEN iffD2, OF meta_not_copied [of es]]
    by (simp add: is_file_at_def stored_tree_def map_add_def)
  with assms show ?thesis by (simp add: local_holds_def complete_at_def local_storable_def)
qed

text \<open>The destinations of a configuration, as the model of a local destination has them.\<close>

abbreviation dests_of :: "config \<Rightarrow> local_destination set" where
  "dests_of config \<equiv> configured config ` set (c_destinations config)"

lemma fine_finish:
  fixes config :: config
  defines "dcs \<equiv> c_destinations config"
  assumes "purgeable config now" "\<forall>dc \<in> set dcs. d_type dc = ''local'' \<and> 1 \<le> d_keep dc"
    and "sorted_wrt apart (map (dest_path config) dcs)" "\<forall>dc \<in> set dcs. apart (dest_path config dc) (q @ [x])"
    and "h_pre_purge (c_hooks config) = []" "h_post_run (c_hooks config) = []"
  shows "fine True (\<lambda>f. is_dir_at f (q @ [x]) \<and> wf_tree f \<and> run_inv (dests_of config) i c f \<and>
      held (dests_of config) i c f \<and> (\<forall>dc \<in> set dcs. tidy (dest_path config dc) f))
    (purge_and_finish exec config (q @ [x]) i now (stored_outcomes dcs) :: ('e, run_summary) io)
    (\<lambda>s f. s = \<lparr>rn_backup_id = i, rn_exit_code = SUCCESS, rn_outcomes = stored_outcomes dcs, rn_error = []\<rparr> \<and>
       \<not> exists_at f (q @ [x]) \<and> held (dests_of config) i c f)"
proof -
  let ?D = "dests_of config" and ?t = "q @ [x]"
  let ?R = "\<lambda>f. run_inv ?D i c f \<and> held ?D i c f" and ?T = "\<lambda>f. \<forall>dc \<in> set dcs. tidy (dest_path config dc) f"
  have spread: "spread ?D"
    unfolding spread_def using assms(4) unfolding dcs_def sorted_wrt_map
    by (auto simp: sorted_wrt_iff_nth_less in_set_conv_nth) (metis apart_sym linorder_neqE_nat)
  have ap: "apart ?t (dest_path config dc)" if "dc \<in> set dcs" for dc using assms(5) that by (blast intro: apart_sym)
  have stT: "stable ?t ?T" by (intro stable_Ball frames_tidy_apart ap)
  have keep: "fs_keeps ?R (rmtree_ignore ?t :: ('e, unit) io)"
    by (intro keeps_rmtree_ignore stable_run_inv) (use ap in \<open>auto simp: dcs_def\<close>)
  have gone: "fine True (\<lambda>f. is_dir_at f ?t \<and> wf_tree f \<and> run_inv ?D i c f \<and> held ?D i c f \<and> ?T f)
      (rmtree_ignore ?t :: ('e, unit) io) (\<lambda>_ f. (?T f \<and> \<not> exists_at f ?t) \<and> ?R f)"
    by (rule fine_weaken [OF fine_frame [OF fine_frame [OF fine_rmtree_ignore [where I = "\<lambda>f. is_dir_at f ?t \<and> wf_tree f"] keeps_rmtree_ignore [OF stT]] keep]]) auto
  have purge: "fine True (\<lambda>f. (?T f \<and> \<not> exists_at f ?t) \<and> ?R f)
      (purge_stored_destinations exec config (filter do_stored (stored_outcomes dcs)) i now False :: ('e, bool) io)
      (\<lambda>err f. (\<not> exists_at f ?t \<and> held ?D i c f) \<and> err = False)"
  proof -
    have "stable (dest_path config dc) (\<lambda>f. \<not> exists_at f ?t)" if "dc \<in> set dcs" for dc
      unfolding exists_at_def using assms(5) that by (intro stable_lookup [where P = "\<lambda>t. \<not> t \<noteq> None"]) simp
    then have "fine True (\<lambda>f. ?T f \<and> \<not> exists_at f ?t)
        (purge_stored_destinations exec config (filter do_stored (stored_outcomes dcs)) i now False :: ('e, bool) io)
        (\<lambda>err f. (?T f \<and> \<not> exists_at f ?t) \<and> err = False)"
      unfolding dcs_def using assms by (intro fine_purge_stored) (auto simp: stored_outcomes_def dcs_def)
    from fine_frame [OF this purge_stored_keeps_run [OF spread subset_refl, of config i c]] assms(3)
    show ?thesis by (auto simp: dcs_def elim!: fine_weaken)
  qed
  show ?thesis
    unfolding purge_and_finish_def assms(6)
  proof (rule fine_sq [OF gone], rule fine_sq [OF quiet_hook], rule fine_bnd [OF purge], rule fine_assume)
    fix err assume "err = False"
    then show "fine True (\<lambda>f. \<not> exists_at f ?t \<and> held ?D i c f) (let exit_code =
        (if filter (\<lambda>o'. \<not> do_stored o') (stored_outcomes dcs) \<noteq> [] then PARTIAL_DESTINATION_FAILURE
         else if err then PURGE_FAILED else SUCCESS)
      in sq (log_msg ''info'' (''run complete backup_id='' @ i @ '' exit_code='' @ str_int (exit_int exit_code)))
         (finish_run exec \<lparr>rn_backup_id = i, rn_exit_code = exit_code, rn_outcomes = stored_outcomes dcs, rn_error = []\<rparr>
            config) :: ('e, run_summary) io)
      (\<lambda>s f. s = \<lparr>rn_backup_id = i, rn_exit_code = SUCCESS, rn_outcomes = stored_outcomes dcs, rn_error = []\<rparr> \<and>
       \<not> exists_at f ?t \<and> held ?D i c f)"
      by (auto simp: Let_def stored_outcomes_def finish_run_def assms(7) filter_empty_conv
          intro!: fine_sq [OF fine_log] fine_sq [OF quiet_hook] fine_ret)
  qed
qed

lemma tidy_run_inv:
  assumes "\<forall>d \<in> ds. tidy (ld_path d) f \<and> \<not> exists_at f (ld_path d @ [i])"
    and "\<forall>d \<in> ds. \<forall>j. local_holds d f j \<noteq> None \<longrightarrow> j \<le> i"
  shows "run_inv ds i c f"
  using assms by (auto simp: run_inv_def local_ok_def tidy_def local_holds_def exists_at_def)

text \<open>
  The destinations are ready for the generation \<open>i\<close>: in order, without it, and with none newer.
\<close>

definition ready :: "config \<Rightarrow> string \<Rightarrow> ftree \<Rightarrow> bool" where
  "ready config i f \<longleftrightarrow> wf_tree f \<and> (\<forall>dc \<in> set (c_destinations config). tidy (dest_path config dc) f \<and>
     \<not> exists_at f (dest_path config dc @ [i]) \<and> (\<forall>j. local_holds (configured config dc) f j \<noteq> None \<longrightarrow> j \<le> i))"

text \<open>The configuration: local destinations side by side, apart from the path \<open>p\<close>; no hooks.\<close>

definition local_layout :: "config \<Rightarrow> path \<Rightarrow> bool" where
  "local_layout config p \<longleftrightarrow>
     (\<forall>dc \<in> set (c_destinations config). d_type dc = ''local'' \<and> 1 \<le> d_keep dc \<and> apart (dest_path config dc) p) \<and>
     sorted_wrt apart (map (dest_path config) (c_destinations config)) \<and>
     h_post_backup (c_hooks config) = [] \<and> h_pre_purge (c_hooks config) = [] \<and> h_post_run (c_hooks config) = []"

definition good_summary :: "config \<Rightarrow> string \<Rightarrow> run_summary" where
  "good_summary config i = \<lparr>rn_backup_id = i, rn_exit_code = SUCCESS, rn_outcomes = stored_outcomes (c_destinations config), rn_error = []\<rparr>"

lemma fine_distribute:
  assumes "purgeable config now" "local_storable i" "local_layout config target_dir" "target_dir \<noteq> []"
    and "map_of es meta_filename = Some (FFile m)"
  shows "fine True (\<lambda>f. lookup_tree f target_dir = Some (FDir es) \<and> ready config i f)
    (distribute exec config target_dir i now :: ('e, run_summary) io)
    (\<lambda>s f. s = good_summary config i \<and> \<not> exists_at f target_dir \<and> held (dests_of config) i (stored_tree (FDir es)) f)"
proof -
  let ?dcs = "c_destinations config" and ?D = "dests_of config" and ?c = "stored_tree (FDir es)"
  obtain q x where t: "target_dir = q @ [x]" using assms(4) by (meson rev_exhaust)
  have dests: "\<forall>dc \<in> set ?dcs. d_type dc = ''local'' \<and> 1 \<le> d_keep dc \<and> apart (dest_path config dc) target_dir"
    and sorted: "sorted_wrt apart (map (dest_path config) ?dcs)"
    and hooks: "h_post_backup (c_hooks config) = []" "h_pre_purge (c_hooks config) = []" "h_post_run (c_hooks config) = []"
    using assms(3) by (simp_all add: local_layout_def)
  let ?I = "\<lambda>f. lookup_tree f target_dir = Some (FDir es) \<and> wf_tree f \<and>
      (\<forall>dc \<in> set ?dcs. tidy (dest_path config dc) f \<and> \<not> exists_at f (dest_path config dc @ [i]))"
  let ?S = "source_and target_dir es (\<lambda>f. run_inv ?D i ?c f \<and> held {} i ?c f)"
  have spread: "spread ?D"
    unfolding spread_def using sorted unfolding sorted_wrt_map
    by (auto simp: sorted_wrt_iff_nth_less in_set_conv_nth) (metis apart_sym linorder_neqE_nat)
  have live: "fine True ?I (store_to_destinations exec config ?dcs target_dir i :: ('e, destination_outcome list) io)
      (\<lambda>os f. (lookup_tree f target_dir = Some (FDir es) \<and> wf_tree f \<and> (\<forall>dc \<in> set ?dcs. tidy (dest_path config dc) f \<and>
        lookup_tree f (dest_path config dc @ [i]) = Some ?c)) \<and> os = stored_outcomes ?dcs)"
    by (rule fine_store_all [OF _ sorted assms(2)]) (use dests in \<open>auto intro: frames\<close>)
  have safe: "triple (\<lambda>w. ?S (w_fs w)) (store_to_destinations exec config ?dcs target_dir i :: ('e, destination_outcome list) io)
      (\<lambda>_ w. ?S (w_fs w)) (\<lambda>_ _. True)"
    by (rule triple_weaken [OF store_all [OF spread _ empty_subsetI _ assms(2) refl assms(5)]]) (use dests in auto)
  have stores: "fine True (\<lambda>f. ?I f \<and> ?S f) (store_to_destinations exec config ?dcs target_dir i :: ('e, destination_outcome list) io)
      (\<lambda>os f. (is_dir_at f target_dir \<and> wf_tree f \<and> run_inv ?D i ?c f \<and> held ?D i ?c f \<and>
         (\<forall>dc \<in> set ?dcs. tidy (dest_path config dc) f)) \<and> os = stored_outcomes ?dcs)"
    by (rule fine_weaken [OF fine_and [OF live safe]])
       (auto simp: source_and_def held_def is_dir_at_conv intro: held_copy [OF _ assms(5,2)])
  have fin: "fine True (\<lambda>f. is_dir_at f target_dir \<and> wf_tree f \<and> run_inv ?D i ?c f \<and> held ?D i ?c f \<and>
         (\<forall>dc \<in> set ?dcs. tidy (dest_path config dc) f))
      (purge_and_finish exec config target_dir i now (stored_outcomes ?dcs) :: ('e, run_summary) io)
      (\<lambda>s f. s = good_summary config i \<and> \<not> exists_at f target_dir \<and> held ?D i ?c f)"
    unfolding t good_summary_def by (rule fine_finish [OF assms(1) _ sorted _ hooks(2,3)]) (use dests t in auto)
  have skip: "filter (\<lambda>o'. \<not> do_stored o') (stored_outcomes ?dcs) = []" by (simp add: stored_outcomes_def filter_empty_conv)
  have "fine True (\<lambda>f. ?I f \<and> ?S f) (distribute exec config target_dir i now :: ('e, run_summary) io)
      (\<lambda>s f. s = good_summary config i \<and> \<not> exists_at f target_dir \<and> held ?D i ?c f)"
    unfolding distribute_def hooks
    by (rule fine_sq [OF quiet_hook fine_bnd [OF stores]])
       (rule fine_assume, simp add: skip fin)
  moreover have "?I f \<and> ?S f" if "lookup_tree f target_dir = Some (FDir es)" "ready config i f" for f
  proof -
    have "run_inv ?D i ?c f" by (rule tidy_run_inv) (use that(2) in \<open>auto simp: ready_def\<close>)
    with that show ?thesis by (simp add: source_and_def held_def ready_def)
  qed
  ultimately show ?thesis by (rule fine_weaken) auto
qed

end
