(* ===== verification/Json_Read.thy ===== *)
theory Json_Read
  imports Json
begin

text \<open>
  \<open>json.loads\<close>: a lexer and an automaton with a stack, so that both are recursions over
  their input. A string that is read is the list of its code points, as \<open>\u\<close> escapes reach
  beyond the characters of the model; a number with a fraction or an exponent stays the
  text it was read from. Every error is the one \<open>JSONDecodeError\<close>. The theorem is that
  reading what \<open>json.dumps\<close> prints gives the value back.
\<close>

datatype pyjson =
    RNull
  | RBool bool
  | RInt int
  | RReal string
  | RStr "nat list"
  | RList "pyjson list"
  | RObj "(nat list \<times> pyjson) list"

subsection \<open>The lexer\<close>

definition hex_val :: "char \<Rightarrow> nat option" where
  "hex_val c =
     (let n = code_pt c in
      if 48 \<le> n \<and> n \<le> 57 then Some (n - 48)
      else if 97 \<le> n \<and> n \<le> 102 then Some (n - 87)
      else if 65 \<le> n \<and> n \<le> 70 then Some (n - 55)
      else None)"

definition hex4 :: "char \<Rightarrow> char \<Rightarrow> char \<Rightarrow> char \<Rightarrow> nat option" where
  "hex4 a b c d = (case (hex_val a, hex_val b, hex_val c, hex_val d) of
       (Some x, Some y, Some z, Some u) \<Rightarrow> Some (4096 * x + 256 * y + 16 * z + u) | _ \<Rightarrow> None)"

text \<open>The escapes of one character, by code point.\<close>

definition json_escape :: "char \<Rightarrow> nat option" where
  "json_escape c = map_of [(0x22, 0x22), (0x5C, 0x5C), (0x2F, 0x2F), (0x62, 8), (0x66, 12), (0x6E, 10),
      (0x72, 13), (0x74, 9)] (code_pt c)"

text \<open>One character or escape of a string, and the rest of a string after its opening quote.\<close>

definition scan_unit :: "char \<Rightarrow> string \<Rightarrow> (nat \<times> string) option" where
  "scan_unit c cs =
     (if c = CHR 0x5C then
        (case cs of
           [] \<Rightarrow> None
         | e # es \<Rightarrow>
             if e = CHR ''u'' then
               (case es of
                  x # y # z # u # rest \<Rightarrow> map_option (\<lambda>n. (n, rest)) (hex4 x y z u)
                | _ \<Rightarrow> None)
             else map_option (\<lambda>n. (n, es)) (json_escape e))
      else if code_pt c < 32 then None
      else Some (code_pt c, cs))"

lemma scan_unit_length: "scan_unit c cs = Some (n, r) \<Longrightarrow> length r < Suc (length cs)"
  by (auto simp: scan_unit_def split: if_splits list.splits)

function scan_string :: "nat list \<Rightarrow> string \<Rightarrow> (nat list \<times> string) option" where
  "scan_string acc [] = None"
| "scan_string acc (c # cs) =
     (if c = CHR 0x22 then Some (acc, cs)
      else case scan_unit c cs of None \<Rightarrow> None | Some (n, rest) \<Rightarrow> scan_string (acc @ [n]) rest)"
  by pat_completeness auto
termination by (relation "measure (\<lambda>(_, s). length s)") (auto dest: scan_unit_length)

text \<open>A high surrogate followed by a low one is one code point.\<close>

fun join_surrogates :: "nat list \<Rightarrow> nat list" where
  "join_surrogates (h # l # s) =
     (if 0xD800 \<le> h \<and> h \<le> 0xDBFF \<and> 0xDC00 \<le> l \<and> l \<le> 0xDFFF
      then (0x10000 + (h - 0xD800) * 0x400 + (l - 0xDC00)) # join_surrogates s
      else h # join_surrogates (l # s))"
| "join_surrogates s = s"

definition digits_of :: "string \<Rightarrow> string \<times> string" where
  "digits_of s = (takeWhile is_ascii_digit s, dropWhile is_ascii_digit s)"

definition scan_fraction :: "string \<Rightarrow> string \<times> string" where
  "scan_fraction s = (case s of
       c # d # cs \<Rightarrow> if c = CHR ''.'' \<and> is_ascii_digit d
          then (case digits_of (d # cs) of (ds, r) \<Rightarrow> (c # ds, r)) else ([], s)
     | _ \<Rightarrow> ([], s))"

definition scan_exponent :: "string \<Rightarrow> string \<times> string" where
  "scan_exponent s = (case s of
       e # cs \<Rightarrow>
         if e = CHR ''e'' \<or> e = CHR ''E'' then
           (case cs of
              g # d # r \<Rightarrow>
                if is_ascii_digit g then (case digits_of cs of (ds, r') \<Rightarrow> (e # ds, r'))
                else if (g = CHR ''+'' \<or> g = CHR ''-'') \<and> is_ascii_digit d
                then (case digits_of (d # r) of (ds, r') \<Rightarrow> (e # g # ds, r'))
                else ([], s)
            | [g] \<Rightarrow> if is_ascii_digit g then ([e, g], []) else ([], s)
            | [] \<Rightarrow> ([], s))
         else ([], s)
     | [] \<Rightarrow> ([], s))"

text \<open>The digits before the point: a zero alone, or no leading zero.\<close>

definition scan_whole :: "string \<Rightarrow> string \<times> string" where
  "scan_whole s = (case s of
       c # cs \<Rightarrow> if c = CHR ''0'' then ([c], cs) else digits_of s
     | [] \<Rightarrow> ([], []))"

definition scan_number :: "string \<Rightarrow> (pyjson \<times> string) option" where
  "scan_number s =
     (let (sign, s1) = (case s of c # cs \<Rightarrow> if c = CHR ''-'' then ([c], cs) else ([], s) | [] \<Rightarrow> ([], s));
          (whole, s2) = scan_whole s1
      in if whole = [] then None
         else let (fraction, s3) = scan_fraction s2; (exponent, s4) = scan_exponent s3
           in Some (if fraction = [] \<and> exponent = []
                    then RInt ((if sign = [] then 1 else - 1) * int (nat_of_digits 0 whole))
                    else RReal (sign @ whole @ fraction @ exponent), s4))"

definition json_words :: "(string \<times> pyjson) list" where
  "json_words = [(''null'', RNull), (''true'', RBool True), (''false'', RBool False), (''NaN'', RReal ''NaN''),
     (''Infinity'', RReal ''Infinity''), (''-Infinity'', RReal ''-Infinity'')]"

definition scan_word :: "string \<Rightarrow> (pyjson \<times> string) option" where
  "scan_word s = (case filter (\<lambda>(w, v). starts_with w s) json_words of
       [] \<Rightarrow> scan_number s | (w, v) # _ \<Rightarrow> Some (v, drop (length w) s))"

datatype token = TBrace | TEndBrace | TBracket | TEndBracket | TComma | TColon | TValue pyjson

definition json_punct :: "char \<Rightarrow> token option" where
  "json_punct c = map_of [(0x7B, TBrace), (0x7D, TEndBrace), (0x5B, TBracket), (0x5D, TEndBracket), (0x2C, TComma),
     (0x3A, TColon)] (code_pt c)"

definition json_space :: "char \<Rightarrow> bool" where
  "json_space c \<longleftrightarrow> code_pt c \<in> {9, 10, 13, 32}"

lemma scan_string_length: "scan_string acc s = Some (x, r) \<Longrightarrow> length r < length s"
proof (induction acc s rule: scan_string.induct)
  case (2 acc c cs)
  show ?case
  proof (cases "c = CHR 0x22")
    case False
    with 2(2) obtain n rest where u: "scan_unit c cs = Some (n, rest)" and s: "scan_string (acc @ [n]) rest = Some (x, r)"
      by (auto split: option.splits)
    from 2(1) [OF False u refl s] scan_unit_length [OF u] show ?thesis by simp
  qed (use 2(2) in simp)
qed simp

lemma digits_of_length: "digits_of s = (a, b) \<Longrightarrow> length s = length a + length b"
  unfolding digits_of_def by (metis Pair_inject length_append takeWhile_dropWhile_id)

lemma scan_fraction_length: "scan_fraction s = (a, b) \<Longrightarrow> length b \<le> length s"
  by (auto simp: scan_fraction_def split: list.splits if_splits prod.splits dest!: digits_of_length)

lemma scan_exponent_length: "scan_exponent s = (a, b) \<Longrightarrow> length b \<le> length s"
  by (auto simp: scan_exponent_def split: list.splits if_splits prod.splits dest!: digits_of_length)

lemma scan_whole_length: "scan_whole s = (a, b) \<Longrightarrow> a \<noteq> [] \<Longrightarrow> length b < length s"
  by (auto simp: scan_whole_def split: list.splits if_splits dest!: digits_of_length)

lemma scan_number_length: "scan_number s = Some (v, r) \<Longrightarrow> length r < length s"
  by (auto simp: scan_number_def Let_def split: list.splits if_splits prod.splits
      dest!: scan_fraction_length scan_exponent_length scan_whole_length)

lemma scan_word_length:
  assumes "scan_word s = Some (v, r)"
  shows "length r < length s"
proof (cases "filter (\<lambda>(w, v). starts_with w s) json_words")
  case Nil
  with assms show ?thesis by (simp add: scan_word_def scan_number_length)
next
  case (Cons x xs)
  obtain w u where x: "x = (w, u)" by (cases x)
  from Cons have "x \<in> set (filter (\<lambda>(w, v). starts_with w s) json_words)" by simp
  then have "(w, u) \<in> set json_words" "starts_with w s" by (auto simp: x)
  moreover from this(1) have "w \<noteq> []" by (auto simp: json_words_def)
  moreover have "r = drop (length w) s"
    using assms unfolding scan_word_def Cons x by simp
  ultimately show ?thesis by (auto simp: starts_with_iff)
qed

text \<open>The tokens of a text, \<open>None\<close> when it has a character that begins none.\<close>

function json_lex :: "string \<Rightarrow> token list option" where
  "json_lex [] = Some []"
| "json_lex (c # cs) =
     (if json_space c then json_lex cs
      else case json_punct c of
          Some t \<Rightarrow> map_option (Cons t) (json_lex cs)
        | None \<Rightarrow>
            if c = CHR 0x22
            then (case scan_string [] cs of
                None \<Rightarrow> None
              | Some (s, rest) \<Rightarrow> map_option (Cons (TValue (RStr (join_surrogates s)))) (json_lex rest))
            else (case scan_word (c # cs) of
                None \<Rightarrow> None
              | Some (v, rest) \<Rightarrow> map_option (Cons (TValue v)) (json_lex rest)))"
  by pat_completeness auto
termination
  by (relation "measure length") (auto dest: scan_string_length scan_word_length)

subsection \<open>The parser\<close>

text \<open>An assignment to a key of a \<open>dict\<close>: the key keeps its place.\<close>

fun dict_put :: "'k \<Rightarrow> 'v \<Rightarrow> ('k \<times> 'v) list \<Rightarrow> ('k \<times> 'v) list" where
  "dict_put k v [] = [(k, v)]"
| "dict_put k v ((k', v') # kvs) = (if k' = k then (k, v) # kvs else (k', v') # dict_put k v kvs)"

text \<open>
  Where the parser is: before a value, before a value or the end of an array, before a
  key or the end of an object, before a key, before a colon, or after a value; and the
  arrays and objects that are still open.
\<close>

datatype position =
    At_Value
  | At_First
  | At_First_Key
  | At_Key "(nat list \<times> pyjson) list"
  | At_Colon "(nat list \<times> pyjson) list" "nat list"
  | After pyjson

datatype frame =
    In_List "pyjson list"
  | In_Obj "(nat list \<times> pyjson) list" "nat list"

type_synonym parse_state = "position \<times> frame list"

definition value_step :: "frame list \<Rightarrow> token \<Rightarrow> parse_state option" where
  "value_step fs t = (case t of
       TValue v \<Rightarrow> Some (After v, fs)
     | TBracket \<Rightarrow> Some (At_First, fs)
     | TBrace \<Rightarrow> Some (At_First_Key, fs)
     | _ \<Rightarrow> None)"

definition key_step :: "(nat list \<times> pyjson) list \<Rightarrow> frame list \<Rightarrow> token \<Rightarrow> parse_state option" where
  "key_step kvs fs t = (case t of TValue (RStr k) \<Rightarrow> Some (At_Colon kvs k, fs) | _ \<Rightarrow> None)"

definition after_step :: "pyjson \<Rightarrow> frame list \<Rightarrow> token \<Rightarrow> parse_state option" where
  "after_step v fs t = (case fs of
       [] \<Rightarrow> None
     | In_List vs # fs' \<Rightarrow>
         if t = TComma then Some (At_Value, In_List (vs @ [v]) # fs')
         else if t = TEndBracket then Some (After (RList (vs @ [v])), fs')
         else None
     | In_Obj kvs k # fs' \<Rightarrow>
         if t = TComma then Some (At_Key (dict_put k v kvs), fs')
         else if t = TEndBrace then Some (After (RObj (dict_put k v kvs)), fs')
         else None)"

fun json_step :: "parse_state \<Rightarrow> token \<Rightarrow> parse_state option" where
  "json_step (At_Value, fs) t = value_step fs t"
| "json_step (At_First, fs) t =
     (if t = TEndBracket then Some (After (RList []), fs) else value_step (In_List [] # fs) t)"
| "json_step (At_First_Key, fs) t =
     (if t = TEndBrace then Some (After (RObj []), fs) else key_step [] fs t)"
| "json_step (At_Key kvs, fs) t = key_step kvs fs t"
| "json_step (At_Colon kvs k, fs) t = (if t = TColon then Some (At_Value, In_Obj kvs k # fs) else None)"
| "json_step (After v, fs) t = after_step v fs t"

fun json_run :: "parse_state \<Rightarrow> token list \<Rightarrow> parse_state option" where
  "json_run st [] = Some st"
| "json_run st (t # ts) = (case json_step st t of None \<Rightarrow> None | Some st' \<Rightarrow> json_run st' ts)"

definition json_loads :: "string \<Rightarrow> pyjson option" where
  "json_loads s = (case json_lex s of
       None \<Rightarrow> None
     | Some ts \<Rightarrow> (case json_run (At_Value, []) ts of Some (After v, []) \<Rightarrow> Some v | _ \<Rightarrow> None))"

lemma json_run_append:
  "json_run st (xs @ ys) = (case json_run st xs of None \<Rightarrow> None | Some st' \<Rightarrow> json_run st' ys)"
  by (induction xs arbitrary: st) (auto split: option.split)

lemma dict_put_new: "k \<notin> fst ` set kvs \<Longrightarrow> dict_put k v kvs = kvs @ [(k, v)]"
  by (induction kvs) auto

subsection \<open>Reading what is printed\<close>

fun read_back :: "jval \<Rightarrow> pyjson" where
  "read_back JNull = RNull"
| "read_back (JBool b) = RBool b"
| "read_back (JInt i) = RInt i"
| "read_back (JStr s) = RStr (map code_pt s)"
| "read_back (JList vs) = RList (map read_back vs)"
| "read_back (JObj kvs) = RObj (map (\<lambda>(k, v). (map code_pt k, read_back v)) kvs)"

fun with_commas :: "token list list \<Rightarrow> token list" where
  "with_commas [] = []"
| "with_commas [x] = x"
| "with_commas (x # y # ys) = x @ TComma # with_commas (y # ys)"

fun tokens_of :: "jval \<Rightarrow> token list" where
  "tokens_of (JList vs) = TBracket # with_commas (map tokens_of vs) @ [TEndBracket]"
| "tokens_of (JObj kvs) = TBrace #
     with_commas (map (\<lambda>(k, v). TValue (RStr (map code_pt k)) # TColon # tokens_of v) kvs) @ [TEndBrace]"
| "tokens_of v = [TValue (read_back v)]"

fun distinct_keys :: "jval \<Rightarrow> bool" where
  "distinct_keys (JList vs) = (\<forall>v \<in> set vs. distinct_keys v)"
| "distinct_keys (JObj kvs) = (distinct (map fst kvs) \<and> (\<forall>(k, v) \<in> set kvs. distinct_keys v))"
| "distinct_keys v = True"

lemma code_pt_char_of: "n < 256 \<Longrightarrow> code_pt (char_of n) = n"
  by (simp add: code_pt_def)

lemma code_pt_less: "code_pt c < 256"
  by (simp add: code_pt_def)

lemma code_pt_eq: "code_pt c = n \<Longrightarrow> c = char_of n"
  by (auto simp: code_pt_def)

lemma hex_val_digit: "d < 16 \<Longrightarrow> hex_val (hex_digit d) = Some d"
  by (auto simp: hex_val_def hex_digit_def code_pt_char_of Let_def)

lemma scan_unit_json_char:
  "\<exists>x xs. json_char c = x # xs \<and> x \<noteq> CHR 0x22 \<and> scan_unit x (xs @ r) = Some (code_pt c, r)"
proof -
  let ?n = "code_pt c"
  have esc: "json_escape (CHR ''n'') = Some 10" "json_escape (CHR ''r'') = Some 13" "json_escape (CHR ''t'') = Some 9"
    "json_escape (CHR ''f'') = Some 12" "json_escape (CHR ''b'') = Some 8" "json_escape (CHR 0x22) = Some 0x22"
    "json_escape (CHR 0x5C) = Some 0x5C"
    by (simp_all add: json_escape_def code_pt_def)
  consider "?n \<in> {0x22, 0x5C, 0x0A, 0x0D, 0x09, 0x0C, 0x08}"
    | "?n \<notin> {0x22, 0x5C, 0x0A, 0x0D, 0x09, 0x0C, 0x08}" "0x20 \<le> ?n \<and> ?n < 0x7F"
    | "?n \<notin> {0x22, 0x5C, 0x0A, 0x0D, 0x09, 0x0C, 0x08}" "\<not> (0x20 \<le> ?n \<and> ?n < 0x7F)" by blast
  then show ?thesis
  proof cases
    case 1
    then show ?thesis by (auto simp: json_char_def scan_unit_def esc Let_def)
  next
    case 2
    then have "c \<noteq> CHR 0x22" "c \<noteq> CHR 0x5C" by (auto simp: code_pt_def)
    with 2 show ?thesis by (simp add: json_char_def scan_unit_def Let_def)
  next
    case 3
    have "hex4 (CHR ''0'') (CHR ''0'') (hex_digit (?n div 16)) (hex_digit (?n mod 16)) = Some ?n"
      using code_pt_less [of c] by (simp add: hex4_def hex_val_digit less_mult_imp_div_less)
        (simp add: hex_val_def code_pt_def)
    with 3 show ?thesis by (auto simp: json_char_def scan_unit_def Let_def)
  qed
qed

lemma scan_string_json: "scan_string acc (concat (map json_char s) @ CHR 0x22 # r) = Some (acc @ map code_pt s, r)"
proof (induction s arbitrary: acc)
  case (Cons c s)
  obtain x xs where x: "json_char c = x # xs" "x \<noteq> CHR 0x22"
    "scan_unit x (xs @ concat (map json_char s) @ CHR 0x22 # r) = Some (code_pt c, concat (map json_char s) @ CHR 0x22 # r)"
    using scan_unit_json_char by blast
  with Cons show ?case by simp
qed simp

lemma join_surrogates_id: "(\<forall>n \<in> set s. n < 0xD800) \<Longrightarrow> join_surrogates s = s"
  by (induction s rule: join_surrogates.induct) auto

lemma json_lex_str:
  "json_lex (json_str s @ r) = map_option (Cons (TValue (RStr (map code_pt s)))) (json_lex r)"
proof -
  have "join_surrogates (map code_pt s) = map code_pt s"
    by (intro join_surrogates_id) (auto intro: less_trans [OF code_pt_less])
  then show ?thesis
    using scan_string_json [of "[]" s r]
    by (simp add: json_str_def json_space_def json_punct_def code_pt_def)
qed

text \<open>What follows a value in a printed text.\<close>

definition delimited :: "string \<Rightarrow> bool" where
  "delimited r \<longleftrightarrow> (case r of [] \<Rightarrow> True | c # _ \<Rightarrow> code_pt c \<in> {10, 0x2C, 0x5D, 0x7D})"

lemma str_nat_zero_head: "str_nat n = CHR ''0'' # cs \<Longrightarrow> n = 0 \<and> cs = []"
proof (induction n arbitrary: cs rule: str_nat.induct)
  case (1 n)
  show ?case
  proof (cases "n < 10")
    case True
    with 1(2) show ?thesis
      using code_pt_digit_char [OF True] by (auto simp: str_nat.simps [of n] code_pt_def)
  next
    case False
    with 1(2) obtain ds where "str_nat (n div 10) = CHR ''0'' # ds"
      by (cases "str_nat (n div 10)") (auto simp: str_nat.simps [of n])
    from 1(1) [OF False this] have "n div 10 = 0" ..
    with False show ?thesis by (simp add: div_eq_0_iff)
  qed
qed

lemma delimited_not_number:
  "delimited r \<Longrightarrow> scan_fraction r = ([], r)" "delimited r \<Longrightarrow> scan_exponent r = ([], r)"
  "delimited r \<Longrightarrow> takeWhile is_ascii_digit r = []" "delimited r \<Longrightarrow> dropWhile is_ascii_digit r = r"
  by (auto simp: delimited_def scan_fraction_def scan_exponent_def is_ascii_digit_def code_pt_def split: list.splits)

lemma scan_whole_str_nat: "delimited r \<Longrightarrow> scan_whole (str_nat n @ r) = (str_nat n, r)"
proof (cases "str_nat n")
  case (Cons c cs)
  assume r: "delimited r"
  have "\<forall>c \<in> set (str_nat n). is_ascii_digit c" by (rule str_nat_digits)
  then have "digits_of (str_nat n @ r) = (str_nat n, r)"
    by (simp add: digits_of_def takeWhile_append2 dropWhile_append2 delimited_not_number [OF r])
  then show ?thesis
    using Cons str_nat_zero_head [of n cs] by (auto simp: scan_whole_def)
qed simp

lemma scan_number_str_int: "delimited r \<Longrightarrow> scan_number (str_int i @ r) = Some (RInt i, r)"
proof -
  assume r: "delimited r"
  obtain c cs where c: "str_nat (nat i) = c # cs" by (cases "str_nat (nat i)") auto
  then have "c \<noteq> CHR ''-''" using str_nat_digits [of "nat i"] ascii_digit_not_sign by auto
  with c r show ?thesis
    using scan_whole_str_nat [OF r, of "nat i"] scan_whole_str_nat [OF r, of "nat (- i)"] nat_of_digits_str_nat [of "nat i"]
    by (auto simp: scan_number_def str_int_def delimited_not_number nat_of_digits_str_nat)
qed

lemma str_int_head: "\<exists>c cs. str_int i = c # cs \<and> (is_ascii_digit c \<or> c = CHR ''-'' \<and> cs \<noteq> [] \<and> is_ascii_digit (hd cs))"
proof -
  have "\<exists>c cs. str_nat n = c # cs \<and> is_ascii_digit c" for n
    using str_nat_digits [of n] by (cases "str_nat n") auto
  from this [of "nat i"] this [of "nat (- i)"] show ?thesis by (auto simp: str_int_def)
qed

definition numeric_head :: "string \<Rightarrow> bool" where
  "numeric_head s \<longleftrightarrow> (case s of
       [] \<Rightarrow> False | [c] \<Rightarrow> is_ascii_digit c | c # d # _ \<Rightarrow> is_ascii_digit c \<or> c = CHR ''-'' \<and> is_ascii_digit d)"

lemma no_word: "numeric_head s \<Longrightarrow> filter (\<lambda>(w, v). starts_with w s) json_words = []"
proof -
  assume "numeric_head s"
  then obtain c cs where s: "s = c # cs" "is_ascii_digit c \<or> c = CHR ''-'' \<and> (\<exists>d ds. cs = d # ds \<and> is_ascii_digit d)"
    by (auto simp: numeric_head_def split: list.splits)
  show ?thesis
  proof (cases "is_ascii_digit c")
    case True
    then have "c \<notin> {CHR ''n'', CHR ''t'', CHR ''f'', CHR ''N'', CHR ''I'', CHR ''-''}"
      by (auto simp: is_ascii_digit_def code_pt_def)
    then show ?thesis by (simp add: s(1) json_words_def starts_with_def)
  next
    case False
    with s(2) obtain d ds where "c = CHR ''-''" "cs = d # ds" "is_ascii_digit d" by auto
    moreover from this(3) have "d \<noteq> CHR ''I''" by (auto simp: is_ascii_digit_def code_pt_def)
    ultimately show ?thesis by (simp add: s(1) json_words_def starts_with_def)
  qed
qed

lemma numeric_head_append: "numeric_head s \<Longrightarrow> numeric_head (s @ q)"
  by (cases q) (auto simp: numeric_head_def split: list.splits)

lemma json_lex_int: "delimited r \<Longrightarrow> json_lex (str_int i @ r) = map_option (Cons (TValue (RInt i))) (json_lex r)"
proof -
  assume r: "delimited r"
  from str_int_head obtain c cs where c: "str_int i = c # cs"
    "is_ascii_digit c \<or> c = CHR ''-'' \<and> cs \<noteq> [] \<and> is_ascii_digit (hd cs)" by blast
  then have "filter (\<lambda>(w, v). starts_with w (str_int i @ r)) json_words = []"
    using c by (intro no_word numeric_head_append) (cases cs; auto simp: numeric_head_def)
  then have "scan_word (c # cs @ r) = Some (RInt i, r)"
    using scan_number_str_int [OF r, of i] c(1) by (simp add: scan_word_def)
  moreover have "\<not> json_space c" "json_punct c = None" "c \<noteq> CHR 0x22"
    using c(2) by (auto simp: json_space_def json_punct_def is_ascii_digit_def code_pt_def)
  ultimately show ?thesis using c(1) by simp
qed

lemma json_lex_word:
  "json_lex (''null'' @ r) = map_option (Cons (TValue RNull)) (json_lex r)"
  "json_lex (''true'' @ r) = map_option (Cons (TValue (RBool True))) (json_lex r)"
  "json_lex (''false'' @ r) = map_option (Cons (TValue (RBool False))) (json_lex r)"
  by (simp_all add: json_space_def json_punct_def code_pt_def scan_word_def json_words_def starts_with_def)

lemma json_lex_char [simp]:
  "json_lex (CHR ''['' # r) = map_option (Cons TBracket) (json_lex r)"
  "json_lex (CHR '']'' # r) = map_option (Cons TEndBracket) (json_lex r)"
  "json_lex (CHR ''{'' # r) = map_option (Cons TBrace) (json_lex r)"
  "json_lex (CHR ''}'' # r) = map_option (Cons TEndBrace) (json_lex r)"
  "json_lex (CHR '','' # r) = map_option (Cons TComma) (json_lex r)"
  "json_lex (CHR '':'' # r) = map_option (Cons TColon) (json_lex r)"
  by (simp_all add: json_space_def json_punct_def code_pt_def)

lemma json_lex_spaces [simp]: "(\<forall>c \<in> set sp. json_space c) \<Longrightarrow> json_lex (sp @ r) = json_lex r"
  by (induction sp) auto

declare json_lex.simps(2) [simp del]

text \<open>What a printer \<open>f\<close> of an item and its tokens \<open>g\<close> have to do with each other.\<close>

definition lexes :: "string \<Rightarrow> token list \<Rightarrow> bool" where
  "lexes s ts \<longleftrightarrow> (\<forall>r. delimited r \<longrightarrow> json_lex (s @ r) = map_option ((@) ts) (json_lex r))"

lemma append_fun: "(@) (x # xs) = (\<lambda>ys. x # xs @ ys)" "(@) (xs @ zs) = (\<lambda>ys. xs @ zs @ ys)"
  by (simp_all add: fun_eq_iff)

lemma lexesD: "lexes s ts \<Longrightarrow> delimited r \<Longrightarrow> json_lex (s @ r) = map_option ((@) ts) (json_lex r)"
  by (simp add: lexes_def)

lemma delimited_char [simp]: "delimited (CHR '','' # r)" "delimited (CHR '']'' # r)" "delimited (CHR ''}'' # r)"
  "delimited (CHR 0x0A # r)" "delimited []"
  by (simp_all add: delimited_def code_pt_def)

lemma lexes_join:
  assumes "\<forall>c \<in> set sp. json_space c" "\<forall>v \<in> set vs. lexes (f v) (g v)"
  shows "lexes (py_join (CHR '','' # sp) (map f vs)) (with_commas (map g vs))"
  using assms(2)
proof (induction vs)
  case Nil
  have "map_option ((@) []) x = x" for x :: "token list option" by (cases x) auto
  then show ?case by (simp add: lexes_def)
next
  case (Cons v vs)
  then have v: "lexes (f v) (g v)" by simp
  show ?case
  proof (cases vs)
    case Nil
    with v show ?thesis by simp
  next
    case (Cons u us)
    show ?thesis
      using Cons.IH Cons.prems lexesD [OF v] assms(1)
      by (simp add: local.Cons) (simp add: lexes_def option.map_comp comp_def append_fun)
  qed
qed

text \<open>Lexing a printed value: one line, or an object on several lines.\<close>

lemma lexes_entry: "lexes v ts \<Longrightarrow> lexes (json_str k @ '': '' @ v) (TValue (RStr (map code_pt k)) # TColon # ts)"
  using json_lex_spaces [of "'' ''"]
  by (simp add: lexes_def json_lex_str option.map_comp comp_def append_fun json_space_def code_pt_def)

lemma lexes_brackets:
  "lexes s ts \<Longrightarrow> lexes (CHR ''['' # s @ '']'') (TBracket # ts @ [TEndBracket])"
  "lexes s ts \<Longrightarrow> lexes (CHR ''{'' # s @ ''}'') (TBrace # ts @ [TEndBrace])"
  by (simp_all add: lexes_def option.map_comp comp_def append_fun)

lemma lexes_dumps: "lexes (json_dumps v) (tokens_of v)"
proof (induction v rule: json_dumps.induct)
  case (5 vs)
  have "lexes (py_join '', '' (map json_dumps vs)) (with_commas (map tokens_of vs))"
    by (rule lexes_join) (use 5 in \<open>auto simp: json_space_def code_pt_def\<close>)
  then show ?case using lexes_brackets(1) by simp
next
  case (6 kvs)
  have "lexes (json_str (fst kv) @ '': '' @ json_dumps (snd kv)) (TValue (RStr (map code_pt (fst kv))) # TColon # tokens_of (snd kv))"
    if "kv \<in> set kvs" for kv
    using 6 [OF that prod.collapse] by (rule lexes_entry)
  then have "lexes (py_join '', '' (map (\<lambda>(k, v). json_str k @ '': '' @ json_dumps v) kvs))
      (with_commas (map (\<lambda>(k, v). TValue (RStr (map code_pt k)) # TColon # tokens_of v) kvs))"
    by (intro lexes_join) (auto simp: json_space_def code_pt_def split_beta)
  then show ?case using lexes_brackets(2) by simp
qed (auto simp: lexes_def json_lex_int json_lex_word [simplified] json_lex_str append_fun)

lemma lexes_dumps_indented: "lexes (json_dumps_indented kvs) (tokens_of (JObj kvs))"
proof -
  have nl: "json_space (CHR 0x0A)" "json_space (CHR '' '')" by (simp_all add: json_space_def code_pt_def)
  have "lexes (''  '' @ json_str k @ '': '' @ json_dumps v) (TValue (RStr (map code_pt k)) # TColon # tokens_of v)" for k v
    using lexes_entry [OF lexes_dumps [of v], of k] json_lex_spaces [of "''  ''"] nl by (simp add: lexes_def)
  then have "lexes (py_join (CHR '','' # [CHR 0x0A]) (map (\<lambda>(k, v). ''  '' @ json_str k @ '': '' @ json_dumps v) kvs))
      (with_commas (map (\<lambda>(k, v). TValue (RStr (map code_pt k)) # TColon # tokens_of v) kvs))" (is "lexes ?s ?ts")
    by (intro lexes_join) (auto simp: nl split_beta)
  then have "lexes ([CHR 0x0A] @ ?s @ [CHR 0x0A]) ?ts"
    using json_lex_spaces [of "[CHR 0x0A]"] nl by (simp add: lexes_def)
  from lexes_brackets(2) [OF this] show ?thesis
    by (simp add: json_dumps_indented_def)
qed

text \<open>Parsing the tokens of a value.\<close>

definition yields_value :: "token list \<Rightarrow> pyjson \<Rightarrow> bool" where
  "yields_value ts v \<longleftrightarrow> (\<forall>fs us. json_run (At_Value, fs) (ts @ us) = json_run (After v, fs) us) \<and>
     (\<exists>t ts'. ts = t # ts' \<and> t \<noteq> TEndBracket)"

lemma yields_valueD: "yields_value ts v \<Longrightarrow> json_run (At_Value, fs) (ts @ us) = json_run (After v, fs) us"
  by (simp add: yields_value_def)

lemma run_first: "yields_value ts v \<Longrightarrow> json_run (At_First, fs) (ts @ us) = json_run (At_Value, In_List [] # fs) (ts @ us)"
  by (auto simp: yields_value_def)

lemma run_items:
  assumes "\<forall>v \<in> set (v # vs). yields_value (g v) (h v)"
  shows "json_run (At_Value, In_List acc # fs) (with_commas (map g (v # vs)) @ TEndBracket # us) =
    json_run (After (RList (acc @ map h (v # vs))), fs) us"
  using assms
proof (induction vs arbitrary: v acc)
  case Nil
  then show ?case by (simp add: yields_valueD after_step_def)
next
  case (Cons u us')
  then have "json_run (At_Value, In_List acc # fs) (g v @ ts) = json_run (After (h v), In_List acc # fs) ts" for ts
    by (intro yields_valueD) simp
  with Cons show ?case by (simp add: after_step_def)
qed

lemma run_entries:
  assumes "\<forall>(k, v) \<in> set (e # es). yields_value (g v) (h v)" "distinct (map fst (acc @ map (\<lambda>(k, v). (map code_pt k, h v)) (e # es)))"
    and "st = At_Key acc \<or> st = At_First_Key \<and> acc = []"
  shows "json_run (st, fs) (with_commas (map (\<lambda>(k, v). TValue (RStr (map code_pt k)) # TColon # g v) (e # es)) @ TEndBrace # us) =
    json_run (After (RObj (acc @ map (\<lambda>(k, v). (map code_pt k, h v)) (e # es))), fs) us"
  using assms
proof (induction es arbitrary: e acc st)
  case Nil
  then show ?case
    by (cases e) (auto simp: yields_valueD after_step_def key_step_def dict_put_new)
next
  case (Cons e' es)
  obtain k v where e: "e = (k, v)" by (cases e)
  have "json_run (st, fs) (with_commas (map (\<lambda>(k, v). TValue (RStr (map code_pt k)) # TColon # g v) (e # e' # es)) @ TEndBrace # us)
    = json_run (At_Key (acc @ [(map code_pt k, h v)]), fs)
       (with_commas (map (\<lambda>(k, v). TValue (RStr (map code_pt k)) # TColon # g v) (e' # es)) @ TEndBrace # us)"
    using Cons.prems by (auto simp: e yields_valueD after_step_def key_step_def dict_put_new)
  also have "\<dots> = json_run (After (RObj ((acc @ [(map code_pt k, h v)]) @ map (\<lambda>(k, v). (map code_pt k, h v)) (e' # es))), fs) us"
    by (rule Cons.IH) (use Cons.prems in \<open>auto simp: e\<close>)
  finally show ?case by (simp add: e)
qed

lemma inj_code_pts: "inj (map code_pt)"
  by (intro inj_mapI injI) (simp add: code_pt_def)

lemma yields_tokens: "distinct_keys v \<Longrightarrow> yields_value (tokens_of v) (read_back v)"
proof (induction v rule: json_dumps.induct)
  case (5 vs)
  then have vs: "\<forall>v \<in> set vs. yields_value (tokens_of v) (read_back v)" by simp
  show ?case
  proof (cases vs)
    case Nil
    then show ?thesis by (simp add: yields_value_def value_step_def)
  next
    case (Cons u us)
    then have "json_run (At_First, fs) (with_commas (map tokens_of vs) @ ws) =
        json_run (At_Value, In_List [] # fs) (with_commas (map tokens_of vs) @ ws)" for fs ws
      using vs run_first [of "tokens_of u" "read_back u" fs] by (cases us) auto
    with run_items [of u us tokens_of read_back "[]"] vs Cons show ?thesis
      by (simp add: yields_value_def value_step_def)
  qed
next
  case (6 kvs)
  then have kvs: "\<forall>(k, v) \<in> set kvs. yields_value (tokens_of v) (read_back v)" by auto
  have d: "distinct (map fst (map (\<lambda>(k, v). (map code_pt k, read_back v)) kvs))"
  proof -
    have "map fst (map (\<lambda>(k, v). (map code_pt k, read_back v)) kvs) = map (map code_pt) (map fst kvs)" by auto
    moreover have "distinct (map (map code_pt) (map fst kvs))"
      by (rule distinct_map [THEN iffD2]) (use 6(2) inj_on_subset [OF inj_code_pts] in auto)
    ultimately show ?thesis by (simp only:)
  qed
  show ?case
  proof (cases kvs)
    case Nil
    then show ?thesis by (simp add: yields_value_def value_step_def)
  next
    case (Cons e es)
    have "json_run (At_First_Key, fs) (with_commas (map (\<lambda>(k, v). TValue (RStr (map code_pt k)) # TColon # tokens_of v) kvs) @ TEndBrace # us)
       = json_run (After (RObj (map (\<lambda>(k, v). (map code_pt k, read_back v)) kvs)), fs) us" for fs us
      using run_entries [of e es tokens_of read_back "[]" At_First_Key fs us] kvs d by (simp add: Cons)
    then show ?thesis by (simp add: yields_value_def value_step_def)
  qed
qed (simp_all add: yields_value_def value_step_def)

text \<open>\<open>json.loads\<close> after \<open>json.dumps\<close>.\<close>

lemma loads_lexes:
  assumes "lexes s (tokens_of v)" "distinct_keys v" "\<forall>c \<in> set sp. json_space c" "delimited sp"
  shows "json_loads (s @ sp) = Some (read_back v)"
proof -
  have "json_lex sp = Some []" using json_lex_spaces [OF assms(3), of "[]"] by simp
  then have "json_lex (s @ sp) = Some (tokens_of v)" using lexesD [OF assms(1,4)] by simp
  moreover have "json_run (At_Value, []) (tokens_of v) = Some (After (read_back v), [])"
    using yields_valueD [OF yields_tokens [OF assms(2)], of "[]" "[]"] by simp
  ultimately show ?thesis by (simp add: json_loads_def)
qed

lemma loads_dumps: "distinct_keys v \<Longrightarrow> json_loads (json_dumps v) = Some (read_back v)"
  using loads_lexes [OF lexes_dumps, of v "[]"] by simp

end
