(* ===== verification/Json_Prefix.thy ===== *)
theory Json_Prefix
  imports Json_Read
begin

text \<open>
  No part of a printed object reads as a value: what the reader has made of a text it keeps
  when more text follows, and an object is only over with its closing brace.
\<close>

subsection \<open>More text\<close>

lemma scan_unit_more: "scan_unit c cs = Some (n, r) \<Longrightarrow> scan_unit c (cs @ q) = Some (n, r @ q)"
  by (auto simp: scan_unit_def split: if_splits list.splits)

lemma scan_string_more: "scan_string acc s = Some (x, r) \<Longrightarrow> scan_string acc (s @ q) = Some (x, r @ q)"
proof (induction acc s rule: scan_string.induct)
  case (2 acc c cs)
  show ?case
  proof (cases "c = CHR 0x22")
    case False
    with 2(2) obtain n rest where u: "scan_unit c cs = Some (n, rest)" and s: "scan_string (acc @ [n]) rest = Some (x, r)"
      by (auto split: option.splits)
    from 2(1) [OF False u refl s] scan_unit_more [OF u] False show ?thesis by simp
  qed (use 2(2) in simp)
qed simp

lemma digits_of_more: "digits_of s = (a, r0 # r) \<Longrightarrow> digits_of (s @ q) = (a, r0 # r @ q)"
proof -
  assume d: "digits_of s = (a, r0 # r)"
  then have "r0 \<in> set s" "\<not> is_ascii_digit r0"
    using set_dropWhileD [of r0 is_ascii_digit s] hd_dropWhile [of is_ascii_digit s] by (auto simp: digits_of_def)
  with d show ?thesis by (auto simp: digits_of_def takeWhile_append1 dropWhile_append1)
qed

lemma scan_whole_more: "scan_whole s = (a, r0 # r) \<Longrightarrow> scan_whole (s @ q) = (a, r0 # r @ q)"
  using digits_of_more [of s a r0 r q] by (cases s) (auto simp: scan_whole_def split: if_splits)

lemma scan_fraction_more:
  "scan_fraction s = (a, r0 # r) \<Longrightarrow> r0 \<noteq> CHR ''.'' \<Longrightarrow> scan_fraction (s @ q) = (a, r0 # r @ q)"
  by (auto simp: scan_fraction_def split: list.splits if_splits prod.splits dest: digits_of_more [of _ _ r0 r q])

lemma scan_exponent_more:
  "scan_exponent s = (a, r0 # r) \<Longrightarrow> r0 \<noteq> CHR ''e'' \<Longrightarrow> r0 \<noteq> CHR ''E'' \<Longrightarrow> scan_exponent (s @ q) = (a, r0 # r @ q)"
  by (auto simp: scan_exponent_def split: list.splits if_splits prod.splits dest: digits_of_more [of _ _ r0 r q])

lemma scan_exponent_head: "scan_exponent (CHR ''.'' # s) = ([], CHR ''.'' # s)"
  by (simp add: scan_exponent_def)

lemma scan_number_more:
  assumes "scan_number s = Some (v, r0 # r)" "r0 \<notin> {CHR ''.'', CHR ''e'', CHR ''E''}"
  shows "scan_number (s @ q) = Some (v, r0 # r @ q)"
proof -
  obtain sign s1 where sg: "(case s of c # cs \<Rightarrow> if c = CHR ''-'' then ([c], cs) else ([], s) | [] \<Rightarrow> ([], s)) = (sign, s1)"
    by fastforce
  obtain whole s2 where w: "scan_whole s1 = (whole, s2)" by fastforce
  obtain fraction s3 where f: "scan_fraction s2 = (fraction, s3)" by fastforce
  obtain exponent s4 where e: "scan_exponent s3 = (exponent, s4)" by fastforce
  from assms(1) have ne: "whole \<noteq> []" and s4: "s4 = r0 # r"
    by (auto simp: scan_number_def sg w f e split: if_splits)
  from ne w have "s1 \<noteq> []" by (auto simp: scan_whole_def)
  with sg have sg': "(case s @ q of c # cs \<Rightarrow> if c = CHR ''-'' then ([c], cs) else ([], s @ q) | [] \<Rightarrow> ([], s @ q)) = (sign, s1 @ q)"
    by (auto split: list.splits if_splits)
  from e s4 obtain x s3' where s3: "s3 = x # s3'" by (cases s3) (auto simp: scan_exponent_def)
  have x: "x \<noteq> CHR ''.''" using e s4 assms(2) scan_exponent_head [of s3'] by (auto simp: s3)
  from f s3 obtain y s2' where s2: "s2 = y # s2'" by (cases s2) (auto simp: scan_fraction_def)
  have "scan_whole (s1 @ q) = (whole, s2 @ q)" using scan_whole_more w by (simp add: s2)
  moreover have "scan_fraction (s2 @ q) = (fraction, s3 @ q)" using scan_fraction_more f x by (simp add: s3)
  moreover have "scan_exponent (s3 @ q) = (exponent, s4 @ q)" using scan_exponent_more e assms(2) by (simp add: s4)
  ultimately show ?thesis
    using assms(1) by (auto simp: scan_number_def sg sg' w f e s4 split: if_splits)
qed

lemma scan_number_head: "scan_number s = Some x \<Longrightarrow> numeric_head s"
  by (auto simp: scan_number_def scan_whole_def digits_of_def numeric_head_def Let_def is_ascii_digit_def code_pt_def
      split: list.splits if_splits prod.splits)

lemma json_words_head: "x \<in> set json_words \<Longrightarrow> y \<in> set json_words \<Longrightarrow> hd (fst x) = hd (fst y) \<Longrightarrow> x = y"
  by (auto simp: json_words_def)

lemma scan_word_more:
  assumes "scan_word s = Some (v, r0 # r)" "r0 \<notin> {CHR ''.'', CHR ''e'', CHR ''E''}"
  shows "scan_word (s @ q) = Some (v, r0 # r @ q)"
proof (cases "filter (\<lambda>(w, v). starts_with w s) json_words")
  case Nil
  with assms(1) have n: "scan_number s = Some (v, r0 # r)" by (simp add: scan_word_def)
  from no_word [OF numeric_head_append [OF scan_number_head [OF n]], of q] scan_number_more [OF n assms(2), of q]
  show ?thesis by (simp add: scan_word_def)
next
  case (Cons x xs)
  obtain w u where x: "x = (w, u)" by (cases x)
  from Cons have "x \<in> set (filter (\<lambda>(w, v). starts_with w s) json_words)" by simp
  then have w: "(w, u) \<in> set json_words" "starts_with w s" by (auto simp: x)
  then have ne: "w \<noteq> []" by (auto simp: json_words_def)
  from w(2) obtain t where t: "s = w @ t" by (auto simp: starts_with_iff)
  have "y = (w, u)" if "y \<in> set (filter (\<lambda>(w, v). starts_with w (s @ q)) json_words)" for y
  proof (rule json_words_head [OF _ w(1)])
    from that show "y \<in> set json_words" by auto
    then have "fst y \<noteq> []" by (auto simp: json_words_def)
    with that ne show "hd (fst y) = hd (fst (w, u))"
      by (cases "fst y"; cases w) (auto simp: starts_with_iff t)
  qed
  moreover have "(w, u) \<in> set (filter (\<lambda>(w, v). starts_with w (s @ q)) json_words)"
    using w(1) by (auto simp: starts_with_iff t)
  ultimately obtain ys where "filter (\<lambda>(w, v). starts_with w (s @ q)) json_words = (w, u) # ys"
    by (cases "filter (\<lambda>(w, v). starts_with w (s @ q)) json_words") auto
  moreover have "v = u" "r0 # r = t" using assms(1) Cons by (simp_all add: scan_word_def x t)
  ultimately show ?thesis by (simp add: scan_word_def t)
qed

lemma json_lex_stops: "json_lex (c # r) = Some ts \<Longrightarrow> c \<notin> {CHR ''.'', CHR ''e'', CHR ''E''}"
  by (auto simp: json_lex.simps(2) json_space_def json_punct_def code_pt_def scan_word_def json_words_def starts_with_def
      scan_number_def scan_whole_def digits_of_def is_ascii_digit_def)

lemma json_lex_more:
  "json_lex p = Some ts \<Longrightarrow> ts = [] \<or> last ts = TEndBrace \<Longrightarrow>
   json_lex (p @ q) = map_option ((@) ts) (json_lex q)"
proof (induction p arbitrary: ts rule: json_lex.induct)
  case 1
  then show ?case by (cases "json_lex q") auto
next
  case (2 c cs)
  show ?case
  proof (cases "json_space c")
    case True
    with 2(1,5,6) show ?thesis by (simp add: json_lex.simps(2))
  next
    case sp: False
    show ?thesis
    proof (cases "json_punct c")
      case (Some t)
      with 2(5) sp obtain us where us: "json_lex cs = Some us" "ts = t # us" by (auto simp: json_lex.simps(2))
      with 2(6) have "us = [] \<or> last us = TEndBrace" by (auto split: if_splits)
      from 2(4) [OF sp Some us(1) this] us sp Some show ?thesis
        by (simp add: json_lex.simps(2) [of _ "cs @ q"] option.map_comp comp_def append_fun)
    next
      case pu: None
      show ?thesis
      proof (cases "c = CHR 0x22")
        case True
        with 2(5) sp pu obtain x rest us where s: "scan_string [] cs = Some (x, rest)" "json_lex rest = Some us"
          "ts = TValue (RStr (join_surrogates x)) # us" by (auto simp: json_lex.simps(2) split: option.splits)
        with 2(6) have "us = [] \<or> last us = TEndBrace" by (auto split: if_splits)
        from 2(2) [OF sp pu True s(1) refl s(2) this] s sp pu True scan_string_more [OF s(1), of q] show ?thesis
          by (simp add: json_lex.simps(2) [of _ "cs @ q"] option.map_comp comp_def append_fun)
      next
        case nq: False
        with 2(5) sp pu obtain v rest us where s: "scan_word (c # cs) = Some (v, rest)" "json_lex rest = Some us"
          "ts = TValue v # us" by (auto simp: json_lex.simps(2) split: option.splits)
        with 2(6) have us: "us \<noteq> []" "last us = TEndBrace" by (auto split: if_splits)
        with s(2) obtain r0 r where r: "rest = r0 # r" by (cases rest) auto
        have "scan_word (c # cs @ q) = Some (v, rest @ q)"
          using scan_word_more [of "c # cs" v r0 r q] s(1) json_lex_stops [of r0 r us] s(2) by (simp add: r)
        with 2(3) [OF sp pu nq s(1) refl s(2)] us s sp pu nq show ?thesis
          by (simp add: json_lex.simps(2) [of _ "cs @ q"] option.map_comp comp_def append_fun)
      qed
    qed
  qed
qed

text \<open>The outermost open bracket is that of an object.\<close>

fun in_object :: "parse_state \<Rightarrow> bool" where
  "in_object (p, fs) = (if fs = [] then (case p of At_First_Key \<Rightarrow> True | At_Key _ \<Rightarrow> True | At_Colon _ _ \<Rightarrow> True | _ \<Rightarrow> False)
     else (case last fs of In_Obj _ _ \<Rightarrow> True | _ \<Rightarrow> False))"

lemma in_object_step:
  "json_step st t = Some st' \<Longrightarrow> in_object st \<Longrightarrow> in_object st' \<or> t = TEndBrace \<and> (\<exists>v. st' = (After v, []))"
  by (cases "(st, t)" rule: json_step.cases)
     (auto simp: value_step_def key_step_def after_step_def split: if_splits token.splits pyjson.splits list.splits frame.splits)

lemma after_all: "json_run (After v, []) ts = Some st \<Longrightarrow> ts = []"
  by (cases ts) (auto simp: after_step_def)

lemma in_object_last:
  "json_run st ts = Some (After v, []) \<Longrightarrow> in_object st \<Longrightarrow> ts \<noteq> [] \<and> last ts = TEndBrace"
proof (induction ts arbitrary: st)
  case (Cons t ts)
  then obtain st' where st': "json_step st t = Some st'" "json_run st' ts = Some (After v, [])"
    by (auto split: option.splits)
  from in_object_step [OF st'(1) Cons.prems(2)] show ?case
    using Cons.IH [OF st'(2)] st'(2) after_all by auto
qed simp

lemma json_lex_blank: "json_lex s = Some [] \<Longrightarrow> \<forall>c \<in> set s. json_space c"
  by (induction s) (auto simp: json_lex.simps(2) split: if_splits option.splits)

text \<open>A piece of a printed object that misses more than white space is no value.\<close>

lemma loads_part:
  assumes "lexes s (tokens_of (JObj kvs))" "distinct_keys (JObj kvs)" "s = CHR ''{'' # s'"
    and "s = p @ q" "\<not> (\<forall>c \<in> set q. json_space c)"
  shows "json_loads p = None"
proof (rule ccontr)
  assume "json_loads p \<noteq> None"
  then obtain ts v where p: "json_lex p = Some ts" "json_run (At_Value, []) ts = Some (After v, [])"
    by (auto simp: json_loads_def split: option.splits prod.splits position.splits list.splits)
  then have "p \<noteq> []" by auto
  with assms(3,4) obtain p' where "p = CHR ''{'' # p'" by (cases p) auto
  with p(1) obtain us where us: "ts = TBrace # us" by auto
  with p(2) have "json_run (At_First_Key, []) us = Some (After v, [])" by (simp add: value_step_def)
  from in_object_last [OF this] us have "last ts = TEndBrace" by auto
  with json_lex_more [OF p(1)] have lex: "json_lex s = map_option ((@) ts) (json_lex q)" by (simp add: assms(4))
  moreover have "json_lex s = Some (tokens_of (JObj kvs))" using lexesD [OF assms(1), of "[]"] by simp
  ultimately obtain ws where ws: "json_lex q = Some ws" "tokens_of (JObj kvs) = ts @ ws"
    by (cases "json_lex q") (auto simp del: tokens_of.simps)
  have "json_run (At_Value, []) (tokens_of (JObj kvs)) = Some (After (read_back (JObj kvs)), [])"
    using yields_valueD [OF yields_tokens [OF assms(2)], of "[]" "[]"] by simp
  then have "json_run (After v, []) ws = Some (After (read_back (JObj kvs)), [])"
    unfolding ws(2) by (simp add: json_run_append p(2) del: read_back.simps)
  then have "ws = []" by (rule after_all)
  with ws(1) json_lex_blank assms(5) show False by blast
qed

end
