(* ===== verification/Manifest_Read.thy ===== *)
theory Manifest_Read
  imports Manifest Json_Prefix
begin

text \<open>
  Reading a manifest back: \<open>BackupMeta.from_json\<close> and \<open>read_meta\<close> of \<open>manifest.py\<close>. The
  fields of a \<open>BackupMeta\<close> that was read hold whatever values the document has, as the class
  checks no types.
\<close>

text \<open>\<open>dataclasses.fields(BackupMeta)\<close>\<close>

definition meta_fields :: "string list" where
  "meta_fields = [''schema_version'', ''backup_id'', ''type'', ''status'', ''started_at'', ''finished_at'', ''hostname'',
     ''mariadb_version'', ''mariabackup_version'', ''prepared'', ''size_bytes'', ''tool_version'']"

type_synonym loaded_meta = "(string \<times> pyjson) list"

text \<open>\<open>cls(**filtered)\<close>: every field needs its argument.\<close>

fun fill_fields :: "(nat list \<times> pyjson) list \<Rightarrow> string list \<Rightarrow> exn + loaded_meta" where
  "fill_fields data [] = Inr []"
| "fill_fields data (f # fs) =
     (case map_of data (map code_pt f) of
        None \<Rightarrow> Inl (TypeError ''missing a required argument'')
      | Some v \<Rightarrow> (case fill_fields data fs of Inl e \<Rightarrow> Inl e | Inr m \<Rightarrow> Inr ((f, v) # m)))"

definition from_json :: "string \<Rightarrow> exn + loaded_meta" where
  "from_json text =
     (case json_loads text of
        None \<Rightarrow> Inl (JSONDecodeError ''Expecting value'')
      | Some (RObj data) \<Rightarrow>
          (let filtered = filter (\<lambda>(k, v). k \<in> set (map (map code_pt) meta_fields)) data
           in fill_fields filtered meta_fields)
      | Some _ \<Rightarrow> Inl (AttributeError ''object has no attribute items''))"

definition unreadable :: "exn \<Rightarrow> bool" where
  "unreadable e \<longleftrightarrow> (case e of JSONDecodeError _ \<Rightarrow> True | TypeError _ \<Rightarrow> True | KeyError _ \<Rightarrow> True | _ \<Rightarrow> False)"

text \<open>\<open>decode\<close> is the decoding of the bytes of the file, \<open>None\<close> when they are no text.\<close>

definition read_meta :: "(string \<Rightarrow> string option) \<Rightarrow> path \<Rightarrow> ('e, loaded_meta option) io" where
  "read_meta decode target_dir =
     (let meta_path = path_join target_dir meta_filename in
      bnd (path_is_file meta_path) (\<lambda>there.
        if \<not> there then ret None
        else except (bnd (read_file meta_path) (\<lambda>raw_bytes. case decode raw_bytes of
                 None \<Rightarrow> raise (UnicodeDecodeError ''invalid start byte'')
               | Some text \<Rightarrow> bnd (lift (from_json text)) (\<lambda>m. ret (Some m))))
             unreadable (\<lambda>_. ret None)))"

text \<open>The manifest as it is read: its fields in the order of the class.\<close>

definition loaded :: "backup_meta \<Rightarrow> loaded_meta" where
  "loaded m =
     [(''schema_version'', RInt (m_schema_version m)), (''backup_id'', RStr (map code_pt (m_backup_id m))),
      (''type'', RStr (map code_pt (m_type m))), (''status'', RStr (map code_pt (m_status m))),
      (''started_at'', RStr (map code_pt (m_started_at m))), (''finished_at'', RStr (map code_pt (m_finished_at m))),
      (''hostname'', RStr (map code_pt (m_hostname m))), (''mariadb_version'', RStr (map code_pt (m_mariadb_version m))),
      (''mariabackup_version'', RStr (map code_pt (m_mariabackup_version m))), (''prepared'', RBool (m_prepared m)),
      (''size_bytes'', RInt (m_size_bytes m)), (''tool_version'', RStr (map code_pt (m_tool_version m)))]"

subsection \<open>Texts\<close>

lemma asdict_distinct: "distinct_keys (JObj (asdict_sorted m))"
  by (simp add: asdict_sorted_def)

lemma loads_to_json:
  assumes "sp = [] \<or> sp = [CHR 0x0A]"
  shows "json_loads (json_dumps_indented (asdict_sorted m) @ sp) = Some (read_back (JObj (asdict_sorted m)))"
  by (rule loads_lexes [OF lexes_dumps_indented asdict_distinct])
     (use assms in \<open>auto simp: json_space_def code_pt_def\<close>)

lemma map_of_code_pts: "map_of (map (\<lambda>(k, v). (map code_pt k, h v)) kvs) (map code_pt f) = map_option h (map_of kvs f)"
  using inj_eq [OF inj_code_pts] by (induction kvs) auto

lemma fill_code_pts:
  "list_all (\<lambda>f. map_of kvs f \<noteq> None) fs \<Longrightarrow>
   fill_fields (map (\<lambda>(k, v). (map code_pt k, h v)) kvs) fs = Inr (map (\<lambda>f. (f, h (the (map_of kvs f)))) fs)"
  by (induction fs) (auto simp: map_of_code_pts)

lemma from_loaded:
  assumes "json_loads s = Some (read_back (JObj (asdict_sorted m)))"
  shows "from_json s = Inr (loaded m)"
proof -
  let ?d = "map (\<lambda>(k, v). (map code_pt k, read_back v)) (asdict_sorted m)"
  have "fst ` set (asdict_sorted m) \<subseteq> set meta_fields" by (simp add: asdict_sorted_def meta_fields_def)
  then have "filter (\<lambda>(k, v). k \<in> set (map (map code_pt) meta_fields)) ?d = ?d"
    by (intro filter_True) auto
  moreover have "fill_fields ?d meta_fields = Inr (map (\<lambda>f. (f, read_back (the (map_of (asdict_sorted m) f)))) meta_fields)"
    by (rule fill_code_pts) (simp add: asdict_sorted_def meta_fields_def)
  moreover have "map (\<lambda>f. (f, read_back (the (map_of (asdict_sorted m) f)))) meta_fields = loaded m"
    by (simp add: asdict_sorted_def meta_fields_def loaded_def)
  ultimately show ?thesis using assms by (simp add: from_json_def)
qed

lemma from_part:
  assumes "n < length (json_dumps_indented (asdict_sorted m))"
  shows "from_json (take n (to_json m)) = Inl (JSONDecodeError ''Expecting value'')"
proof -
  let ?t = "json_dumps_indented (asdict_sorted m)"
  obtain t' where t': "?t = t' @ ''}''" "?t = CHR ''{'' # tl ?t" by (simp add: json_dumps_indented_def)
  have "drop n ?t \<noteq> []" "last (drop n ?t) = CHR ''}''" using assms t'(1) by (auto simp: last_drop)
  then have "CHR ''}'' \<in> set (drop n ?t)" using last_in_set by metis
  moreover have "\<not> json_space (CHR ''}'')" by (simp add: json_space_def code_pt_def)
  ultimately have "\<not> (\<forall>c \<in> set (drop n ?t). json_space c)" by blast
  then have "json_loads (take n ?t) = None"
    by (rule loads_part [OF lexes_dumps_indented asdict_distinct t'(2) append_take_drop_id [symmetric]])
  then show ?thesis using assms by (simp add: from_json_def to_json_def)
qed

text \<open>Each beginning of the text is no JSON, or the whole manifest.\<close>

lemma from_take:
  "from_json (take n (to_json m)) = Inr (loaded m) \<or> from_json (take n (to_json m)) = Inl (JSONDecodeError ''Expecting value'')"
proof (cases "n < length (json_dumps_indented (asdict_sorted m))")
  case False
  then have "take n (to_json m) = json_dumps_indented (asdict_sorted m) @ [] \<or>
      take n (to_json m) = json_dumps_indented (asdict_sorted m) @ [CHR 0x0A]"
    by (cases "n - length (json_dumps_indented (asdict_sorted m))") (auto simp: to_json_def)
  then show ?thesis using from_loaded [OF loads_to_json, of "[]"] from_loaded [OF loads_to_json, of "[CHR 0x0A]"] by auto
qed (simp add: from_part)

lemma ascii_literals: "code_pt (CHR 0x5C) < 128" "code_pt (CHR 0x22) < 128" "code_pt (CHR ''n'') < 128" "code_pt (CHR ''r'') < 128"
  "code_pt (CHR ''t'') < 128" "code_pt (CHR ''f'') < 128" "code_pt (CHR ''b'') < 128" "code_pt (CHR ''u'') < 128"
  "code_pt (CHR ''0'') < 128" "code_pt (CHR ''-'') < 128"
  by (simp_all add: code_pt_def)

lemma json_char_ascii: "\<forall>x \<in> set (json_char c). code_pt x < 128"
proof -
  have "code_pt (hex_digit d) < 128" if "d < 16" for d
    using that by (simp add: hex_digit_def code_pt_char_of)
  moreover have "code_pt c div 16 < 16" "code_pt c mod 16 < 16"
    using code_pt_less [of c] by (simp_all add: less_mult_imp_div_less)
  ultimately show ?thesis by (simp add: json_char_def Let_def ascii_literals)
qed

lemma json_str_ascii: "\<forall>x \<in> set (json_str s). code_pt x < 128"
  using json_char_ascii by (simp add: json_str_def ascii_literals)

lemma str_int_ascii: "\<forall>x \<in> set (str_int i). code_pt x < 128"
proof -
  have "code_pt c < 128" if "is_ascii_digit c" for c using that by (simp add: is_ascii_digit_def)
  then have "\<forall>x \<in> set (str_nat n). code_pt x < 128" for n using str_nat_digits [of n] by blast
  then show ?thesis by (simp add: str_int_def ascii_literals)
qed

lemma to_json_ascii: "\<forall>x \<in> set (to_json m). code_pt x < 128"
  using json_str_ascii str_int_ascii
  by (simp add: to_json_def json_dumps_indented_def asdict_sorted_def ball_Un) (auto simp: code_pt_def)

subsection \<open>The file\<close>

lemma write_meta_leaves:
  "triple (\<lambda>w. \<not> exists_at (w_fs w) (d @ [meta_filename])) (write_meta d m)
     (\<lambda>_ w. lookup_tree (w_fs w) (d @ [meta_filename]) = Some (FFile (to_json m)))
     (\<lambda>_ w. \<not> exists_at (w_fs w) (d @ [meta_filename]) \<or>
        (\<exists>n. lookup_tree (w_fs w) (d @ [meta_filename]) = Some (FFile (take n (to_json m)))))"
  unfolding write_meta_def write_text_def path_join_plain [OF plain_meta]
proof (rule triple_sq)
  let ?p = "d @ [meta_filename]"
  show "triple (\<lambda>w. \<not> exists_at (w_fs w) ?p) (open_write ?p) (\<lambda>_ w. lookup_tree (w_fs w) ?p = Some (FFile []))
      (\<lambda>_ w. \<not> exists_at (w_fs w) ?p \<or> (\<exists>n. lookup_tree (w_fs w) ?p = Some (FFile (take n (to_json m)))))"
    unfolding open_write_def sys_def
    by (rule triple_sys_torn) (auto simp: exists_at_iff lookup_alter_same)
  have "is_dir_at f d" if "lookup_tree f ?p = Some t" for f t
    using parent_is_dir [of f d meta_filename "[]"] that by simp
  then show "triple (\<lambda>w. lookup_tree (w_fs w) ?p = Some (FFile [])) (write_data ?p (to_json m))
      (\<lambda>_ w. lookup_tree (w_fs w) ?p = Some (FFile (to_json m)))
      (\<lambda>_ w. \<not> exists_at (w_fs w) ?p \<or> (\<exists>n. lookup_tree (w_fs w) ?p = Some (FFile (take n (to_json m)))))"
    unfolding write_data_def by (intro triple_sys_torn) (auto simp: lookup_alter_same)
qed

text \<open>What a read comes to: by the contents of the file, unless one of its two calls fails.\<close>

definition reads_as :: "(string \<Rightarrow> string option) \<Rightarrow> path \<Rightarrow> ftree \<Rightarrow> exn + loaded_meta option" where
  "reads_as decode d f = (case lookup_tree f (d @ [meta_filename]) of
       Some (FFile s) \<Rightarrow> (case decode s of
           None \<Rightarrow> Inl (UnicodeDecodeError ''invalid start byte'')
         | Some text \<Rightarrow> (case from_json text of
               Inr l \<Rightarrow> Inr (Some l) | Inl e \<Rightarrow> if unreadable e then Inr None else Inl e))
     | _ \<Rightarrow> Inr None)"

lemma from_json_not_killed: "from_json s \<noteq> Inl Killed"
proof -
  have "fill_fields data fs \<noteq> Inl Killed" for data fs
    by (induction fs) (auto split: option.split sum.split)
  then show ?thesis by (auto simp: from_json_def Let_def split: option.split pyjson.split)
qed

lemma read_meta_value:
  "fst (read_meta decode d w) = reads_as decode d (w_fs w) \<or>
     \<not> calm w \<and> (\<exists>msg. fst (read_meta decode d w) \<in> {Inl Killed, Inl (OSError msg)})"
proof -
  have c: "\<not> calm w" if "w_fault w n \<noteq> NoFault" for n using that by (auto simp: calm_def)
  note run = read_meta_def Let_def path_is_file_def read_file_def read_sys_def sys_def sys_torn_def tick_def bnd_def ret_def
    raise_def lift_def except_def reads_as_def unreadable_def is_file_at_conv
  show ?thesis
  proof (cases "w_fault w (w_tick w)")
    case NoFault
    then show ?thesis
      using from_json_not_killed c [of "Suc (w_tick w)"]
      by (cases "w_fault w (Suc (w_tick w))") (auto simp: run split: option.split ftree.split sum.split)
  qed (use c [of "w_tick w"] in \<open>auto simp: run\<close>)
qed

text \<open>
  C40. A manifest that was cut off never reads as another one: when \<open>write_meta\<close> has
  failed, or was interrupted anywhere in the write, reading the file afterwards finds no
  manifest or the whole one, and after a write that returned it finds exactly the manifest
  written; the only errors left are those of the system.
\<close>

theorem read_meta_sound:
  assumes "\<forall>s. (\<forall>c \<in> set s. code_pt c < 128) \<longrightarrow> decode s = Some s"
    and "\<not> exists_at (w_fs w) (d @ [meta_filename])" "write_meta d m w = (r, w1)"
  shows "(\<exists>x. fst (read_meta decode d w1) = Inr x \<and> (x = None \<and> r \<noteq> Inr () \<or> x = Some (loaded m))) \<or>
    \<not> calm w1 \<and> (\<exists>msg. fst (read_meta decode d w1) \<in> {Inl Killed, Inl (OSError msg)})"
proof -
  have dec: "decode (take n (to_json m)) = Some (take n (to_json m))" for n
    using assms(1) to_json_ascii [of m] by (auto dest: in_set_takeD)
  have part: "reads_as decode d f \<in> {Inr None, Inr (Some (loaded m))}"
    if "lookup_tree f (d @ [meta_filename]) = Some (FFile (take n (to_json m)))" for f n
    using that from_take [of n m] by (auto simp: reads_as_def dec unreadable_def)
  have none: "reads_as decode d f = Inr None" if "\<not> exists_at f (d @ [meta_filename])" for f
    using that by (simp add: reads_as_def exists_at_def)
  have whole: "reads_as decode d f = Inr (Some (loaded m))"
    if "lookup_tree f (d @ [meta_filename]) = Some (FFile (to_json m))" for f
  proof -
    have "from_json (to_json m) = Inr (loaded m)"
      using from_loaded [OF loads_to_json, of "[CHR 0x0A]"] by (simp add: to_json_def)
    with that dec [of "length (to_json m)"] show ?thesis by (simp add: reads_as_def)
  qed
  have "reads_as decode d (w_fs w1) = Inr (Some (loaded m)) \<or> r \<noteq> Inr () \<and> reads_as decode d (w_fs w1) = Inr None"
  proof (cases r)
    case (Inl e)
    with tripleD [OF write_meta_leaves assms(2,3)]
    have "\<not> exists_at (w_fs w1) (d @ [meta_filename]) \<or>
        (\<exists>n. lookup_tree (w_fs w1) (d @ [meta_filename]) = Some (FFile (take n (to_json m))))" by simp
    with none part Inl show ?thesis by fastforce
  next
    case (Inr u)
    with tripleD [OF write_meta_leaves assms(2,3)] whole show ?thesis by simp
  qed
  with read_meta_value [of decode d w1] show ?thesis by auto
qed

definition sample_meta :: backup_meta where
  "sample_meta = \<lparr>m_schema_version = 1, m_backup_id = ''g1'', m_type = ''full'', m_status = ''complete'', m_started_at = [],
     m_finished_at = [], m_hostname = ''h'', m_mariadb_version = [], m_mariabackup_version = [], m_prepared = True,
     m_size_bytes = 7, m_tool_version = ''mariabackup-keeper 0.1.0''\<rparr>"

definition empty_disk :: "unit world" where
  "empty_disk = \<lparr>w_fs = FDir [(''/'', FDir [(''w'', FDir [])])], w_mtime = (\<lambda>_. 0), w_tick = 0,
     w_fault = (\<lambda>_. NoFault), w_clock = (\<lambda>_. 0), w_log = [], w_out = [], w_err = [], w_pid = 1, w_held = [], w_ext = ()\<rparr>"

lemma empty_disk_write:
  "fst (write_meta [''/'', ''w''] m empty_disk) = Inr ()" "calm (snd (write_meta [''/'', ''w''] m empty_disk))"
  by (simp_all add: empty_disk_def calm_def write_meta_def write_text_def open_write_def write_data_def sys_def sys_torn_def
      sq_def bnd_def tick_def set_at_def set_contents_def is_file_at_def exists_at_def is_dir_at_def)

theorem read_meta_sound_witness:
  "fst (read_meta Some [''/'', ''w''] (snd (write_meta [''/'', ''w''] sample_meta empty_disk))) = Inr (Some (loaded sample_meta))"
proof -
  have "\<not> exists_at (w_fs empty_disk) ([''/'', ''w''] @ [meta_filename])"
    by (simp add: empty_disk_def exists_at_def)
  from read_meta_sound [where decode = Some and m = sample_meta, OF _ this prod.collapse [symmetric]]
  show ?thesis by (simp add: empty_disk_write)
qed

end
