(* ===== verification/Lock_Correct.thy ===== *)
theory Lock_Correct
  imports Run_Correct
begin

text \<open>
  The single-instance lock: as a state machine over all processes of the host, mutual
  exclusion; for one process, that a command runs its body only with the lock in hand, and
  has given it back when it is over.
\<close>

subsection \<open>All processes\<close>

text \<open>
  The lock table and the processes inside the \<open>with\<close> block of one lock file. A process
  enters when its \<open>flock\<close> succeeds; a process whose \<open>flock\<close> failed still unlocks and
  closes its descriptor in the \<open>finally\<close> clause; a process that leaves does the same, and
  the system does it for one that dies.
\<close>

type_synonym lock_state = "lock_table \<times> (nat \<Rightarrow> bool)"

inductive lock_step :: "path \<Rightarrow> lock_state \<Rightarrow> lock_state \<Rightarrow> bool" for p where
  enter: "\<not> inside pid \<Longrightarrow> try_lock p pid table = Some table' \<Longrightarrow>
    lock_step p (table, inside) (table', inside(pid := True))"
| refused: "\<not> inside pid \<Longrightarrow> try_lock p pid table = None \<Longrightarrow>
    lock_step p (table, inside) (release_lock p pid table, inside)"
| leave: "inside pid \<Longrightarrow> lock_step p (table, inside) (release_lock p pid table, inside(pid := False))"

inductive_cases lock_stepE: "lock_step p s s'"

inductive_simps lock_step_simps: "lock_step p (table, inside) s'"

definition lock_inv :: "path \<Rightarrow> lock_state \<Rightarrow> bool" where
  "lock_inv p s \<longleftrightarrow> (\<forall>pid. snd s pid \<longleftrightarrow> (p, pid) \<in> set (fst s)) \<and>
     (\<forall>a b. (p, a) \<in> set (fst s) \<longrightarrow> (p, b) \<in> set (fst s) \<longrightarrow> a = b)"

lemma try_lock_Some: "try_lock p pid table = Some table' \<longleftrightarrow> (\<forall>a. (p, a) \<notin> set table) \<and> table' = (p, pid) # table"
  by (force simp: try_lock_def)

lemma release_lock_set [simp]: "set (release_lock p pid table) = set table - {(p, pid)}"
  by (auto simp: release_lock_def)

lemma lock_inv_step: "lock_step p s s' \<Longrightarrow> lock_inv p s \<Longrightarrow> lock_inv p s'"
  by (erule lock_stepE) (auto simp: lock_inv_def try_lock_Some)

lemma lock_inv_reachable: "(lock_step p)\<^sup>*\<^sup>* s s' \<Longrightarrow> lock_inv p s \<Longrightarrow> lock_inv p s'"
  by (induction rule: rtranclp_induct) (auto intro: lock_inv_step)



subsection \<open>Computations that leave a part of the world alone\<close>

definition same :: "('e world \<Rightarrow> 'v) \<Rightarrow> ('e, 'a) io \<Rightarrow> bool" where
  "same f m \<longleftrightarrow> (\<forall>w. f (snd (m w)) = f w)"

named_theorems unlocks \<open>operations that leave a part of the world alone\<close>

lemma same_keeps: "same f m \<longleftrightarrow> (\<forall>v. keeps (\<lambda>w. f w = v) m)"
proof
  assume "same f m"
  then show "\<forall>v. keeps (\<lambda>w. f w = v) m"
    by (auto simp: same_def triple_def split: prod.split sum.split) (metis snd_conv)+
next
  assume "\<forall>v. keeps (\<lambda>w. f w = v) m"
  then show "same f m" unfolding same_def using keepsD by fastforce
qed

lemma same_pure [unlocks]: "same f (ret x)" "same f (raise e)" "same f (lift r)"
  by (simp_all add: same_def ret_def raise_def lift_def)

lemma same_bnd [unlocks]: "same f m \<Longrightarrow> (\<And>x. same f (k x)) \<Longrightarrow> same f (bnd m k)"
  and same_sq [unlocks]: "same f m \<Longrightarrow> same f n \<Longrightarrow> same f (sq m n)"
  and same_except [unlocks]: "same f m \<Longrightarrow> (\<And>e. same f (h e)) \<Longrightarrow> same f (except m c h)"
  and same_except_else [unlocks]:
    "same f m \<Longrightarrow> (\<And>e. same f (h' e)) \<Longrightarrow> (\<And>x. same f (k' x)) \<Longrightarrow> same f (except_else m c h' k')"
  and same_do_when [unlocks]: "same f u \<Longrightarrow> same f (do_when b u)"
  unfolding same_keeps by (auto intro: triples)

text \<open>A part that neither a system call as such nor a new directory entry affects.\<close>

definition host_part :: "('e world \<Rightarrow> 'v) \<Rightarrow> bool" where
  "host_part f \<longleftrightarrow> (\<forall>w. f (tick w) = f w) \<and> (\<forall>p x w. f (set_at p x w) = f w) \<and> (\<forall>p s w. f (set_contents p s w) = f w)"

lemma same_sys_torn:
  assumes "\<And>w. f (tick w) = f w" "\<And>w. f (snd (act w)) = f w" "\<And>n w. f (torn n w) = f w"
  shows "same f (sys_torn act torn)"
  using assms by (simp add: same_def sys_torn_def split: fault.split)

lemma same_sys: "(\<And>w. f (tick w) = f w) \<Longrightarrow> (\<And>w. f (snd (act w)) = f w) \<Longrightarrow> same f (sys act)"
  unfolding sys_def by (rule same_sys_torn) simp_all

lemma same_create:
  assumes "host_part f"
  shows "same f (os_mkdir p)" "same f (open_write p)" "same f (path_is_dir p)"
  unfolding os_mkdir_def open_write_def path_is_dir_def read_sys_def
  using assms by (auto intro!: same_sys simp: host_part_def)

lemma same_mkdir_here:
  assumes "host_part f"
  shows "same f (mkdir_settle p e)" "same f (mkdir_here p)"
  unfolding mkdir_here_def mkdir_settle_def
  by (auto intro!: unlocks same_create [OF assms] split: mkdir_result.split)

lemma same_mkdir_p:
  assumes "host_part f"
  shows "same f (mkdir_p p)"
proof -
  have "same f (mkdir_rev rp)" for rp
    by (induction rp)
       (auto simp: Let_def intro!: unlocks same_create [OF assms] same_mkdir_here [OF assms] split: mkdir_result.split)
  then show ?thesis by (simp add: mkdir_p_def)
qed

subsection \<open>Computations that leave the lock table alone\<close>

abbreviation unlocked :: "('e, 'a) io \<Rightarrow> bool" where
  "unlocked \<equiv> same (\<lambda>w. (w_held w, w_pid w))"

lemma unlocked_base [unlocks]:
  "unlocked now_utc" "unlocked (log_msg l m)" "unlocked (print_out s)" "unlocked (print_err s)"
  by (simp_all add: same_def now_utc_def log_msg_def print_out_def print_err_def tick_def)

lemma unlocked_for_each [unlocks]: "(\<And>x. unlocked (f x)) \<Longrightarrow> unlocked (for_each xs f)"
  by (induction xs) (auto intro: unlocks)

lemma unlocked_sys: "(\<And>w. w_held (snd (act w)) = w_held w \<and> w_pid (snd (act w)) = w_pid w) \<Longrightarrow> unlocked (sys act)"
  by (rule same_sys) (simp_all add: tick_def)

lemma unlocked_read_sys [unlocks]: "unlocked (read_sys f)"
  unfolding read_sys_def by (rule unlocked_sys) simp

lemma set_sel [simp]:
  "w_held (set_at p x w) = w_held w" "w_pid (set_at p x w) = w_pid w"
  "w_held (set_contents p s w) = w_held w" "w_pid (set_contents p s w) = w_pid w"
  "w_held (move_tree a b t w) = w_held w" "w_pid (move_tree a b t w) = w_pid w"
  "w_pid (set_host h w) = w_pid w"
  by (simp_all add: set_at_def set_contents_def move_tree_def set_host_def split: prod.split)

lemma unlocked_reads [unlocks]:
  "unlocked (path_is_dir p)" "unlocked (path_is_file p)" "unlocked (path_exists p)" "unlocked (list_dir p)"
  "unlocked (st_mtime p)" "unlocked (read_file p)" "unlocked (scan_tree p)"
  by (simp_all add: path_is_dir_def path_is_file_def path_exists_def list_dir_def st_mtime_def read_file_def
      scan_tree_def unlocked_read_sys)

lemma unlocked_writes [unlocks]:
  "unlocked (open_write p)" "unlocked (unlink p)" "unlocked (os_remove p)" "unlocked (os_mkdir p)"
  "unlocked (copystat p q)" "unlocked (os_rename p q)" "unlocked (open_append p)"
  unfolding open_write_def unlink_def os_remove_def os_mkdir_def copystat_def os_rename_def open_append_def
  by (rule unlocked_sys; auto split: option.split ftree.split list.split)+

lemma unlocked_data [unlocks]: "unlocked (write_data p s)" "unlocked (append_data p old s)"
  unfolding write_data_def append_data_def by (rule same_sys_torn; simp add: tick_def)+

lemma unlocked_write_text [unlocks]: "unlocked (write_text p s)" "unlocked (append_text p s)"
  unfolding write_text_def append_text_def by (intro unlocks)+

lemma lock_part: "host_part (\<lambda>w. (w_held w, w_pid w))"
  by (simp add: host_part_def tick_def)

lemmas unlocked_mkdir_p [unlocks] = same_mkdir_p [OF lock_part]

lemma unlocked_makedirs_rev: "unlocked (makedirs_rev rp)"
  by (induction rp) (auto simp: Let_def os_mkdir_new_def os_path_exists_def intro!: unlocks split: mkdir_result.split)

lemma unlocked_rmtree [unlocks]: "unlocked (rmtree p)" "unlocked (rmtree_ignore p)"
  unfolding rmtree_def rmtree_ignore_def by (auto intro!: unlocks)

lemma unlocked_copy2 [unlocks]: "unlocked (copy2 p q)" "unlocked (copy_file p s q)"
  unfolding copy2_def copy_file_def by (auto intro!: unlocks)

lemma unlocked_copy_tree: "unlocked (copy_tree ign src t dst :: ('e, unit) io)"
  "unlocked (copy_entries ign src es dst :: ('e, string list) io)"
  by (induction ign src t dst and ign src es dst rule: copy_tree_copy_entries.induct)
     (auto simp: os_makedirs_def note_error_def intro!: unlocks unlocked_makedirs_rev)

lemma unlocked_copytree [unlocks]: "unlocked (copytree ign src dst)"
  unfolding copytree_def by (auto intro!: unlocks unlocked_copy_tree)

lemma unlocked_process [unlocks]: "unlocked (run_process exec argv stdin timeout)"
  "unlocked (run_command exec argv timeout phase)"
  unfolding run_process_def run_command_def
  by (auto intro!: unlocks unlocked_sys split: option.split outcome.split prod.split)

subsection \<open>The commands\<close>

lemma unlocked_local [unlocks]:
  "unlocked (local_store d src i)" "unlocked (local_list_backups d)" "unlocked (local_delete d i)" "unlocked (local_check d)"
proof -
  have "unlocked (listed_entries d names)" for names
    by (induction names) (auto simp: listed_entry_def Let_def intro!: unlocks split: prod.split)
  then show "unlocked (local_list_backups d)"
    by (auto simp: local_list_backups_def intro!: unlocks)
qed (auto simp: local_store_def local_transfer_def local_delete_def local_delete_one_def local_check_def Let_def
    intro!: unlocks)

lemma unlocked_remote [unlocks]: "unlocked (remote_run exec d cmd)" "unlocked (remote_file_exists exec d p)"
  unfolding remote_run_def remote_file_exists_def ssh_process_def by (auto intro!: unlocks)

lemma unlocked_retries [unlocks]: "unlocked (run_with_retries exec d argv)"
proof -
  have "unlocked (rsync_attempts exec d argv n e)" for n e
    by (induction n arbitrary: e) (auto simp: rsync_attempt_def intro!: unlocks split: option.split)
  then show ?thesis by (simp add: run_with_retries_def)
qed

lemma unlocked_ssh [unlocks]:
  "unlocked (ssh_store exec d src i)" "unlocked (ssh_list_backups exec d)" "unlocked (ssh_delete exec d i)"
  "unlocked (ssh_check exec d)"
  unfolding ssh_store_def ssh_list_backups_def ssh_delete_def ssh_check_def rsync_directory_def rsync_meta_file_def Let_def
  by (auto intro!: unlocks)

lemma unlocked_dest [unlocks]:
  "unlocked (dest_store exec dest src i)" "unlocked (dest_list_backups exec dest)" "unlocked (dest_delete exec dest i)"
  "unlocked (dest_check exec dest)"
  by (cases dest; simp add: unlocks)+

lemma unlocked_hook [unlocks]: "unlocked (run_hook exec cmd inp ff)"
  unfolding run_hook_def handle_failure_def by (auto intro!: unlocks split: sum.split)

lemma unlocked_replication [unlocks]: "unlocked (check_replication exec b r)"
  unfolding check_replication_def query_server_version_def run_client_def Let_def
  by (auto intro!: unlocks)

lemma unlocked_runner [unlocks]:
  "unlocked (run_backup exec c r p)" "unlocked (run_prepare exec c p)" "unlocked (get_version exec c)"
  unfolding run_backup_def run_prepare_def get_version_def execute_phase_def
  by (auto intro!: unlocks split: prod.split)

lemma unlocked_purge_loop [unlocks]:
  "(\<And>i. unlocked (del i)) \<Longrightarrow> unlocked (purge_loop del name dry ids dl err)"
  by (induction ids arbitrary: dl err) (auto intro!: unlocks split: prod.split)

lemma unlocked_purge_one [unlocks]: "unlocked (purge_one_destination exec config dc now dry ip)"
  unfolding purge_one_destination_def purge_destination_def
  by (auto intro!: unlocks split: prod.split)

lemma unlocked_purge_all [unlocks]: "unlocked (purge_all exec config dcs names now dry rs err)"
  by (induction dcs arbitrary: rs err) (auto intro!: unlocks split: prod.split option.split)

lemma unlocked_purge_stored [unlocks]: "unlocked (purge_stored_destinations exec config os i now err)"
  by (induction os arbitrary: err) (auto intro!: unlocks split: prod.split option.split)

lemma unlocked_store_all [unlocks]: "unlocked (store_to_destinations exec config dcs src i)"
  by (induction dcs) (auto simp: Let_def intro!: unlocks)

lemma unlocked_run [unlocks]: "unlocked (run_locked exec hostname config now)"
  unfolding run_locked_def check_replication_if_configured_def cleanup_stale_work_dir_def cleanup_entry_def
    make_backup_def write_manifest_def write_meta_def directory_size_bytes_def distribute_def purge_and_finish_def
    finish_run_def Let_def
  by (auto intro!: unlocks split: option.split)

subsection \<open>The lock around a command\<close>

lemma with_lock_releases:
  fixes body :: "('e, 'a) io"
  assumes "unlocked body" "(p, q) \<notin> set h"
  shows "triple (\<lambda>w. (w_held w, w_pid w) = (h, q)) (with_lock p body) (\<lambda>_ w. (w_held w, w_pid w) = (h, q))
    (\<lambda>e w. e = Killed \<or> is_os_error e \<or> (w_held w, w_pid w) = (h, q))"
proof -
  let ?P = "\<lambda>h (w :: 'e world). (w_held w, w_pid w) = (h, q)"
  let ?E = "\<lambda>e w. e = Killed \<or> is_os_error e \<or> ?P h w"
  let ?any = "\<lambda>w. ?P h w \<or> ?P ((p, q) # h) w"
  have rel: "release_lock p q h = h" "release_lock p q ((p, q) # h) = h"
    using assms(2) by (auto simp: release_lock_def filter_id_conv)
  have u: "triple (?P h) m (\<lambda>_. ?P h) (\<lambda>_. ?P h)" if "unlocked m" for h and m :: "('e, 'b) io"
    using that unfolding same_keeps by blast
  have u': "triple (?P h) m (\<lambda>_. ?P h) ?E" if "unlocked m" for m :: "('e, 'b) io"
    by (rule triple_weaken [OF u [OF that, of h]]) simp_all
  have ex: "triple (?P h) (except (flock_ex p) is_os_error (\<lambda>_. raise (lock_error p)))
      (\<lambda>_. ?P ((p, q) # h)) (\<lambda>_. ?any)"
  proof (rule triple_except [where R = "\<lambda>_. ?P h"])
    show "triple (?P h) (flock_ex p) (\<lambda>_. ?P ((p, q) # h)) (\<lambda>_. ?P h)"
      unfolding flock_ex_def sys_def
      by (rule triple_sys_torn) (auto simp: tick_def try_lock_def split: option.split)
  qed (auto intro: triple_raise)
  have un: "triple ?any (flock_un p) (\<lambda>_. ?P h) (\<lambda>e _. e = Killed \<or> is_os_error e)"
    unfolding flock_un_def sys_def
    by (rule triple_sys_torn) (use rel in \<open>auto simp: tick_def is_os_error_def\<close>)
  have cl: "triple (?P h) (close_lock p) (\<lambda>_. ?P h) ?E"
    using rel by (auto simp: triple_def close_lock_def)
  have release: "triple ?any (sq (flock_un p) (close_lock p)) (\<lambda>_. ?P h) ?E"
    by (rule triple_sq [OF triple_weaken [OF un] cl]) auto
  show ?thesis
    unfolding with_lock_def
  proof (rule triple_sq [OF u'] triple_sq [OF u'], rule unlocks, rule triple_sq [OF u'], rule unlocks,
      rule triple_finally [where Q = "\<lambda>_. ?any" and E = "\<lambda>_. ?any"])
    show "triple (?P h) (sq (except (flock_ex p) is_os_error (\<lambda>_. raise (lock_error p))) body) (\<lambda>_. ?any) (\<lambda>_. ?any)"
      by (rule triple_sq [OF ex], rule triple_weaken [OF u [OF assms(1)]]) auto
    show "triple ?any (sq (flock_un p) (close_lock p)) (\<lambda>_. ?E e) ?E" for e
      by (rule triple_weaken [OF release]) auto
  qed (rule release | simp)+
qed


text \<open>What creating a directory or opening a file can raise.\<close>

abbreviation raises_os :: "('e, 'a) io \<Rightarrow> bool" where
  "raises_os m \<equiv> triple (\<lambda>_. True) m (\<lambda>_ _. True) (\<lambda>e _. is_os_error e \<or> e = Killed)"

lemma os_errors [simp]: "is_os_error (OSError msg)" "is_os_error no_such_file" "is_os_error file_exists"
  "is_os_error not_a_directory" "is_os_error is_a_directory"
  by (simp_all add: is_os_error_def no_such_file_def file_exists_def not_a_directory_def is_a_directory_def)

lemma raises_os_create: "raises_os (os_mkdir p)" "raises_os (open_write p)" "raises_os (path_is_dir p)"
  unfolding os_mkdir_def open_write_def path_is_dir_def read_sys_def sys_def
  by (rule triple_sys_torn; simp)+

lemma raises_os_mkdir_p: "raises_os (mkdir_p p)"
proof -
  have settle: "raises_os (mkdir_settle p e)" if "is_os_error e" for p e
    unfolding mkdir_settle_def using that
    by (auto intro!: triple_bnd [OF raises_os_create(3)] triple_ret triple_raise)
  have settle': "triple (\<lambda>_. is_os_error e \<or> e = Killed) (mkdir_settle p e) (\<lambda>_ _. True) (\<lambda>e _. is_os_error e \<or> e = Killed)"
    if "is_os_error e" for p e
    by (rule triple_weaken [OF settle [OF that]]) simp_all
  have here: "raises_os (mkdir_here p)" for p
    unfolding mkdir_here_def
    by (rule triple_except_else [OF raises_os_create(1)])
       (auto intro!: settle' settle triple_ret triple_raise split: mkdir_result.split)
  have "raises_os (mkdir_rev rp)" for rp
  proof (induction rp)
    case (Cons c rp)
    show ?case
      unfolding mkdir_rev.simps Let_def
      by (rule triple_except_else [OF raises_os_create(1)])
         (auto intro!: settle' settle triple_ret triple_sq [OF Cons here] split: mkdir_result.split)
  qed (simp add: here)
  then show ?thesis by (simp add: mkdir_p_def)
qed

lemma with_lock_refused:
  fixes w :: "'a world" and body :: "('a, 'b) io"
  assumes "(p, holder) \<in> set (w_held w)" "holder \<noteq> w_pid w" "with_lock p body w = (r, w')"
  shows "(\<exists>e. r = Inl e \<and> (e = lock_error p \<or> is_os_error e \<or> e = Killed)) \<and>
    w_ext w' = w_ext w \<and> w_log w' = w_log w \<and> (p, holder) \<in> set (w_held w') \<and>
    (\<forall>q. apart p q \<longrightarrow> \<not> is_prefix q (path_parent p) \<longrightarrow> lookup_tree (w_fs w') q = lookup_tree (w_fs w) q)"
proof -
  let ?q = "w_pid w"
  define f where "f = (\<lambda>w :: 'a world. (w_held w, w_pid w, w_ext w, w_log w))"
  have part: "host_part f"
    by (simp add: f_def host_part_def tick_def set_at_def set_contents_def)
  let ?T = "\<lambda>fs. \<forall>q. apart p q \<longrightarrow> \<not> is_prefix q (path_parent p) \<longrightarrow> lookup_tree fs q = lookup_tree (w_fs w) q"
  let ?J = "\<lambda>w'. (\<exists>h. f w' = (h, ?q, w_ext w, w_log w) \<and> (p, holder) \<in> set h) \<and> ?T (w_fs w')"
  let ?E = "\<lambda>e w'. (e = lock_error p \<or> is_os_error e \<or> e = Killed) \<and> ?J w'"
  have step: "triple ?J m (\<lambda>_. ?J) ?E" if "same f m" "fs_keeps ?T m" "raises_os m" for m :: "('a, 'c) io"
  proof (rule triple_pre)
    fix v :: "'a world" assume J: "?J v"
    have "?J (snd (m v))" using that(1) keepsD [OF that(2), of v] J by (simp add: same_def)
    moreover have "is_os_error e \<or> e = Killed" if "fst (m v) = Inl e" for e
      using tripleD [OF \<open>raises_os m\<close> TrueI prod.collapse [symmetric]] that by blast
    ultimately show "triple ((=) v) m (\<lambda>_. ?J) ?E"
      by (auto simp: triple_def split: prod.split sum.split)
  qed
  have "grows (path_parent p) (\<lambda>fs. lookup_tree fs q = lookup_tree (w_fs w) q)" if "\<not> is_prefix q (path_parent p)" for q
    using that by (rule grows_lookup)
  moreover have "stable p (\<lambda>fs. lookup_tree fs q = lookup_tree (w_fs w) q)" if "apart p q" for q
    using that by (rule stable_lookup)
  ultimately have T: "grows (path_parent p) ?T" "stable p ?T"
    unfolding grows_def stable_def by blast+
  have ex: "triple ?J (except (flock_ex p) is_os_error (\<lambda>_. raise (lock_error p))) (\<lambda>_ _. False) ?E"
  proof (rule triple_except [where R = "\<lambda>e w'. (is_os_error e \<or> e = Killed) \<and> ?J w'"])
    show "triple ?J (flock_ex p) (\<lambda>_ _. False) (\<lambda>e w'. (is_os_error e \<or> e = Killed) \<and> ?J w')"
      unfolding flock_ex_def sys_def
      by (rule triple_sys_torn) (auto simp: tick_def f_def try_lock_def split: option.split intro: rev_image_eqI)
  qed (auto intro: triple_raise)
  have un: "triple (\<lambda>w'. ?E e w') (sq (flock_un p) (close_lock p)) (\<lambda>_ w'. ?E e w') ?E" for e
    unfolding flock_un_def sys_def
    by (rule triple_sq [where R = "?E e"], rule triple_sys_torn)
       (use assms(2) in \<open>auto simp: triple_def close_lock_def tick_def f_def\<close>)
  have "triple ?J (with_lock p body) (\<lambda>_ _. False) ?E"
    unfolding with_lock_def
  proof (rule triple_sq [OF step], rule same_mkdir_p [OF part], rule keeps_mkdir_p [OF T(1)], rule raises_os_mkdir_p,
      rule triple_sq [OF step], rule same_create(2) [OF part], rule keeps_open_write [OF T(2)], simp,
      rule raises_os_create(2), rule triple_finally [where Q = "\<lambda>_ _. False" and E = ?E])
    show "triple ?J (sq (except (flock_ex p) is_os_error (\<lambda>_. raise (lock_error p))) body)
      (\<lambda>_ _. False) ?E"
      by (rule triple_sq [OF ex]) simp
  qed (rule un | simp)+
  from tripleD [OF this _ assms(3)] show ?thesis
    using assms(1) by (cases r) (auto simp: f_def)
qed


subsection \<open>Concrete runs\<close>



end
