(* ===== verification/Run_Whole.thy ===== *)
theory Run_Whole
  imports Run_Succeeds Manifest_Read Lock_Correct
begin

text \<open>
  The whole \<open>run\<close>, from the lock to the exit code, when nothing fails: what mariabackup is
  relied on for is stated of \<open>exec\<close>, and every destination ends up with a whole generation
  and its manifest.
\<close>

subsection \<open>What mariabackup does\<close>

text \<open>
  A phase of mariabackup, started on an existing target directory: it returns 0, reports
  success on its standard error, changes nothing but the contents of the target directory,
  and puts no \<open>meta.json\<close> and no directory of the name of the log file there.
\<close>

definition times_in_range :: "(path \<Rightarrow> int) \<Rightarrow> bool" where
  "times_in_range mt \<longleftrightarrow> (\<forall>p. in_range (mt p))"

definition phase_works :: "'e exec \<Rightarrow> pyval list \<Rightarrow> path \<Rightarrow> bool" where
  "phase_works exec argv target \<longleftrightarrow> argv_error argv = None \<and>
     (\<forall>timeout e fs mt. wf_tree fs \<and> is_dir_at fs target \<and> times_in_range mt \<longrightarrow>
        (\<exists>out err e' es mt'. exec (map as_str argv) None timeout (e, fs, mt) =
             (Finished 0 out err, e', alter target (Some (FDir es)) fs, mt') \<and>
           contains success_marker err \<and> wf_tree (FDir es) \<and> meta_filename \<notin> fst ` set es \<and>
           (\<forall>s. map_of es log_filename \<noteq> Some (FDir s)) \<and> times_in_range mt'))"

text \<open>\<open>mariabackup --version\<close> leaves the file tree alone, and prints text.\<close>

definition version_works :: "'e exec \<Rightarrow> pyval list \<Rightarrow> bool" where
  "version_works exec argv \<longleftrightarrow> argv_error argv = None \<and>
     (\<forall>timeout e fs mt. times_in_range mt \<longrightarrow> (\<exists>r e' mt'. exec (map as_str argv) None timeout (e, fs, mt) = (r, e', fs, mt') \<and>
        (\<forall>msg. r \<noteq> Undecodable msg) \<and> times_in_range mt'))"

subsection \<open>Small steps\<close>

lemma fine_Ex: "(\<And>y. fine b (I y) m J) \<Longrightarrow> fine b (\<lambda>f. \<exists>y. I y f) m J"
  unfolding fine_def by blast

lemma fine_for_each: "(\<And>x. x \<in> set xs \<Longrightarrow> fine b I (g x) (\<lambda>_. I)) \<Longrightarrow> fine b I (for_each xs g) (\<lambda>_. I)"
  by (induction xs) (auto intro: fine_ret fine_sq)

lemma fine_now: "fine b I now_utc (\<lambda>_. I)"
  by (simp add: fine_def now_utc_def)

lemma fine_lift: "r = Inr x \<Longrightarrow> fine b I (lift r) (\<lambda>y f. I f \<and> y = x)"
  by (simp add: fine_def lift_def)

lemma quiet_set_host: "quiet True w \<Longrightarrow> times_in_range mt \<Longrightarrow> quiet True (set_host (e, fs, mt) w)"
  by (simp add: quiet_def calm_def set_host_def times_in_range_def)

lemma fine_mkdir_new:
  assumes "stable (p @ [c]) K"
  shows "fine b (\<lambda>f. is_dir_at f p \<and> \<not> exists_at f (p @ [c]) \<and> K f) (mkdir_p (p @ [c]) :: ('e, unit) io)
    (\<lambda>_ f. lookup_tree f (p @ [c]) = Some (FDir []) \<and> K f)"
proof -
  obtain k :: "('e, unit) io" where eq: "mkdir_p (p @ [c]) = except_else (os_mkdir (p @ [c])) is_os_error (mkdir_settle (p @ [c]))
      (\<lambda>r. case r of Created \<Rightarrow> ret () | Already_There \<Rightarrow> mkdir_settle (p @ [c]) file_exists | Parent_Missing \<Rightarrow> k)"
    by (auto simp: mkdir_p_def Let_def)
  have "fine b (\<lambda>f. is_dir_at f p \<and> \<not> exists_at f (p @ [c]) \<and> K f) (os_mkdir (p @ [c]))
      (\<lambda>r f. (lookup_tree f (p @ [c]) = Some (FDir []) \<and> K f) \<and> r = Created)"
    unfolding os_mkdir_def sys_def
    by (rule fine_sys_torn) (use assms in \<open>auto simp: lookup_alter_same stable_def\<close>)
  then show ?thesis unfolding eq
    by (rule fine_except_else) (rule fine_assume, simp add: fine_ret)
qed

lemma fine_append_text:
  assumes "stable (p @ [c]) A" "\<And>f. A f \<Longrightarrow> is_dir_at f p"
  shows "fine b (\<lambda>f. A f \<and> \<not> is_dir_at f (p @ [c])) (append_text (p @ [c]) s) (\<lambda>_ f. A f \<and> \<not> is_dir_at f (p @ [c]))"
    (is "fine b ?I _ (\<lambda>_. ?I)")
proof -
  have written: "?I (alter (p @ [c]) (Some (FFile s)) f)" if "?I f" for s f
    using that assms lookup_alter_same [of f p c] by (auto simp: stable_def is_dir_at_conv)
  show ?thesis
    unfolding append_text_def
  proof (rule fine_bnd)
    show "fine b ?I (open_append (p @ [c])) (\<lambda>_. ?I)"
      unfolding open_append_def sys_def
    proof (rule fine_sys_torn, goal_cases)
      case (1 w)
      then have d: "is_dir_at (w_fs w) p" using assms(2) by blast
      show ?case
      proof (cases "lookup_tree (w_fs w) (p @ [c])")
        case None
        with d 1 written [OF 1(2), of "[]"] show ?thesis by simp
      next
        case (Some t)
        with 1 show ?thesis by (cases t) (auto simp: is_dir_at_conv)
      qed
    qed
    show "fine b ?I (append_data (p @ [c]) old s) (\<lambda>_. ?I)" for old
      unfolding append_data_def by (rule fine_sys_torn) (use written in auto)
  qed
qed

subsection \<open>The backup\<close>

text \<open>The target directory after a phase, with what holds elsewhere.\<close>

definition prepared :: "path \<Rightarrow> (ftree \<Rightarrow> bool) \<Rightarrow> ftree \<Rightarrow> bool" where
  "prepared t K f \<longleftrightarrow> is_dir_at f t \<and> \<not> exists_at f (t @ [meta_filename]) \<and> \<not> is_dir_at f (t @ [log_filename]) \<and> K f"

lemma fine_log_file:
  assumes "stable t K"
  shows "fine b (prepared t K) (append_text (t @ [log_filename]) s) (\<lambda>_. prepared t K)"
proof -
  have "stable (t @ [log_filename]) (\<lambda>f. is_dir_at f t \<and> \<not> exists_at f (t @ [meta_filename]) \<and> K f)"
    unfolding exists_at_def
    by (intro stable_conj stable_is_dir stable_mono [OF assms] stable_lookup [where P = "\<lambda>t. \<not> t \<noteq> None"])
       (simp_all add: is_prefix_iff log_filename_def meta_filename_def)
  from fine_append_text [OF this, of b s] show ?thesis
    by (rule fine_weaken) (auto simp: prepared_def)
qed

lemma fine_phase:
  assumes "phase_works exec argv (q @ [x])" "stable (q @ [x]) K" "\<And>f. K f \<Longrightarrow> wf_tree f"
  shows "fine True (\<lambda>f. is_dir_at f (q @ [x]) \<and> K f) (execute_phase exec c argv (q @ [x, log_filename]) phase)
    (\<lambda>_. prepared (q @ [x]) K)"
proof -
  let ?t = "q @ [x]"
  have argv: "argv_error argv = None" using assms(1) by (simp add: phase_works_def)
  then have line: "join_argv argv = Inr (py_join '' '' (map as_str argv))"
    by (auto simp: argv_error_def join_argv_def split: if_splits)
  have run: "fine True (\<lambda>f. is_dir_at f ?t \<and> K f) (run_command exec argv timeout phase)
      (\<lambda>(timed_out, code, err) f. prepared ?t K f \<and> \<not> timed_out \<and> code = 0 \<and> contains success_marker err)" for timeout
    unfolding run_command_def argv option.case sys_def
  proof (rule fine_except, rule fine_sys_torn)
    fix w :: "'a world" assume w: "quiet True w" "is_dir_at (w_fs w) ?t \<and> K (w_fs w)"
    then have "times_in_range (w_mtime w)" "wf_tree (w_fs w)"
      using assms(3) by (auto simp: quiet_def times_in_range_def)
    with w(2) assms(1) obtain out err e' es mt' where
      ex: "exec (map as_str argv) None timeout (get_host w) = (Finished 0 out err, e', alter ?t (Some (FDir es)) (w_fs w), mt')"
      and ok: "contains success_marker err" "wf_tree (FDir es)" "meta_filename \<notin> fst ` set es"
        "\<forall>s. map_of es log_filename \<noteq> Some (FDir s)" "times_in_range mt'"
      unfolding phase_works_def get_host_def by meson
    let ?f = "alter ?t (Some (FDir es)) (w_fs w)"
    have "is_dir_at (w_fs w) q" using w(2) parent_is_dir [of "w_fs w" q x "[]"] by (auto simp: is_dir_at_conv)
    then have l: "lookup_tree ?f ?t = Some (FDir es)" by (simp add: lookup_alter_same)
    then have "prepared ?t K ?f"
      using ok(2-4) w(2) assms(2) lookup_snoc [of ?f ?t]
      by (auto simp: prepared_def is_dir_at_conv exists_at_def stable_def map_of_eq_None_iff)
    with ok(1) quiet_set_host [OF w(1) ok(5)]
    show "\<exists>y w'. (case exec (map as_str argv) None timeout (get_host w) of (r, h) \<Rightarrow>
          ((case r of
              Finished code out err \<Rightarrow> Inr (False, code, err)
            | NotStarted msg \<Rightarrow> Inl (OSError msg)
            | TimedOut err \<Rightarrow> Inr (True, 0, err)
            | Undecodable msg \<Rightarrow> Inl (UnicodeDecodeError msg)), set_host h w)) = (Inr y, w') \<and> quiet True w' \<and>
        (case y of (timed_out, code, err) \<Rightarrow> \<lambda>f. prepared ?t K f \<and> \<not> timed_out \<and> code = 0 \<and> contains success_marker err) (w_fs w')"
      by (simp add: ex)
  qed
  have log: "fine True (prepared ?t K) (append_text (q @ [x, log_filename]) s) (\<lambda>_. prepared ?t K)" for s
    using fine_log_file [OF assms(2), of True s] by simp
  show ?thesis
    unfolding execute_phase_def line bnd_lift_Inr
  proof (rule fine_sq [OF fine_log fine_bnd [OF run]])
    fix r :: "bool \<times> int \<times> string"
    obtain timed_out code err where r: "r = (timed_out, code, err)" by (cases r)
    have "fine True (prepared ?t K) (sq (append_text (q @ [x, log_filename]) s) (sq (for_each ls (\<lambda>l. log_msg a (g l)))
        (ret ()))) (\<lambda>_. prepared ?t K)" for s ls a g
      by (intro fine_sq [OF log] fine_sq [OF fine_for_each] fine_log fine_ret)
    then show "fine True (case r of (timed_out, code, err) \<Rightarrow> \<lambda>f. prepared ?t K f \<and> \<not> timed_out \<and> code = 0 \<and> contains success_marker err)
      (case r of (timed_out, code, err) \<Rightarrow>
        sq (append_text (q @ [x, log_filename]) (''--- mariabackup '' @ phase @ '' ---'' @ [CHR 0x0A] @ err @ [CHR 0x0A]))
        (sq (for_each (last_lines tail_log_lines (py_splitlines err))
             (\<lambda>l. log_msg ''debug'' (''mariabackup '' @ phase @ '': '' @ l)))
        (if timed_out then raise (BackupError (''mariabackup '' @ phase @ '' timed out after ''
            @ str_int (b_timeout_seconds c) @ ''s and was killed; see '' @ path_str (q @ [x, log_filename])))
         else if code \<noteq> 0 \<or> \<not> contains success_marker err
         then raise (BackupError (''mariabackup '' @ phase @ '' failed (returncode='' @ str_int code @ ''); see ''
            @ path_str (q @ [x, log_filename])))
         else ret ()))) (\<lambda>_. prepared ?t K)"
      unfolding r prod.case by (intro fine_assume) simp
  qed
qed

lemma plain_log: "plain log_filename"
  by (simp add: plain_def log_filename_def)

text \<open>Both phases have what they need.\<close>

definition mariabackup_works :: "'e exec \<Rightarrow> config \<Rightarrow> path \<Rightarrow> bool" where
  "mariabackup_works exec config t \<longleftrightarrow>
     phase_works exec (backup_argv (c_backup config) (c_replication config) t) t \<and>
     phase_works exec (prepare_argv (c_backup config) t) t \<and>
     version_works exec [b_mariabackup_path (c_backup config), PStr ''--version'']"

lemma fine_make_backup:
  assumes "mariabackup_works exec config (q @ [x])" "stable (q @ [x]) K" "\<And>f. K f \<Longrightarrow> wf_tree f"
  shows "fine True (\<lambda>f. is_dir_at f (q @ [x]) \<and> K f) (make_backup exec config (q @ [x]))
    (\<lambda>r f. prepared (q @ [x]) K f \<and> r = None)"
proof -
  have log: "path_join (q @ [x]) log_filename = q @ [x, log_filename]"
    using path_join_plain [OF plain_log, of "q @ [x]"] by simp
  have phases: "phase_works exec (backup_argv (c_backup config) (c_replication config) (q @ [x])) (q @ [x])"
    "phase_works exec (prepare_argv (c_backup config) (q @ [x])) (q @ [x])"
    using assms(1) by (simp_all add: mariabackup_works_def)
  have prep: "fine True (prepared (q @ [x]) K) (do_when (b_prepare (c_backup config)) (run_prepare exec (c_backup config) (q @ [x])))
      (\<lambda>_. prepared (q @ [x]) K)"
    unfolding do_when_def run_prepare_def log
    by (auto intro!: fine_ret fine_weaken [OF fine_phase [OF phases(2) assms(2,3)]] simp: prepared_def)
  show ?thesis
    unfolding make_backup_def run_backup_def log
    by (rule fine_except_else [OF fine_sq [OF fine_phase [OF phases(1) assms(2,3)] prep]]) (auto intro: fine_ret)
qed

subsection \<open>The manifest\<close>

lemma fine_get_version:
  assumes "version_works exec [b_mariabackup_path c, PStr ''--version'']"
  shows "fine True I (get_version exec c) (\<lambda>_. I)"
proof -
  let ?argv = "[b_mariabackup_path c, PStr ''--version'']"
  have argv: "argv_error ?argv = None" using assms by (simp add: version_works_def)
  let ?r = "run_process exec ?argv None (Some version_timeout_seconds)"
  have "\<exists>y w'. ?r w = (y, w') \<and> quiet True w' \<and> I (w_fs w') \<and> (\<forall>e. y = Inl e \<longrightarrow> is_process_error e)"
    if w: "quiet True w" "I (w_fs w)" for w
  proof -
    have "times_in_range (w_mtime (tick w))" using w(1) by (simp add: quiet_def times_in_range_def tick_def)
    with assms obtain r e' mt' where ex: "exec (map as_str ?argv) None (Some version_timeout_seconds) (get_host (tick w)) =
        (r, e', w_fs (tick w), mt')" "\<forall>msg. r \<noteq> Undecodable msg" "times_in_range mt'"
      unfolding version_works_def get_host_def by metis
    have "quiet True (set_host (e', w_fs (tick w), mt') (tick w))"
      using w(1) ex(3) by (intro quiet_set_host) simp_all
    moreover have "w_fault w (w_tick w) = NoFault" using w(1) by (simp add: quiet_def calm_def)
    ultimately show ?thesis
      using ex(1,2) w(2) by (cases r) (auto simp: run_process_def argv sys_def sys_torn_def is_process_error_def)
  qed
  then have run: "\<exists>y w'. ?r w = (y, w') \<and> quiet True w' \<and> I (w_fs w') \<and> (\<forall>e. y = Inl e \<longrightarrow> is_process_error e)"
    if "quiet True w \<and> I (w_fs w)" for w using that by blast
  show ?thesis
    unfolding get_version_def fine_def except_else_def
  proof (intro allI impI, goal_cases)
    case (1 w)
    from run [OF this] obtain y w' where "?r w = (y, w')" "quiet True w'" "I (w_fs w')" "\<forall>e. y = Inl e \<longrightarrow> is_process_error e"
      by blast
    then show ?case by (cases y) (auto simp: ret_def is_process_error_def)
  qed
qed

text \<open>The finished generation: its entries, and the manifest of the run among them.\<close>

definition manifest_of :: "string \<Rightarrow> (string \<times> ftree) list \<Rightarrow> bool" where
  "manifest_of i es \<longleftrightarrow> (\<exists>meta. map_of es meta_filename = Some (FFile (to_json meta)) \<and>
     m_backup_id meta = i \<and> m_status meta = ''complete'' \<and> m_type meta = ''full'')"

lemma fine_write_manifest:
  assumes "mariabackup_works exec config t" "stable t K"
  shows "fine True (prepared t K) (write_manifest exec hostname config t i state started finished)
    (\<lambda>_ f. \<exists>es. lookup_tree f t = Some (FDir es) \<and> manifest_of i es \<and> K f)"
proof -
  have v: "version_works exec [b_mariabackup_path (c_backup config), PStr ''--version'']"
    using assms(1) by (simp add: mariabackup_works_def)
  have size: "fine True I (directory_size_bytes p) (\<lambda>_. I)" for I p
    unfolding directory_size_bytes_def by (rule fine_read) simp
  have meta: "fine True (prepared t K) (write_meta t m) (\<lambda>_ f. \<exists>es. lookup_tree f t = Some (FDir es) \<and> manifest_of i es \<and> K f)"
    if "m_backup_id m = i" "m_status m = ''complete''" "m_type m = ''full''" for m
  proof -
    have keep: "fs_keeps (\<lambda>f. is_dir_at f t \<and> K f) (write_meta t m)"
      unfolding write_meta_def path_join_plain [OF plain_meta]
    proof (rule keeps_write_text)
      show "stable (t @ [meta_filename]) (\<lambda>f. is_dir_at f t \<and> K f)"
        by (intro stable_conj stable_is_dir stable_mono [OF assms(2)]) (simp_all add: is_prefix_iff)
    qed (simp add: is_prefix_iff)
    have "fine True (\<lambda>f. \<not> exists_at f (t @ [meta_filename]) \<and> is_dir_at f t) (write_meta t m) (\<lambda>_ _. True)"
      unfolding write_meta_def path_join_plain [OF plain_meta] by (rule fine_write_new)
    moreover have "triple (\<lambda>w. \<not> exists_at (w_fs w) (t @ [meta_filename])) (write_meta t m)
        (\<lambda>_ w. lookup_tree (w_fs w) (t @ [meta_filename]) = Some (FFile (to_json m))) (\<lambda>_ _. True)"
      by (rule triple_weaken [OF write_meta_leaves]) auto
    ultimately have "fine True (\<lambda>f. (\<not> exists_at f (t @ [meta_filename]) \<and> is_dir_at f t) \<and> \<not> exists_at f (t @ [meta_filename]))
        (write_meta t m) (\<lambda>_ f. True \<and> lookup_tree f (t @ [meta_filename]) = Some (FFile (to_json m)))"
      by (rule fine_and)
    from fine_frame [OF this keep]
    have "fine True (\<lambda>f. (\<not> exists_at f (t @ [meta_filename]) \<and> is_dir_at f t) \<and> \<not> exists_at f (t @ [meta_filename]) \<and> is_dir_at f t \<and> K f)
        (write_meta t m) (\<lambda>_ f. lookup_tree f (t @ [meta_filename]) = Some (FFile (to_json m)) \<and> is_dir_at f t \<and> K f)"
      by (rule fine_weaken) auto
    then show ?thesis
    proof (rule fine_weaken)
      fix f assume "lookup_tree f (t @ [meta_filename]) = Some (FFile (to_json m)) \<and> is_dir_at f t \<and> K f"
      then show "\<exists>es. lookup_tree f t = Some (FDir es) \<and> manifest_of i es \<and> K f"
        using that by (auto simp: is_dir_at_conv lookup_snoc manifest_of_def)
    qed (simp add: prepared_def)
  qed
  show ?thesis
    unfolding write_manifest_def
    by (rule fine_bnd [OF fine_get_version [OF v]], rule fine_bnd [OF size], rule meta) simp_all
qed

subsection \<open>Cleaning the work directory\<close>

lemma fine_cleanup:
  assumes "plain i" "stable work K" "\<And>f. K f \<Longrightarrow> wf_tree f"
  shows "fine b (\<lambda>f. is_dir_at f work \<and> \<not> exists_at f (work @ [i]) \<and> K f) (cleanup_stale_work_dir work i)
    (\<lambda>_ f. is_dir_at f work \<and> \<not> exists_at f (work @ [i]) \<and> K f)"
    (is "fine b ?I _ _")
proof -
  have entry: "fine b ?I (cleanup_entry work i n) (\<lambda>_. ?I)" for n
    unfolding cleanup_entry_def Let_def
  proof (rule fine_bnd [OF fine_tests(1) [of b ?I]])
    fix isd
    show "fine b (\<lambda>f. ?I f \<and> isd = is_dir_at f (work @ [n])) (do_when (isd \<and> path_name (work @ [n]) \<noteq> i)
        (sq (log_msg ''warning'' (''removing stale work_dir entry from a previous run: '' @ path_str (work @ [n])))
          (rmtree_ignore (work @ [n])))) (\<lambda>_. ?I)"
    proof (cases "isd \<and> path_name (work @ [n]) \<noteq> i")
      case True
      then have n: "n \<noteq> i" using plain_not_root [OF assms(1)] by (auto simp: path_name_def)
      have "stable (work @ [n]) ?I"
        unfolding exists_at_def
        by (intro stable_conj stable_is_dir stable_mono [OF assms(2)] stable_lookup [where P = "\<lambda>t. \<not> t \<noteq> None"])
           (use n in \<open>simp_all add: is_prefix_iff\<close>)
      then have "fine b (\<lambda>f. (is_dir_at f (work @ [n]) \<and> wf_tree f) \<and> ?I f) (rmtree_ignore (work @ [n]))
          (\<lambda>_ f. \<not> exists_at f (work @ [n]) \<and> ?I f)"
        by (intro fine_frame fine_rmtree_ignore keeps_rmtree_ignore) auto
      then have "fine b (\<lambda>f. ?I f \<and> isd = is_dir_at f (work @ [n])) (rmtree_ignore (work @ [n])) (\<lambda>_. ?I)"
        by (rule fine_weaken) (use True assms(3) in auto)
      from fine_sq [OF fine_log this] True show ?thesis by (simp add: do_when_def)
    qed (auto simp: do_when_def intro: fine_ret)
  qed
  have names: "fine b ?I (list_dir work) (\<lambda>_. ?I)"
    unfolding list_dir_def by (rule fine_read) auto
  have dir: "fine b ?I (path_is_dir work) (\<lambda>isd f. ?I f \<and> isd = True)"
    by (rule fine_weaken [OF fine_tests(1) [of b ?I]]) auto
  show ?thesis
    unfolding cleanup_stale_work_dir_def
    by (rule fine_bnd [OF dir], rule fine_assume)
       (auto simp: do_when_def intro: fine_bnd [OF names fine_for_each [OF entry]])
qed

subsection \<open>Under the lock\<close>

lemma stable_holds: "apart q (ld_path d) \<Longrightarrow> stable q (\<lambda>f. P (local_holds d f))"
  unfolding stable_def
proof (intro allI impI)
  fix f x r assume q: "apart q (ld_path d)" "is_prefix q r" and P: "P (local_holds d f)"
  have "lookup_tree (alter r x f) (ld_path d @ [j]) = lookup_tree f (ld_path d @ [j])" for j
    using apart_below [OF apart_mono [OF q], of "[]" "[j]"] by (simp add: lookup_alter_apart)
  from same_entries(1) [OF this] P show "P (local_holds d (alter r x f))" by simp
qed

lemma stable_ready:
  assumes "\<forall>dc \<in> set (c_destinations config). apart q (dest_path config dc)"
  shows "stable q (ready config i)"
proof -
  have "stable q (\<lambda>f. wf_tree f \<and> (\<forall>dc \<in> set (c_destinations config). (tidy (dest_path config dc) f \<and>
     \<not> exists_at f (dest_path config dc @ [i])) \<and> (\<forall>j. local_holds (configured config dc) f j \<noteq> None \<longrightarrow> j \<le> i)))"
    using assms by (intro stable_conj stable_wf stable_Ball frames_stored
        stable_holds [where P = "\<lambda>h. \<forall>j. h j \<noteq> None \<longrightarrow> j \<le> i"]) auto
  then show ?thesis by (simp add: ready_def [abs_def] conj_assoc)
qed

text \<open>What the work directory and the configuration have to be like for a run to succeed.\<close>

definition run_ready :: "'e exec \<Rightarrow> config \<Rightarrow> datetime \<Rightarrow> string \<Rightarrow> bool" where
  "run_ready exec config now i \<longleftrightarrow>
     generate_backup_id (b_name_prefix (c_backup config)) now = Inr i \<and> local_storable i \<and> purgeable config now \<and>
     r_mode (c_replication config) = ''off'' \<and> r_max_lag_seconds (c_replication config) = 0 \<and>
     h_pre_backup (c_hooks config) = [] \<and> local_layout config (b_work_dir (c_backup config)) \<and>
     mariabackup_works exec config (b_work_dir (c_backup config) @ [i])"

lemma fine_run_locked:
  assumes "run_ready exec config now i"
  defines "work \<equiv> b_work_dir (c_backup config)"
  shows "fine True (\<lambda>f. is_dir_at f work \<and> \<not> exists_at f (work @ [i]) \<and> ready config i f)
    (run_locked exec hostname config now :: ('e, run_summary) io)
    (\<lambda>s f. s = good_summary config i \<and> \<not> exists_at f (work @ [i]) \<and> (\<exists>es. manifest_of i es \<and> held (dests_of config) i (stored_tree (FDir es)) f))"
proof -
  have cfg: "generate_backup_id (b_name_prefix (c_backup config)) now = Inr i" "local_storable i" "purgeable config now"
    "r_mode (c_replication config) = ''off'' \<and> r_max_lag_seconds (c_replication config) = 0"
    "h_pre_backup (c_hooks config) = []" "local_layout config work" "mariabackup_works exec config (work @ [i])"
    using assms by (simp_all add: run_ready_def)
  have p: "plain i" using storable_good [OF cfg(2)] by simp
  have ap: "apart work (dest_path config dc)" "apart (work @ [i]) (dest_path config dc)" if "dc \<in> set (c_destinations config)" for dc
    using cfg(6) that apart_below [of work "dest_path config dc" "[i]" "[]"] by (auto simp: local_layout_def intro: apart_sym)
  have st: "stable work (ready config i)" "stable (work @ [i]) (ready config i)"
    using ap by (intro stable_ready; blast)+
  have wf: "ready config i f \<Longrightarrow> wf_tree f" for f by (simp add: ready_def)
  have layout: "local_layout config (work @ [i])"
    using cfg(6) ap(2) by (auto simp: local_layout_def intro: apart_sym)
  have target: "path_join work i = work @ [i]" by (rule path_join_plain [OF p])
  let ?K = "ready config i" and ?t = "work @ [i]"
  let ?J = "\<lambda>s f. s = good_summary config i \<and> \<not> exists_at f ?t \<and> (\<exists>es. manifest_of i es \<and> held (dests_of config) i (stored_tree (FDir es)) f)"
  have dist: "fine True (\<lambda>f. \<exists>es. lookup_tree f ?t = Some (FDir es) \<and> manifest_of i es \<and> ?K f)
      (distribute exec config ?t i now :: ('e, run_summary) io) ?J"
  proof (rule fine_Ex)
    fix es
    show "fine True (\<lambda>f. lookup_tree f ?t = Some (FDir es) \<and> manifest_of i es \<and> ?K f)
      (distribute exec config ?t i now :: ('e, run_summary) io) ?J"
    proof (cases "manifest_of i es")
      case True
      then obtain m where "map_of es meta_filename = Some (FFile m)" by (auto simp: manifest_of_def)
      from fine_distribute [OF cfg(3,2) layout _ this, where exec = exec] True
      show ?thesis by (auto elim!: fine_weaken)
    qed (simp add: fine_False)
  qed
  have after: "fine True (\<lambda>f. prepared ?t ?K f \<and> r = None) ((case r of
        Some error \<Rightarrow> finish_run exec \<lparr>rn_backup_id = i, rn_exit_code = BACKUP_FAILED,
            rn_outcomes = [], rn_error = error\<rparr> config
      | None \<Rightarrow> bnd now_utc (\<lambda>finished_at. sq (write_manifest exec hostname config ?t i state started_at finished_at)
             (distribute exec config ?t i now))) :: ('e, run_summary) io) ?J" for r state started_at
    by (rule fine_assume) (simp add: fine_bnd [OF fine_now fine_sq [OF fine_write_manifest [OF cfg(7) st(2)] dist]])
  have make: "fine True (\<lambda>f. lookup_tree f ?t = Some (FDir []) \<and> ?K f) (make_backup exec config ?t)
      (\<lambda>r f. prepared ?t ?K f \<and> r = None)"
    by (rule fine_weaken [OF fine_make_backup [OF cfg(7) st(2) wf]]) (simp_all add: is_dir_at_conv)
  have check: "check_replication_if_configured exec config = (ret \<lparr>rs_is_replica = False, rs_lag_seconds = None, rs_server_version = []\<rparr>
      :: ('e, replication_state) io)"
    using cfg(4) by (simp add: check_replication_if_configured_def)
  show ?thesis
    unfolding run_locked_def cfg(1) bnd_lift_Inr check cfg(5) Let_def work_def [symmetric] target
    by (rule fine_sq [OF fine_log], rule fine_bnd [OF fine_ret], assumption, rule fine_sq [OF quiet_hook],
        rule fine_sq [OF fine_cleanup [OF p st(1) wf]], assumption, rule fine_sq [OF fine_mkdir_new [OF st(2)]],
        rule fine_bnd [OF fine_now], rule fine_bnd [OF make after])
qed

subsection \<open>The lock\<close>

lemma fine_with_lock:
  fixes w :: "'e world"
  assumes "fine True A (body :: ('e, 'a) io) J" "stable (d @ [n]) A" "\<not> is_root_part n"
    and "quiet True w" "A (w_fs w)" "is_dir_at (w_fs w) d" "\<not> is_dir_at (w_fs w) (d @ [n])" "d @ [n] \<notin> fst ` set (w_held w)"
  shows "\<exists>x w'. with_lock (d @ [n]) body w = (Inr x, w') \<and> J x (w_fs w')"
proof -
  let ?p = "d @ [n]" and ?I = "\<lambda>f. A f \<and> is_dir_at f d \<and> \<not> is_dir_at f (d @ [n])"
  have parent: "path_parent ?p = d" using assms(3) by (simp add: path_parent_def)
  have mk: "fine True ?I (mkdir_p d :: ('e, unit) io) (\<lambda>_. ?I)" by (rule fine_mkdir_p) simp
  have opened: "fine True ?I (open_write ?p :: ('e, unit) io) (\<lambda>_. A)"
    unfolding open_write_def sys_def
    by (rule fine_sys_torn) (use assms(2) in \<open>auto simp: stable_def exists_at_iff\<close>)
  have "quiet True w \<and> ?I (w_fs w)" using assms(4-7) by simp
  from mk [unfolded fine_def, rule_format, OF this]
  obtain w1 where w1: "mkdir_p d w = (Inr (), w1)" "quiet True w1" "?I (w_fs w1)" by auto
  have "quiet True w1 \<and> ?I (w_fs w1)" using w1(2,3) by simp
  from opened [unfolded fine_def, rule_format, OF this]
  obtain w2 where w2: "open_write ?p w1 = (Inr (), w2)" "quiet True w2" "A (w_fs w2)" by auto
  have "w_held w2 = w_held w"
    using unlocked_mkdir_p [of d] same_create(2) [OF lock_part, of ?p] w1(1) w2(1) unfolding same_def by (metis prod.inject snd_conv)
  with assms(8) have free: "?p \<notin> fst ` set (w_held w2)" by simp
  let ?w3 = "(tick w2)\<lparr>w_held := (?p, w_pid w2) # w_held w2\<rparr>"
  have "w_fault w2 (w_tick w2) = NoFault" using w2(2) by (simp add: quiet_def calm_def)
  then have lock: "flock_ex ?p w2 = (Inr (), ?w3)"
    using free by (simp add: flock_ex_def sys_def sys_torn_def try_lock_def tick_def)
  have "quiet True ?w3 \<and> A (w_fs ?w3)"
    using w2(2,3) by (simp add: quiet_def calm_def tick_def)
  from assms(1) [unfolded fine_def, rule_format, OF this]
  obtain x w4 where w4: "body ?w3 = (Inr x, w4)" "quiet True w4" "J x (w_fs w4)" by blast
  have f: "w_fault w4 (w_tick w4) = NoFault" using w4(2) by (simp add: quiet_def calm_def)
  show ?thesis
    unfolding with_lock_def parent
    using w1(1) w2(1) lock w4(1,3) f
    by (simp add: sq_def bnd_def finally_do_def except_def flock_un_def close_lock_def sys_def sys_torn_def tick_def)
qed

text \<open>
  C2. When nothing fails a run succeeds. The lock is free, the work directory exists without
  the new generation, every destination is a local directory that holds only generations,
  all of them older, the paths lie apart, and mariabackup does its work: the whole \<open>run\<close>
  ends with exit code 0, every destination holds the same whole generation with the manifest
  of its id, the purges included, and the work copy is gone.
\<close>

theorem run_succeeds:
  fixes w :: "'e world"
  assumes "run_ready exec config now backup_id" "quiet True w"
    and "is_dir_at (w_fs w) (b_work_dir (c_backup config))" "\<not> exists_at (w_fs w) (b_work_dir (c_backup config) @ [backup_id])"
    and "ready config backup_id (w_fs w)"
    and "lk_file (c_lock config) = lock_dir @ [lock_name]" "\<not> is_root_part lock_name" "is_dir_at (w_fs w) lock_dir"
    and "\<not> is_dir_at (w_fs w) (lock_dir @ [lock_name])" "lock_dir @ [lock_name] \<notin> fst ` set (w_held w)"
    and "apart (lock_dir @ [lock_name]) (b_work_dir (c_backup config))"
    and "\<forall>dc \<in> set (c_destinations config). apart (lock_dir @ [lock_name]) (dest_path config dc)"
  shows "\<exists>w' es. run_pipeline exec hostname config (Some now) w = (Inr (good_summary config backup_id), w') \<and>
    manifest_of backup_id es \<and> \<not> exists_at (w_fs w') (b_work_dir (c_backup config) @ [backup_id]) \<and>
    (\<forall>dc \<in> set (c_destinations config). local_holds (configured config dc) (w_fs w') backup_id = Some (stored_tree (FDir es)))"
proof -
  let ?work = "b_work_dir (c_backup config)" and ?lock = "lock_dir @ [lock_name]"
  let ?A = "\<lambda>f. is_dir_at f ?work \<and> \<not> exists_at f (?work @ [backup_id]) \<and> ready config backup_id f"
  have "apart ?lock (?work @ [backup_id])" using apart_below [OF assms(11), of "[]" "[backup_id]"] by simp
  then have st: "stable ?lock ?A"
    unfolding exists_at_def using assms(11,12)
    by (intro stable_conj stable_is_dir stable_ready stable_lookup [where P = "\<lambda>t. \<not> t \<noteq> None"]) (simp_all add: apart_def)
  obtain s w' where r: "with_lock ?lock (run_locked exec hostname config now) w = (Inr s, w')" "s = good_summary config backup_id"
    "\<not> exists_at (w_fs w') (?work @ [backup_id])" "\<exists>es. manifest_of backup_id es \<and> held (dests_of config) backup_id (stored_tree (FDir es)) (w_fs w')"
    using fine_with_lock [OF fine_run_locked [OF assms(1), of hostname] st assms(7,2) _ assms(8-10)] assms(3-5) by blast
  from r(1) have "run_pipeline exec hostname config (Some now) w = (Inr s, w')"
    by (simp add: run_pipeline_def the_time_def bnd_def ret_def assms(6))
  with r(2-4) show ?thesis by (auto simp: held_def)
qed

subsection \<open>A concrete run\<close>

text \<open>A host with an empty work directory, an empty destination and a directory for the lock.\<close>

definition whole_id :: string where
  "whole_id = ''full-20010101T000000Z''"

definition whole_world :: "unit world" where
  "whole_world = run_world\<lparr>w_fs := FDir [(''/'', FDir [(''w'', FDir []), (''b'', FDir []), (''run'', FDir [(''mbkeeper'', FDir [])])])]\<rparr>"

definition good_exec :: "unit exec" where
  "good_exec argv stdin timeout h = (case h of (e, fs, mt) \<Rightarrow>
     if length argv = 2 then (Finished 0 ''mariabackup 11.4'' [], e, fs, mt)
     else (Finished 0 [] ''completed OK!'', e, alter [''/'', ''w'', whole_id] (Some (FDir [(''ibdata'', FFile ''x'')])) fs, mt))"

lemma good_exec_works: "mariabackup_works good_exec run_config [''/'', ''w'', whole_id]"
proof -
  have "argv_error (backup_argv (c_backup run_config) (c_replication run_config) [''/'', ''w'', whole_id]) = None"
    "argv_error (prepare_argv (c_backup run_config) [''/'', ''w'', whole_id]) = None"
    "argv_error [b_mariabackup_path (c_backup run_config), PStr ''--version''] = None"
    "length (backup_argv (c_backup run_config) (c_replication run_config) [''/'', ''w'', whole_id]) \<noteq> 2"
    "length (prepare_argv (c_backup run_config) [''/'', ''w'', whole_id]) \<noteq> 2"
    by code_simp+
  moreover have "contains success_marker ''completed OK!''" by code_simp
  ultimately show ?thesis
    by (auto simp: mariabackup_works_def phase_works_def version_works_def good_exec_def meta_filename_def log_filename_def)
qed

lemma whole_lock: "lk_file (c_lock run_config) = [''/'', ''run'', ''mbkeeper''] @ [''mbkeeper.lock'']"
  by code_simp

lemma whole_id_generated: "generate_backup_id (b_name_prefix (c_backup run_config)) (utc sample_time) = Inr whole_id"
  using sample_ids(1) by (simp add: whole_id_def run_config_def sample_config_def sample_backup_def)

theorem run_succeeds_witness:
  "\<exists>w' es. run_pipeline good_exec ''h'' run_config (Some (utc sample_time)) whole_world = (Inr (good_summary run_config whole_id), w') \<and>
     manifest_of whole_id es \<and> \<not> exists_at (w_fs w') [''/'', ''w'', whole_id] \<and>
     local_holds (configured run_config run_destination) (w_fs w') whole_id = Some (stored_tree (FDir es))"
proof -
  have work: "b_work_dir (c_backup run_config) = [''/'', ''w'']"
    by (simp add: run_config_def sample_config_def sample_backup_def)
  have layout: "local_layout run_config [''/'', ''w'']"
    by (simp add: local_layout_def run_destination_sel apart_def) (simp add: run_config_def sample_config_def default_hooks_def)
  have s: "local_storable whole_id"
    by (simp add: local_storable_def valid_id_def plain_def ends_with_iff partial_suffix_def whole_id_def)
  have "purgeable run_config (utc sample_time)"
    by (simp add: purgeable_def aware_def utc_def run_config_def sample_config_def default_retention_def)
  then have ready: "run_ready good_exec run_config (utc sample_time) whole_id"
    using whole_id_generated s layout good_exec_works
    by (simp add: run_ready_def work) (simp add: run_config_def sample_config_def default_replication_def default_hooks_def)
  have "in_range 0" "in_range sample_time" by code_simp+
  then have w: "quiet True whole_world"
    by (simp add: quiet_def calm_def whole_world_def run_world_def sample_world_def)
  have none: "\<not> exists_at (w_fs whole_world) [''/'', ''b'', n]" for n
    by (simp add: whole_world_def exists_at_def)
  then have "local_holds (configured run_config run_destination) (w_fs whole_world) j = None" for j
    by (auto simp: local_holds_def run_destination_sel exists_at_def)
  with none have d: "Run_Succeeds.ready run_config whole_id (w_fs whole_world)"
    by (simp add: ready_def run_destination_sel tidy_def) (simp add: whole_world_def is_dir_at_def)
  have fs: "is_dir_at (w_fs whole_world) (b_work_dir (c_backup run_config))" "\<not> exists_at (w_fs whole_world) (b_work_dir (c_backup run_config) @ [whole_id])"
    "is_dir_at (w_fs whole_world) [''/'', ''run'', ''mbkeeper'']" "\<not> is_dir_at (w_fs whole_world) ([''/'', ''run'', ''mbkeeper''] @ [''mbkeeper.lock''])"
    by (simp_all add: work whole_world_def is_dir_at_def exists_at_def)
  have free: "[''/'', ''run'', ''mbkeeper''] @ [''mbkeeper.lock''] \<notin> fst ` set (w_held whole_world)"
    by (simp add: whole_world_def run_world_def sample_world_def)
  have "\<not> is_root_part ''mbkeeper.lock''" by code_simp
  from run_succeeds [OF ready w fs(1,2) d whole_lock this fs(3,4) free, of "''h''"]
  show ?thesis by (simp add: work run_destination_sel apart_def)
qed

end
