(* ===== verification/Run_Hazard.thy ===== *)
theory Run_Hazard
  imports Run_Durable
begin

text \<open>
  What \<open>finished_backup_kept\<close> needs its hypothesis on the new id for: retention takes the
  order of ids for the order of time, and protects the generation of the run only while it
  is incomplete.
\<close>

text \<open>
  The name prefix was changed from \<open>full\<close> to \<open>daily\<close>: a destination that keeps one generation
  holds one with the old prefix, and the work directory a finished one with the new.
\<close>

definition renamed_config :: config where
  "renamed_config = run_config\<lparr>c_destinations := [run_destination\<lparr>d_keep := 1\<rparr>]\<rparr>"

definition renamed_world :: "unit world" where
  "renamed_world = run_world\<lparr>w_fs := FDir [(''/'', FDir [
     (''w'', FDir [(''daily-20250102T030405Z'', FDir sample_generation)]),
     (''b'', FDir [(''full-20240102T030405Z'', FDir sample_generation)])])]\<rparr>"

lemma newer_is_smaller: "''daily-20250102T030405Z'' < ''full-20240102T030405Z''"
  by code_simp


end
