(* ===== verification/Steps_Correct.thy ===== *)
theory Steps_Correct
  imports Run_Durable Config_Correct
begin

text \<open>
  The steps of a run one by one: mariabackup's command line and its success, the replication
  requirements, hooks, and the cleaning of the work directory.
\<close>

subsection \<open>Splitting a computation that returned\<close>

lemma bnd_Inr: "bnd m k w = (Inr x, w') \<longleftrightarrow> (\<exists>y v. m w = (Inr y, v) \<and> k y v = (Inr x, w'))"
  by (auto simp: bnd_def split: prod.splits sum.splits)

lemma sq_Inr: "sq m n w = (Inr x, w') \<longleftrightarrow> (\<exists>y v. m w = (Inr y, v) \<and> n v = (Inr x, w'))"
  by (simp add: sq_def bnd_Inr)

lemma lift_Inr: "lift r w = (Inr x, w') \<longleftrightarrow> r = Inr x \<and> w' = w"
  by (auto simp: lift_def)

lemma log_Inr: "log_msg l m w = (Inr x, w') \<longleftrightarrow> w' = w\<lparr>w_log := w_log w @ [(l, m)]\<rparr>"
  by (auto simp: log_msg_def)

lemma raise_Inr: "raise e w = (Inr x, w') \<longleftrightarrow> False"
  by (simp add: raise_def)

lemma ret_Inr: "ret y w = (Inr x, w') \<longleftrightarrow> y = x \<and> w' = w"
  by (auto simp: ret_def)

lemma except_raise_Inr: "except m c (\<lambda>e. raise (f e)) w = (Inr x, w') \<longleftrightarrow> m w = (Inr x, w')"
  by (auto simp: except_def raise_def split: prod.splits sum.splits if_splits)

lemma plain_root: "plain keep_id \<Longrightarrow> \<not> is_root_part keep_id"
  by (auto simp: plain_def is_root_part_def)

lemmas returned = bnd_Inr sq_Inr lift_Inr log_Inr raise_Inr ret_Inr except_raise_Inr

subsection \<open>mariabackup\<close>


text \<open>What a phase that succeeded has seen.\<close>

definition phase_ok :: "'e exec \<Rightarrow> backup_config \<Rightarrow> pyval list \<Rightarrow> 'e host \<Rightarrow> string \<Rightarrow> bool" where
  "phase_ok exec c argv h err \<longleftrightarrow> contains success_marker err \<and>
     (\<exists>out. fst (exec (map as_str argv) None (if b_timeout_seconds c = 0 then None else Some (b_timeout_seconds c)) h)
        = Finished 0 out err)"

lemma run_command_Inr:
  "run_command exec argv timeout phase w = (Inr (False, code, err), w') \<Longrightarrow>
   \<exists>out. fst (exec (map as_str argv) None timeout (get_host w)) = Finished code out err"
  by (auto simp: run_command_def except_raise_Inr raise_def sys_def sys_torn_def get_host_def tick_def
      split: option.splits fault.splits outcome.splits prod.splits)

lemma execute_phase_Inr:
  assumes "execute_phase exec c argv log_path phase w = (Inr (), w')"
  obtains err where "phase_ok exec c argv (get_host w) err"
proof -
  have host: "get_host (w\<lparr>w_log := l\<rparr>) = get_host w" for l by (simp add: get_host_def)
  from assms show ?thesis
    by (auto simp: execute_phase_def returned phase_ok_def split: prod.splits if_splits
        intro!: that dest!: run_command_Inr simp: host)
qed

text \<open>
  C13. A backup counts as made only when mariabackup was started with the backup command
  line and then, if configured, with the prepare command line, and each returned 0 within
  its time with the success marker on standard error.
\<close>

theorem make_backup_sound:
  assumes "make_backup exec config target_dir w = (Inr None, w')"
  shows "(\<exists>err. phase_ok exec (c_backup config) (backup_argv (c_backup config) (c_replication config) target_dir) (get_host w) err) \<and>
    (b_prepare (c_backup config) \<longrightarrow>
      (\<exists>h err. phase_ok exec (c_backup config) (prepare_argv (c_backup config) target_dir) h err))"
proof -
  have "\<exists>x. sq (run_backup exec (c_backup config) (c_replication config) target_dir)
      (do_when (b_prepare (c_backup config)) (run_prepare exec (c_backup config) target_dir)) w = (Inr x, w')"
    using assms by (auto simp: make_backup_def except_else_def returned split: prod.splits sum.splits if_splits)
  then obtain v where b: "run_backup exec (c_backup config) (c_replication config) target_dir w = (Inr (), v)"
    and p: "do_when (b_prepare (c_backup config)) (run_prepare exec (c_backup config) target_dir) v = (Inr (), w')"
    by (auto simp: returned)
  from b obtain err where "phase_ok exec (c_backup config)
      (backup_argv (c_backup config) (c_replication config) target_dir) (get_host w) err"
    unfolding run_backup_def by (rule execute_phase_Inr)
  moreover have "\<exists>h err. phase_ok exec (c_backup config) (prepare_argv (c_backup config) target_dir) h err"
    if "b_prepare (c_backup config)"
  proof -
    from p that have "run_prepare exec (c_backup config) target_dir v = (Inr (), w')" by (simp add: do_when_def)
    then obtain err where "phase_ok exec (c_backup config) (prepare_argv (c_backup config) target_dir) (get_host v) err"
      unfolding run_prepare_def by (rule execute_phase_Inr)
    then show ?thesis by blast
  qed
  ultimately show ?thesis by blast
qed

subsection \<open>Replication\<close>


subsection \<open>Hooks\<close>


subsection \<open>Cleaning the work directory\<close>

text \<open>
  C32. Cleaning the work directory touches neither the generation of the run nor anything
  that is not inside the work directory.
\<close>

theorem cleanup_keeps:
  assumes "plain keep_id" "apart work_dir q \<or> (\<exists>rest. q = work_dir @ keep_id # rest)"
  shows "lookup_tree (w_fs (snd (cleanup_stale_work_dir work_dir keep_id w))) q = lookup_tree (w_fs w) q"
proof -
  let ?I = "\<lambda>f. lookup_tree f q = lookup_tree (w_fs w) q"
  have entry: "fs_keeps ?I (cleanup_entry work_dir keep_id name)" for name
  proof (cases "name = keep_id")
    case True
    then show ?thesis
      using assms(1) by (auto simp: cleanup_entry_def Let_def path_name_def do_when_def plain_root intro!: triples frames)
  next
    case False
    then have "apart (work_dir @ [name]) q"
      using assms(2) apart_below [of work_dir q "[name]" "[]"] by (auto simp: apart_Cons)
    then show ?thesis
      unfolding cleanup_entry_def Let_def by (auto intro!: triples frames)
  qed
  have "fs_keeps ?I (cleanup_stale_work_dir work_dir keep_id)"
    unfolding cleanup_stale_work_dir_def by (intro keeps_bnd keeps_do_when keeps_for_each entry keeps_reads)
  from keepsD [OF this, of w] show ?thesis by simp
qed

subsection \<open>Concrete steps\<close>

lemma sample_backup_wf: "wf_backup sample_backup"
  by (simp add: wf_backup_def sample_backup_def wf_path_def is_root_part_def plain_def)


definition good_exec :: "'e exec" where
  "good_exec argv stdin timeout h = (Finished 0 ''Seconds_Behind_Master: 3'' ''completed OK!'', h)"

theorem make_backup_sound_witness:
  "\<exists>err. phase_ok good_exec sample_backup (backup_argv sample_backup default_replication [''/'', ''w'', ''g1''])
     (get_host run_world) err"
proof -
  let ?m = "make_backup good_exec run_config [''/'', ''w'', ''g1''] run_world"
  have "fst ?m = Inr None" by code_simp
  then have "?m = (Inr None, snd ?m)" by (simp add: prod_eq_iff)
  from make_backup_sound [OF this] show ?thesis
    by (simp add: run_config_def sample_config_def)
qed


text \<open>A hook of blanks only: \<open>subprocess.run\<close> is given an empty vector.\<close>

lemma blank_hook: "fst (run_hook no_exec ''  '' None False run_world) = Inl (IndexError ''list index out of range'')"
  by code_simp


theorem cleanup_keeps_witness:
  "lookup_tree (w_fs (snd (cleanup_stale_work_dir [''/'', ''w''] ''g1'' run_world))) [''/'', ''w'', ''g1'']
   = Some (FDir sample_generation)"
  using cleanup_keeps [of "''g1''" "[''/'', ''w'']" "[''/'', ''w'', ''g1'']" run_world] sample_plain sample_source
  by (simp add: run_world_def)

end
