(* ===== verification/Ssh_Correct.thy ===== *)
theory Ssh_Correct
  imports Steps_Correct
begin

text \<open>
  The ssh destination: what its list script prints is read back exactly, a transfer is tried a
  bounded number of times, and the final name is created remotely only after the whole
  transfer.
\<close>

subsection \<open>The list script\<close>

text \<open>
  The shell script of \<open>_LIST_SCRIPT_TEMPLATE\<close> on a remote directory: its subdirectories,
  each with its name, whether it holds a \<open>meta.json\<close>, and its modification time. The pattern
  \<open>*/\<close> skips names with a leading dot; the test for the manifest comes before the one for
  the suffix.
\<close>

definition script_lines :: "string \<times> bool \<times> nat \<Rightarrow> string list" where
  "script_lines entry = (case entry of (name, has_meta, mtime) \<Rightarrow>
     if starts_with ''.'' name then []
     else if has_meta then [''COMPLETE '' @ name @ '' '' @ str_nat mtime]
     else if ends_with partial_suffix name
       then [''PARTIAL '' @ drop_end (length partial_suffix) name @ '' '' @ str_nat mtime]
     else [])"

definition script_output :: "(string \<times> bool \<times> nat) list \<Rightarrow> string" where
  "script_output entries = concat (map (\<lambda>l. l @ [CHR 0x0A]) (concat (map script_lines entries)))"

text \<open>Names the line format can carry, times a \<open>datetime\<close> can hold.\<close>

definition line_safe :: "string \<Rightarrow> bool" where
  "line_safe s \<longleftrightarrow> (\<forall>c \<in> set s. c \<noteq> CHR '' '' \<and> \<not> is_linebreak c)"

definition time_of :: "nat \<Rightarrow> int" where
  "time_of t = (epoch_days * 86400 + int t) * us_per_sec"

definition script_entry :: "string \<times> bool \<times> nat \<Rightarrow> stored_backup list" where
  "script_entry entry = (case entry of (name, has_meta, mtime) \<Rightarrow>
     if starts_with ''.'' name then []
     else if has_meta then [\<lparr>sb_id = name, sb_complete = True, sb_stored_at = utc (time_of mtime)\<rparr>]
     else if ends_with partial_suffix name
       then [\<lparr>sb_id = drop_end (length partial_suffix) name, sb_complete = False, sb_stored_at = utc (time_of mtime)\<rparr>]
     else [])"

lemma split_line:
  assumes "\<forall>c \<in> set l. \<not> is_linebreak c"
  shows "py_splitlines (l @ CHR 0x0A # rest) = l # py_splitlines rest"
proof -
  have nl: "is_linebreak (CHR 0x0A)" "code_pt (CHR 0x0A) = 10"
    by (simp_all add: is_linebreak_def code_pt_def)
  have "split_lines False cur (l @ CHR 0x0A # rest) = (rev cur @ l) # split_lines False [] rest" for cur
    using assms by (induction l arbitrary: cur) (simp_all add: nl)
  then show ?thesis by (simp add: py_splitlines_def)
qed

lemma split_output: "\<forall>l \<in> set ls. \<forall>c \<in> set l. \<not> is_linebreak c \<Longrightarrow>
   py_splitlines (concat (map (\<lambda>l. l @ [CHR 0x0A]) ls)) = ls"
proof (induction ls)
  case (Cons l ls)
  then show ?case using split_line [of l] by simp
qed (simp add: py_splitlines_def)

lemma digits_safe: "line_safe (str_nat n)"
  using str_nat_digits [of n]
  by (auto simp: line_safe_def is_ascii_digit_def is_linebreak_def code_pt_def)

lemma line_safe_app [simp]: "line_safe (a @ b) \<longleftrightarrow> line_safe a \<and> line_safe b"
  by (auto simp: line_safe_def)

lemma line_safe_drop_end: "line_safe s \<Longrightarrow> line_safe (drop_end n s)"
  by (auto simp: line_safe_def drop_end_def dest: in_set_takeD)

lemma parse_script_line:
  assumes "line_safe status" "line_safe i" "in_range (time_of t)"
  shows "parse_list_line (status @ '' '' @ i @ '' '' @ str_nat t) =
    Inr [\<lparr>sb_id = i, sb_complete = (status = ''COMPLETE''), sb_stored_at = utc (time_of t)\<rparr>]"
proof -
  have n: "CHR '' '' \<notin> set s" if "line_safe s" for s using that by (auto simp: line_safe_def)
  have "py_split (CHR '' '') (status @ '' '' @ i @ '' '' @ str_nat t) = [status, i, str_nat t]"
    using n [OF assms(1)] n [OF assms(2)] n [OF digits_safe [of t]] by (simp add: py_split_append py_split_no_sep)
  with assms(3) show ?thesis
    by (simp add: parse_list_line_def fromtimestamp_def time_of_def Let_def)
qed

lemma status_safe: "line_safe ''COMPLETE''" "line_safe ''PARTIAL''"
  by (simp_all add: line_safe_def is_linebreak_def code_pt_def)

definition unbroken :: "string \<Rightarrow> bool" where
  "unbroken s \<longleftrightarrow> (\<forall>c \<in> set s. \<not> is_linebreak c)"

lemma unbroken_simps [simp]: "unbroken []" "unbroken (c # s) \<longleftrightarrow> \<not> is_linebreak c \<and> unbroken s"
  "unbroken (s @ t) \<longleftrightarrow> unbroken s \<and> unbroken t"
  by (auto simp: unbroken_def)

lemma line_safe_unbroken: "line_safe s \<Longrightarrow> unbroken s"
  by (simp add: line_safe_def unbroken_def)

lemma script_lines_unbroken:
  assumes "line_safe n" "l \<in> set (script_lines (n, m, t))"
  shows "unbroken l"
proof -
  have "unbroken n" "unbroken (drop_end k n)" "unbroken (str_nat t)" for k
    using assms(1) line_safe_unbroken line_safe_drop_end digits_safe by blast+
  with assms(2) show ?thesis
    by (auto simp: script_lines_def is_linebreak_def code_pt_def split: if_splits)
qed

lemma parse_script_lines:
  assumes "\<forall>(n, m, t) \<in> set entries. line_safe n \<and> in_range (time_of t)"
  shows "parse_list_lines (concat (map script_lines entries)) = Inr (concat (map script_entry entries))"
  using assms
proof (induction entries)
  case (Cons e es)
  obtain n m t where e: "e = (n, m, t)" by (cases e) auto
  have s: "line_safe n" "in_range (time_of t)" using Cons.prems e by auto
  have c: "parse_list_line (''COMPLETE '' @ n @ '' '' @ str_nat t) =
      Inr [\<lparr>sb_id = n, sb_complete = True, sb_stored_at = utc (time_of t)\<rparr>]"
    using parse_script_line [OF status_safe(1) s] by simp
  have p: "parse_list_line (''PARTIAL '' @ drop_end k n @ '' '' @ str_nat t) =
      Inr [\<lparr>sb_id = drop_end k n, sb_complete = False, sb_stored_at = utc (time_of t)\<rparr>]" for k
    using parse_script_line [OF status_safe(2) line_safe_drop_end [OF s(1)] s(2)] by simp
  from Cons show ?case
    by (auto simp: e script_lines_def script_entry_def c [simplified] p [simplified])
qed simp



subsection \<open>Commands recorded\<close>

text \<open>
  Any behaviour of the outside that depends on the commands so far, with the commands
  recorded: \<open>reply\<close> gives the outcome of a command after a history.
\<close>

type_synonym history = "string list list"

definition traced :: "(history \<Rightarrow> string list \<Rightarrow> outcome) \<Rightarrow> history exec" where
  "traced reply argv stdin timeout h = (reply (fst h) argv, (fst h @ [argv], snd h))"

definition succeeds :: "(history \<Rightarrow> string list \<Rightarrow> outcome) \<Rightarrow> history \<Rightarrow> string list \<Rightarrow> bool" where
  "succeeds reply h a \<longleftrightarrow> (case reply h a of Finished code _ _ \<Rightarrow> code = 0 | _ \<Rightarrow> False)"

abbreviation at_history :: "ftree \<Rightarrow> history \<Rightarrow> history world \<Rightarrow> bool" where
  "at_history fs h w \<equiv> w_fs w = fs \<and> w_ext w = h"

lemma traced_process:
  "triple (at_history fs h) (run_process (traced reply) argv None timeout)
     (\<lambda>proc w. at_history fs (h @ [map as_str argv]) w \<and> (returncode proc = 0 \<longrightarrow> succeeds reply h (map as_str argv)))
     (\<lambda>_ w. at_history fs h w \<or> at_history fs (h @ [map as_str argv]) w)"
proof (cases "argv_error argv")
  case None
  have t: "snd (traced reply a None timeout (get_host w)) = (w_ext w @ [a], snd (get_host w))"
    "fst (traced reply a None timeout (get_host w)) = reply (w_ext w) a" for a w
    by (simp_all add: traced_def)
  show ?thesis
    unfolding run_process_def None option.case sys_def split_beta t
    by (rule triple_sys_torn) (auto simp: tick_def succeeds_def get_host_def split: outcome.split)
qed (auto simp: run_process_def intro: triple_raise)

lemma ssh_process_traced:
  "triple (at_history fs h) (ssh_process (traced reply) d cmd)
     (\<lambda>proc w. at_history fs (h @ [map as_str (ssh_argv d @ [PStr (user_host d), PStr cmd])]) w \<and>
        (returncode proc = 0 \<longrightarrow> succeeds reply h (map as_str (ssh_argv d @ [PStr (user_host d), PStr cmd]))))
     (\<lambda>_ w. at_history fs h w \<or> at_history fs (h @ [map as_str (ssh_argv d @ [PStr (user_host d), PStr cmd])]) w)"
  unfolding ssh_process_def by (rule triple_except [OF traced_process]) (auto intro: triple_raise)

definition remote_command :: "ssh_destination \<Rightarrow> string \<Rightarrow> string list" where
  "remote_command d cmd = map as_str (ssh_argv d @ [PStr (user_host d), PStr cmd])"

lemma remote_run_traced:
  "triple (at_history fs h) (remote_run (traced reply) d cmd)
     (\<lambda>_ w. at_history fs (h @ [remote_command d cmd]) w \<and> succeeds reply h (remote_command d cmd))
     (\<lambda>_ w. at_history fs h w \<or> at_history fs (h @ [remote_command d cmd]) w)"
  unfolding remote_run_def remote_command_def
  by (rule triple_bnd [OF ssh_process_traced]) (auto intro!: triple_raise triple_ret)

lemma remote_file_exists_traced:
  "triple (at_history fs h) (remote_file_exists (traced reply) d p)
     (\<lambda>b w. at_history fs (h @ [remote_command d (''test -f '' @ dq p)]) w \<and>
        (b \<longrightarrow> succeeds reply h (remote_command d (''test -f '' @ dq p))))
     (\<lambda>_ w. at_history fs h w \<or> at_history fs (h @ [remote_command d (''test -f '' @ dq p)]) w)"
  unfolding remote_file_exists_def remote_command_def
  by (rule triple_bnd [OF ssh_process_traced]) (auto intro!: triple_ret)

subsection \<open>Retries\<close>

lemma triple_disj: "triple P m Q E \<Longrightarrow> triple P' m Q E \<Longrightarrow> triple (\<lambda>w. P w \<or> P' w) m Q E"
  by (auto simp: triple_def)

lemma attempts_traced:
  "triple (at_history fs h) (rsync_attempts (traced reply) d argv n e)
     (\<lambda>_ w. \<exists>k < n. at_history fs (h @ replicate (Suc k) (map as_str argv)) w \<and>
        succeeds reply (h @ replicate k (map as_str argv)) (map as_str argv))
     (\<lambda>_ w. \<exists>k \<le> n. at_history fs (h @ replicate k (map as_str argv)) w)"
proof (induction n arbitrary: h e)
  case 0
  show ?case by (auto intro: triple_raise)
next
  case (Suc n)
  let ?A = "map as_str argv"
  let ?Q = "\<lambda>_ w. \<exists>k < Suc n. at_history fs (h @ replicate (Suc k) ?A) w \<and> succeeds reply (h @ replicate k ?A) ?A"
  let ?E = "\<lambda>_ w. \<exists>k \<le> Suc n. at_history fs (h @ replicate k ?A) w"
  have attempt: "triple (at_history fs h) (rsync_attempt (traced reply) argv)
      (\<lambda>r w. case r of None \<Rightarrow> at_history fs (h @ [?A]) w \<and> succeeds reply h ?A
         | Some _ \<Rightarrow> at_history fs h w \<or> at_history fs (h @ [?A]) w)
      (\<lambda>_ w. at_history fs h w \<or> at_history fs (h @ [?A]) w)"
    unfolding rsync_attempt_def
    by (rule triple_except_else [OF traced_process]) (auto intro!: triple_ret)
  have stay: "triple (at_history fs h) (rsync_attempts (traced reply) d argv n e) ?Q ?E" for e
    by (rule triple_weaken [OF Suc.IH]) (auto intro: less_SucI le_SucI)
  have step: "triple (at_history fs (h @ [?A])) (rsync_attempts (traced reply) d argv n e) ?Q ?E" for e
  proof (rule triple_weaken [OF Suc.IH])
    fix w assume "\<exists>k<n. at_history fs ((h @ [?A]) @ replicate (Suc k) ?A) w \<and> succeeds reply ((h @ [?A]) @ replicate k ?A) ?A"
    then obtain k where "k < n" "at_history fs ((h @ [?A]) @ replicate (Suc k) ?A) w" "succeeds reply ((h @ [?A]) @ replicate k ?A) ?A"
      by blast
    then show "?Q () w" by (intro exI [of _ "Suc k"]) simp
  next
    fix w assume "\<exists>k\<le>n. at_history fs ((h @ [?A]) @ replicate k ?A) w"
    then obtain k where "k \<le> n" "at_history fs ((h @ [?A]) @ replicate k ?A) w" by blast
    then show "?E x w" for x :: exn by (intro exI [of _ "Suc k"]) simp
  qed simp
  show ?case
    unfolding rsync_attempts.simps
  proof (rule triple_bnd)
    show "triple (at_history fs h) (rsync_attempt (traced reply) argv)
      (\<lambda>r w. case r of None \<Rightarrow> at_history fs (h @ [?A]) w \<and> succeeds reply h ?A
         | Some _ \<Rightarrow> at_history fs h w \<or> at_history fs (h @ [?A]) w) ?E"
      by (rule triple_weaken [OF attempt]) (auto intro: exI [of _ 0] exI [of _ "Suc 0"])
    fix r
    show "triple (\<lambda>w. case r of None \<Rightarrow> at_history fs (h @ [?A]) w \<and> succeeds reply h ?A
         | Some _ \<Rightarrow> at_history fs h w \<or> at_history fs (h @ [?A]) w)
      (case r of None \<Rightarrow> ret () | Some msg \<Rightarrow> rsync_attempts (traced reply) d argv n msg) ?Q ?E"
    proof (cases r)
      case None
      then show ?thesis by (auto intro!: triple_ret exI [of _ 0])
    next
      case (Some msg)
      then show ?thesis using triple_disj [OF stay step] by simp
    qed
  qed
qed

text \<open>
  C29. A transfer is attempted at most \<open>retries + 1\<close> times, always with the same command, and
  is reported as done only when the last attempt was answered with 0.
\<close>

theorem run_with_retries_bound:
  assumes "0 \<le> sd_retries d" "run_with_retries (traced reply) d argv w = (r, w')"
  shows "\<exists>k. int k \<le> sd_retries d + 1 \<and> w_ext w' = w_ext w @ replicate k (map as_str argv) \<and>
    (r = Inr () \<longrightarrow> 0 < k \<and> succeeds reply (w_ext w @ replicate (k - 1) (map as_str argv)) (map as_str argv))"
proof -
  have "at_history (w_fs w) (w_ext w) w" by simp
  note * = tripleD [OF attempts_traced this assms(2) [unfolded run_with_retries_def]]
  show ?thesis
  proof (cases r)
    case (Inl e)
    with * obtain k where "k \<le> nat (sd_retries d + 1)" "w_ext w' = w_ext w @ replicate k (map as_str argv)" by auto
    with assms(1) Inl show ?thesis by (intro exI [of _ k]) simp
  next
    case (Inr u)
    with * obtain k where "k < nat (sd_retries d + 1)" "w_ext w' = w_ext w @ replicate (Suc k) (map as_str argv)"
      "succeeds reply (w_ext w @ replicate k (map as_str argv)) (map as_str argv)" by auto
    with assms(1) show ?thesis by (intro exI [of _ "Suc k"]) simp
  qed
qed

subsection \<open>Committing\<close>

definition sent :: "(history \<Rightarrow> string list \<Rightarrow> outcome) \<Rightarrow> history \<Rightarrow> string list \<Rightarrow> history \<Rightarrow> bool" where
  "sent reply h a cs \<longleftrightarrow> (\<exists>p q. cs = p @ a # q \<and> succeeds reply (h @ p) a)"

text \<open>Since the history \<open>h\<close> the command \<open>m\<close> has not been issued, and \<open>X\<close> holds of what has.\<close>

definition staged :: "ftree \<Rightarrow> history \<Rightarrow> string list \<Rightarrow> (history \<Rightarrow> bool) \<Rightarrow> history world \<Rightarrow> bool" where
  "staged fs h m X w \<longleftrightarrow> w_fs w = fs \<and> (\<exists>cs. w_ext w = h @ cs \<and> m \<notin> set cs \<and> X cs)"

definition grows_with :: "(history \<Rightarrow> bool) \<Rightarrow> bool" where
  "grows_with X \<longleftrightarrow> (\<forall>cs c. X cs \<longrightarrow> X (cs @ c))"

lemma grows_with_sent: "grows_with (sent reply h a)"
  unfolding grows_with_def sent_def by (metis append_Cons append_assoc)

lemma grows_with_conj: "grows_with X \<Longrightarrow> grows_with Y \<Longrightarrow> grows_with (\<lambda>cs. X cs \<and> Y cs)"
  by (simp add: grows_with_def)

lemma staged_lift:
  assumes "\<And>cs. m \<notin> set cs \<Longrightarrow> X cs \<Longrightarrow> triple (at_history fs (h @ cs)) c Q E"
  shows "triple (staged fs h m X) c Q E"
proof (rule triple_pre)
  fix w assume "staged fs h m X w"
  then obtain cs where cs: "m \<notin> set cs" "X cs" "at_history fs (h @ cs) w" by (auto simp: staged_def)
  show "triple ((=) w) c Q E"
    by (rule triple_weaken [OF assms [OF cs(1,2)]]) (use cs(3) in auto)
qed

lemma staged_remote:
  assumes "remote_command d cmd \<noteq> m" "grows_with X"
  shows "triple (staged fs h m X) (remote_run (traced reply) d cmd) (\<lambda>_. staged fs h m X) (\<lambda>_. staged fs h m X)"
proof (rule staged_lift, rule triple_weaken [OF remote_run_traced])
  fix cs and w :: "history world" assume cs: "m \<notin> set cs" "X cs"
  have new: "X (cs @ [a])" for a using assms(2) cs(2) by (simp add: grows_with_def)
  have old: "at_history fs (h @ cs) w \<Longrightarrow> staged fs h m X w" for w :: "history world"
    using cs by (auto simp: staged_def)
  have more: "at_history fs ((h @ cs) @ [remote_command d cmd]) w \<Longrightarrow> staged fs h m X w" for w :: "history world"
    using cs new assms(1) by (auto simp: staged_def intro!: exI [of _ "cs @ [remote_command d cmd]"])
  show "at_history fs ((h @ cs) @ [remote_command d cmd]) w \<and> succeeds reply (h @ cs) (remote_command d cmd) \<Longrightarrow> staged fs h m X w"
    using more by blast
  show "at_history fs (h @ cs) w \<or> at_history fs ((h @ cs) @ [remote_command d cmd]) w \<Longrightarrow> staged fs h m X w"
    using old more by blast
qed simp

lemma staged_retries:
  assumes "map as_str argv \<noteq> m" "grows_with X"
  shows "triple (staged fs h m X) (run_with_retries (traced reply) d argv)
    (\<lambda>_. staged fs h m (\<lambda>cs. X cs \<and> sent reply h (map as_str argv) cs)) (\<lambda>_. staged fs h m X)"
  unfolding run_with_retries_def
proof (rule staged_lift, rule triple_weaken [OF attempts_traced])
  let ?A = "map as_str argv"
  fix cs and w :: "history world" assume cs: "m \<notin> set cs" "X cs"
  have new: "X (cs @ replicate k ?A)" for k using assms(2) cs(2) by (simp add: grows_with_def)
  have fresh: "m \<notin> set (cs @ replicate k ?A)" for k using cs(1) assms(1) by auto
  show "staged fs h m (\<lambda>cs. X cs \<and> sent reply h ?A cs) w"
    if "\<exists>k<n. at_history fs ((h @ cs) @ replicate (Suc k) ?A) w \<and> succeeds reply ((h @ cs) @ replicate k ?A) ?A" for n
  proof -
    from that obtain k where k: "w_fs w = fs" "w_ext w = h @ cs @ replicate (Suc k) ?A"
      "succeeds reply (h @ cs @ replicate k ?A) ?A" by auto
    have "cs @ replicate (Suc k) ?A = (cs @ replicate k ?A) @ ?A # []"
      by (simp add: replicate_append_same)
    with k(3) have "sent reply h ?A (cs @ replicate (Suc k) ?A)" unfolding sent_def by (metis append_assoc)
    with k new [of "Suc k"] fresh [of "Suc k"] show ?thesis unfolding staged_def by blast
  qed
  show "staged fs h m X w" if "\<exists>k\<le>n. at_history fs ((h @ cs) @ replicate k ?A) w" for n
    using that new fresh unfolding staged_def by auto
qed simp

text \<open>The commands of one store.\<close>

definition commit_command :: "ssh_destination \<Rightarrow> string \<Rightarrow> string list" where
  "commit_command d i = remote_command d (''mv '' @ dq (sd_remote_path d @ ''/'' @ i @ partial_suffix) @ '' ''
     @ dq (sd_remote_path d @ ''/'' @ i))"

definition sent_argv :: "exn + pyval list \<Rightarrow> string list" where
  "sent_argv a = (case a of Inl _ \<Rightarrow> [] | Inr argv \<Rightarrow> map as_str argv)"

definition data_command :: "ssh_destination \<Rightarrow> path \<Rightarrow> string \<Rightarrow> string list" where
  "data_command d src i = sent_argv (build_rsync_argv (sd_rsync_path d) (ssh_argv d) src
     (user_host d @ '':'' @ sd_remote_path d @ ''/'' @ i @ partial_suffix) (sd_bwlimit_kbps d) [meta_filename])"

definition manifest_command :: "ssh_destination \<Rightarrow> path \<Rightarrow> string \<Rightarrow> string list" where
  "manifest_command d src i = sent_argv (build_rsync_file_argv (sd_rsync_path d) (ssh_argv d) (path_join src meta_filename)
     (user_host d @ '':'' @ sd_remote_path d @ ''/'' @ i @ partial_suffix @ ''/'' @ meta_filename))"

lemma ssh_second: "remote_command d cmd ! 1 = ''-i''"
  by (simp add: remote_command_def ssh_argv_def build_ssh_argv_def)

lemma remote_command_inj: "remote_command d a = remote_command d b \<longleftrightarrow> a = b"
  by (simp add: remote_command_def)

lemma rsync_second:
  "build_rsync_argv rp sa src dst bw ex = Inr argv \<Longrightarrow> map as_str argv \<noteq> remote_command d cmd"
  "build_rsync_file_argv rp sa src dst = Inr argv \<Longrightarrow> map as_str argv \<noteq> remote_command d cmd"
  by (drule arg_cong [of _ _ "\<lambda>x. x ! 1"] |
      auto simp: build_rsync_argv_def build_rsync_file_argv_def ssh_second remote_command_def ssh_argv_def build_ssh_argv_def
        split: sum.splits if_splits)+

lemma staged_test:
  "triple (staged fs h m X) (path_is_file p) (\<lambda>b w. staged fs h m X w \<and> b = is_file_at fs p) (\<lambda>_. staged fs h m X)"
  unfolding path_is_file_def read_sys_def sys_def
  by (rule triple_sys_torn) (auto simp: staged_def tick_def)

lemma staged_rsync:
  assumes "\<And>argv. a = Inr argv \<Longrightarrow> map as_str argv \<noteq> m" "grows_with X"
  shows "triple (staged fs h m X) (bnd (lift a) (run_with_retries (traced reply) d))
    (\<lambda>_. staged fs h m (\<lambda>cs. X cs \<and> sent reply h (sent_argv a) cs)) (\<lambda>_. staged fs h m X)"
proof (cases a)
  case (Inl e)
  then show ?thesis by (simp add: bnd_def lift_def triple_def)
next
  case (Inr argv)
  then show ?thesis using staged_retries [OF assms(1) [OF Inr] assms(2)] by (simp add: sent_argv_def)
qed

lemma ssh_store_traced:
  assumes "X = (\<lambda>cs. sent reply h (data_command d src i) cs \<and>
      (is_file_at fs (path_join src meta_filename) \<longrightarrow> sent reply h (manifest_command d src i) cs))"
    and "m = commit_command d i" "t = remote_command d (''test -f '' @ dq (sd_remote_path d @ ''/'' @ i @ ''/'' @ meta_filename))"
  shows "triple (at_history fs h) (ssh_store (traced reply) d src i)
    (\<lambda>_ w. \<exists>cs. w_ext w = h @ cs \<and> (cs = [t] \<and> succeeds reply h t \<or>
       (\<exists>cs'. cs = cs' @ [m] \<and> m \<notin> set cs' \<and> X cs' \<and> succeeds reply (h @ cs') m)))
    (\<lambda>_ w. \<exists>cs. w_ext w = h @ cs \<and> (m \<notin> set cs \<or> (\<exists>cs'. cs = cs' @ [m] \<and> m \<notin> set cs' \<and> X cs')))"
    (is "triple _ _ ?Q ?E")
proof -
  have tm: "t \<noteq> m" and km: "remote_command d (''mkdir -p '' @ q) \<noteq> m" for q
    by (simp_all add: assms(2,3) commit_command_def remote_command_inj)
  have up: "staged fs h m Y w \<Longrightarrow> ?E e w" for Y e w by (auto simp: staged_def)
  have gX: "grows_with X" "grows_with (\<lambda>_. True)"
    using grows_with_sent by (auto simp: assms(1) grows_with_def)
  have exists': "triple (at_history fs h) (remote_file_exists (traced reply) d (sd_remote_path d @ ''/'' @ i @ ''/'' @ meta_filename))
      (\<lambda>b w. staged fs h m (\<lambda>cs. b \<longrightarrow> cs = [t] \<and> succeeds reply h t) w) ?E"
    by (rule triple_weaken [OF remote_file_exists_traced]) (use tm in \<open>auto simp: staged_def assms(3)\<close>)
  have other: "build_rsync_argv rp sa s dst bw ex = Inr argv \<Longrightarrow> map as_str argv \<noteq> m"
    "build_rsync_file_argv rp sa s dst = Inr argv \<Longrightarrow> map as_str argv \<noteq> m" for rp sa s dst bw ex argv
    unfolding assms(2) commit_command_def by (erule rsync_second)+
  have gD: "grows_with (\<lambda>cs. True \<and> sent reply h (data_command d src i) cs)"
    using grows_with_sent by simp
  have mkdir: "triple (staged fs h m (\<lambda>_. True)) (remote_run (traced reply) d (''mkdir -p '' @ q)) (\<lambda>_. staged fs h m (\<lambda>_. True)) ?E" for q
    by (rule triple_weaken [OF staged_remote [OF km gX(2)]], assumption, assumption, erule up)
  have data: "triple (staged fs h m (\<lambda>_. True))
      (rsync_directory (traced reply) d src (sd_remote_path d @ ''/'' @ i @ partial_suffix) [meta_filename])
      (\<lambda>_. staged fs h m (\<lambda>cs. True \<and> sent reply h (data_command d src i) cs)) ?E"
    unfolding rsync_directory_def data_command_def append_assoc
    by (rule triple_weaken [OF staged_rsync [OF other(1) gX(2)]], assumption, assumption, assumption, erule up)
  have manifest: "triple (staged fs h m (\<lambda>cs. True \<and> sent reply h (data_command d src i) cs))
      (rsync_meta_file (traced reply) d (path_join src meta_filename) (sd_remote_path d @ ''/'' @ i @ partial_suffix @ ''/'' @ meta_filename))
      (\<lambda>_. staged fs h m (\<lambda>cs. (True \<and> sent reply h (data_command d src i) cs) \<and> sent reply h (manifest_command d src i) cs)) ?E"
    unfolding rsync_meta_file_def manifest_command_def append_assoc
    by (rule triple_weaken [OF staged_rsync [OF other(2) gD]], assumption, assumption, assumption, erule up)
  have meta: "triple (staged fs h m (\<lambda>cs. True \<and> sent reply h (data_command d src i) cs))
      (bnd (path_is_file (path_join src meta_filename)) (\<lambda>b. do_when b
        (rsync_meta_file (traced reply) d (path_join src meta_filename) (sd_remote_path d @ ''/'' @ i @ partial_suffix @ ''/'' @ meta_filename))))
      (\<lambda>_. staged fs h m X) ?E"
  proof (rule triple_bnd [OF triple_weaken [OF staged_test]], assumption, assumption, erule up)
    fix b
    show "triple (\<lambda>w. staged fs h m (\<lambda>cs. True \<and> sent reply h (data_command d src i) cs) w \<and> b = is_file_at fs (path_join src meta_filename))
      (do_when b (rsync_meta_file (traced reply) d (path_join src meta_filename) (sd_remote_path d @ ''/'' @ i @ partial_suffix @ ''/'' @ meta_filename)))
      (\<lambda>_. staged fs h m X) ?E"
    proof (rule triple_assume)
      assume b: "b = is_file_at fs (path_join src meta_filename)"
      show "triple (staged fs h m (\<lambda>cs. True \<and> sent reply h (data_command d src i) cs))
        (do_when b (rsync_meta_file (traced reply) d (path_join src meta_filename) (sd_remote_path d @ ''/'' @ i @ partial_suffix @ ''/'' @ meta_filename)))
        (\<lambda>_. staged fs h m X) ?E"
      proof (cases b)
        case True
        with b have "X = (\<lambda>cs. (True \<and> sent reply h (data_command d src i) cs) \<and> sent reply h (manifest_command d src i) cs)"
          by (simp add: assms(1))
        with manifest True show ?thesis by (simp only: do_when_def if_True)
      next
        case False
        with b have "X = (\<lambda>cs. True \<and> sent reply h (data_command d src i) cs)" by (simp add: assms(1))
        with False show ?thesis by (simp only: do_when_def if_False) (rule triple_ret)
      qed
    qed
  qed
  have commit: "triple (staged fs h m X) (remote_run (traced reply) d (''mv '' @ dq (sd_remote_path d @ ''/'' @ i @ partial_suffix)
      @ '' '' @ dq (sd_remote_path d @ ''/'' @ i))) (\<lambda>_. ?Q ()) ?E"
  proof (rule staged_lift, rule triple_weaken [OF remote_run_traced])
    fix cs and w :: "history world" assume cs: "m \<notin> set cs" "X cs"
    show "?Q () w" if "at_history fs ((h @ cs) @ [remote_command d (''mv '' @ dq (sd_remote_path d @ ''/'' @ i @ partial_suffix)
      @ '' '' @ dq (sd_remote_path d @ ''/'' @ i))]) w \<and> succeeds reply (h @ cs) (remote_command d (''mv '' @ dq (sd_remote_path d @ ''/'' @ i @ partial_suffix)
      @ '' '' @ dq (sd_remote_path d @ ''/'' @ i)))"
      using that cs by (auto simp: assms(2) commit_command_def)
    show "?E e w" if "at_history fs (h @ cs) w \<or> at_history fs ((h @ cs) @ [remote_command d (''mv '' @ dq (sd_remote_path d @ ''/'' @ i @ partial_suffix)
      @ '' '' @ dq (sd_remote_path d @ ''/'' @ i))]) w" for e
      using that cs by (auto simp: assms(2) commit_command_def)
  qed simp
  show ?thesis
    unfolding ssh_store_def Let_def append_assoc
  proof (rule triple_bnd [OF exists'])
    fix b
    show "triple (staged fs h m (\<lambda>cs. b \<longrightarrow> cs = [t] \<and> succeeds reply h t))
      (if b then ret () else sq (remote_run (traced reply) d (''mkdir -p '' @ dq (sd_remote_path d)))
        (sq (rsync_directory (traced reply) d src (sd_remote_path d @ ''/'' @ i @ partial_suffix) [meta_filename])
        (sq (bnd (path_is_file (path_join src meta_filename)) (\<lambda>m. do_when m
          (rsync_meta_file (traced reply) d (path_join src meta_filename) (sd_remote_path d @ ''/'' @ i @ partial_suffix @ ''/'' @ meta_filename))))
        (sq (remote_run (traced reply) d (''mv '' @ dq (sd_remote_path d @ ''/'' @ i @ partial_suffix) @ '' '' @ dq (sd_remote_path d @ ''/'' @ i)))
          (ret ()))))) ?Q ?E"
    proof (cases b)
      case True
      then show ?thesis by (auto intro!: triple_ret simp: staged_def)
    next
      case False
      then have b: "b = False" by simp
      show ?thesis unfolding b if_False
        by (rule triple_weaken [where P' = "staged fs h m (\<lambda>_. True)"], rule triple_sq [OF mkdir],
            rule triple_sq [OF data], rule triple_sq [OF meta], rule triple_sq [OF commit], rule triple_ret, assumption,
            simp add: staged_def, assumption, assumption)
    qed
  qed
qed

text \<open>
  C16. Whatever the remote host answers and whatever fails, a store creates the final name
  (its \<open>mv\<close>) only as its last command, after a transfer of the data that was answered
  with 0 and, when the generation has a manifest, one of the manifest; and it returns
  normally only when that command was answered with 0, or when its first question found the
  generation complete.
\<close>

theorem ssh_store_commits_last:
  assumes "ssh_store (traced reply) d src i w = (r, w')"
  shows "\<exists>cs. w_ext w' = w_ext w @ cs \<and>
    (commit_command d i \<in> set cs \<longrightarrow> (\<exists>cs'. cs = cs' @ [commit_command d i] \<and> commit_command d i \<notin> set cs' \<and>
       sent reply (w_ext w) (data_command d src i) cs' \<and>
       (is_file_at (w_fs w) (path_join src meta_filename) \<longrightarrow> sent reply (w_ext w) (manifest_command d src i) cs'))) \<and>
    (r = Inr () \<longrightarrow> sent reply (w_ext w) (commit_command d i) cs \<or>
       (\<exists>q. cs = [remote_command d (''test -f '' @ dq q)] \<and> succeeds reply (w_ext w) (hd cs)))"
proof -
  have "at_history (w_fs w) (w_ext w) w" by simp
  note * = tripleD [OF ssh_store_traced [OF refl refl refl] this assms]
  have tm: "remote_command d (''test -f '' @ q) \<noteq> commit_command d i" for q
    by (simp add: commit_command_def remote_command_inj)
  show ?thesis
  proof (cases r)
    case (Inl e)
    with * show ?thesis by auto
  next
    case (Inr u)
    then have "r = Inr ()" by simp
    with * consider
      "w_ext w' = w_ext w @ [remote_command d (''test -f '' @ dq (sd_remote_path d @ ''/'' @ i @ ''/'' @ meta_filename))]"
        "succeeds reply (w_ext w) (remote_command d (''test -f '' @ dq (sd_remote_path d @ ''/'' @ i @ ''/'' @ meta_filename)))"
      | cs' where "w_ext w' = w_ext w @ cs' @ [commit_command d i]" "commit_command d i \<notin> set cs'"
        "sent reply (w_ext w) (data_command d src i) cs' \<and>
          (is_file_at (w_fs w) (path_join src meta_filename) \<longrightarrow> sent reply (w_ext w) (manifest_command d src i) cs')"
        "succeeds reply (w_ext w @ cs') (commit_command d i)" by blast
    then show ?thesis
    proof cases
      case 1
      let ?q = "sd_remote_path d @ ''/'' @ i @ ''/'' @ meta_filename"
      have "commit_command d i \<notin> set [remote_command d (''test -f '' @ dq ?q)]" using tm by (metis empty_iff empty_set set_ConsD)
      moreover have "succeeds reply (w_ext w) (hd [remote_command d (''test -f '' @ dq ?q)])" using 1(2) by (simp only: list.sel)
      ultimately show ?thesis using 1(1) by blast
    next
      case (2 cs')
      then have "sent reply (w_ext w) (commit_command d i) (cs' @ [commit_command d i])"
        unfolding sent_def by blast
      with 2 show ?thesis by (intro exI [of _ "cs' @ [commit_command d i]"]) auto
    qed
  qed
qed

subsection \<open>A concrete transfer\<close>

definition sample_ssh :: ssh_destination where
  "sample_ssh = \<lparr>sd_name = ''s'', sd_host = PStr ''h'', sd_port = PInt 22, sd_user = PStr ''u'', sd_remote_path = ''/r'',
     sd_ssh_key = PStr ''k'', sd_ssh_options = [], sd_bwlimit_kbps = PInt 0, sd_rsync_path = PStr ''rsync'',
     sd_retries = 2, sd_keep = 3\<rparr>"

definition ssh_world :: "history world" where
  "ssh_world = \<lparr>w_fs = sample_fs, w_mtime = (\<lambda>_. 0), w_tick = 0, w_fault = (\<lambda>_. NoFault), w_clock = (\<lambda>_. 0),
     w_log = [], w_out = [], w_err = [], w_pid = 1, w_held = [], w_ext = []\<rparr>"

text \<open>A remote host without the generation, where the third transfer succeeds.\<close>

definition sample_reply :: "history \<Rightarrow> string list \<Rightarrow> outcome" where
  "sample_reply h a =
     (if starts_with ''test'' (last a) then Finished 1 [] []
      else if hd a = ''rsync'' \<and> length h < 4 then Finished 12 [] ''broken pipe''
      else Finished 0 [] [])"

theorem run_with_retries_bound_witness:
  "\<exists>k. int k \<le> 3 \<and> 0 < k \<and>
     w_ext (snd (run_with_retries (traced sample_reply) sample_ssh [PStr ''rsync'', PStr ''x''] (ssh_world\<lparr>w_ext := [[], []]\<rparr>)))
     = [[], []] @ replicate k [''rsync'', ''x'']"
proof -
  let ?m = "run_with_retries (traced sample_reply) sample_ssh [PStr ''rsync'', PStr ''x''] (ssh_world\<lparr>w_ext := [[], []]\<rparr>)"
  have r: "fst ?m = Inr ()" by code_simp
  have "0 \<le> sd_retries sample_ssh" by (simp add: sample_ssh_def)
  moreover have "?m = (Inr (), snd ?m)" using r by (simp add: prod_eq_iff)
  ultimately obtain k where "int k \<le> sd_retries sample_ssh + 1"
    "w_ext (snd ?m) = w_ext (ssh_world\<lparr>w_ext := [[], []]\<rparr>) @ replicate k (map as_str [PStr ''rsync'', PStr ''x''])" "0 < k"
    using run_with_retries_bound by blast
  then show ?thesis by (intro exI [of _ k]) (simp add: sample_ssh_def)
qed

theorem ssh_store_commits_last_witness:
  "\<exists>cs. w_ext (snd (ssh_store (traced sample_reply) sample_ssh [''/'', ''w'', ''g1''] ''g1'' ssh_world)) = cs \<and>
     sent sample_reply [] (data_command sample_ssh [''/'', ''w'', ''g1''] ''g1'') cs"
proof -
  let ?m = "ssh_store (traced sample_reply) sample_ssh [''/'', ''w'', ''g1''] ''g1'' ssh_world"
  have r: "fst ?m = Inr ()" by code_simp
  have w: "w_ext ssh_world = []" by (simp add: ssh_world_def)
  have f: "\<not> succeeds sample_reply [] (remote_command sample_ssh (''test -f '' @ q))" for q
    by (simp add: succeeds_def sample_reply_def remote_command_def starts_with_def)
  from ssh_store_commits_last [OF prod.collapse [symmetric], of sample_reply sample_ssh "[''/'', ''w'', ''g1'']" "''g1''" ssh_world]
  obtain cs where cs: "w_ext (snd ?m) = cs"
    "commit_command sample_ssh ''g1'' \<in> set cs \<longrightarrow> (\<exists>cs'. cs = cs' @ [commit_command sample_ssh ''g1''] \<and>
       sent sample_reply [] (data_command sample_ssh [''/'', ''w'', ''g1''] ''g1'') cs')"
    "sent sample_reply [] (commit_command sample_ssh ''g1'') cs \<or>
       (\<exists>q. cs = [remote_command sample_ssh (''test -f '' @ dq q)] \<and> succeeds sample_reply [] (hd cs))"
    unfolding w r append_Nil by blast
  from cs(3) f have "sent sample_reply [] (commit_command sample_ssh ''g1'') cs" by (metis list.sel(1))
  then have "commit_command sample_ssh ''g1'' \<in> set cs" by (auto simp: sent_def)
  with cs(2) obtain cs' where "cs = cs' @ [commit_command sample_ssh ''g1'']"
    "sent sample_reply [] (data_command sample_ssh [''/'', ''w'', ''g1''] ''g1'') cs'" by blast
  then have "sent sample_reply [] (data_command sample_ssh [''/'', ''w'', ''g1''] ''g1'') cs"
    using grows_with_sent unfolding grows_with_def by blast
  with cs(1) show ?thesis by blast
qed

end
