(* ===== verification/Cli_Correct.thy ===== *)
theory Cli_Correct
  imports Cli Run_Correct
begin

text \<open>
  The entry point: which exit codes a command can end with, which exceptions can leave it
  as a raw traceback, and what a bad configuration does.
\<close>

subsection \<open>Exit codes of the commands\<close>

definition reported_codes :: "int set" where
  "reported_codes = {0, 1, 3, 4, 5, 6, 7, 8, 9}"

lemma reported: "c \<noteq> USAGE_ERROR \<Longrightarrow> exit_int c \<in> reported_codes"
  by (cases c) (simp_all add: reported_codes_def)

lemma exn_code_reported: "exit_int (exn_exit_code e) \<in> reported_codes"
  by (rule reported) (cases e; simp add: exn_exit_code_def)

lemma run_yields: "yields (run_pipeline exec hostname config now) (\<lambda>s. rn_exit_code s \<noteq> USAGE_ERROR)"
proof (rule tripleI)
  fix w :: "'a world"
  show "case run_pipeline exec hostname config now w of (Inl e, w') \<Rightarrow> True
     | (Inr s, w') \<Rightarrow> rn_exit_code s \<noteq> USAGE_ERROR"
    using run_summary_fits [of exec hostname config now]
    by (auto simp: triple_def summary_fits_def split: prod.splits sum.splits exit_code.splits)
qed

lemma yields_with_lock: "yields body P \<Longrightarrow> yields (with_lock p body) P"
  unfolding with_lock_def
  by (intro yields_sq triple_finally [where Q = "\<lambda>x _. P x" and E = "\<lambda>_ _. True"])
     (simp_all add: triple_def split: prod.split sum.split)

lemma dispatch_yields: "yields (dispatch exec hostname config cmd) (\<lambda>n. n \<in> reported_codes)"
proof (cases cmd)
  case Run
  then show ?thesis
    by (auto simp: dispatch_def intro!: yields_then [OF run_yields] yields_ret reported)
next
  case (Purge names dry)
  have purge: "yields (purge_cmd exec config names dry now) (\<lambda>s. ps_exit_code s \<noteq> USAGE_ERROR)" for names now
    unfolding purge_cmd_def by (auto intro!: yields_bnd yields_with_lock yields_ret split: prod.split if_splits)
  show ?thesis
    unfolding Purge dispatch_def command.case
    by (rule yields_then [OF purge]) (auto intro!: yields_sq yields_ret reported)
next
  case (List f)
  then show ?thesis by (auto simp: dispatch_def cmd_list_def intro!: yields_bnd yields_ret reported split: if_splits)
next
  case Check
  then show ?thesis by (auto simp: dispatch_def intro!: yields_bnd yields_sq yields_ret reported split: if_splits)
qed

subsection \<open>The handlers\<close>

lemma guarded_value:
  "guarded m w = (case m w of
     (Inr n, v) \<Rightarrow> (Inr n, v)
   | (Inl e, v) \<Rightarrow> if e = Killed then (Inl Killed, v)
       else (Inr (exit_int (exn_exit_code e)),
         v\<lparr>w_log := w_log v @ [(''error'', (if is_keeper_error e then [] else ''unexpected error: '') @ exn_msg e)]\<rparr>))"
proof -
  have "\<not> is_keeper_error e \<Longrightarrow> exn_exit_code e = INTERNAL_ERROR" for e
    by (cases e) (simp_all add: is_keeper_error_def exn_exit_code_def)
  then show ?thesis
    by (auto simp: guarded_def except_def sq_def bnd_def log_msg_def ret_def split: prod.split sum.split)
qed

definition config_file :: "path option \<Rightarrow> path" where
  "config_file p = (case p of None \<Rightarrow> default_config_path | Some q \<Rightarrow> q)"

lemma main_unfold:
  "main exec hostname decode toml cmd p w =
     (case load_config decode toml (config_file p) w of
        (Inl e, v) \<Rightarrow> if is_keeper_error e
          then (Inr (exit_int (exn_exit_code e)), v\<lparr>w_err := w_err v @ [exn_msg e]\<rparr>) else (Inl e, v)
      | (Inr config, v) \<Rightarrow> (case setup_logging (c_logging config) v of
            (Inl e, u) \<Rightarrow> (Inl e, u)
          | (Inr _, u) \<Rightarrow> guarded (dispatch exec hostname config cmd) u))"
  by (auto simp: main_def config_file_def except_else_def sq_def bnd_def print_err_def ret_def is_keeper_error_def
      split: prod.split sum.split)

lemma keeps_host_read: "keeps (\<lambda>u. w_fs u = f \<and> w_ext u = x) (read_sys g)"
  by (auto simp: triple_def read_sys_def sys_def sys_torn_def tick_def split: fault.split sum.split)

text \<open>
  C14. \<open>main\<close> never ends with a traceback from a command: it returns one of the documented
  codes (never 2, which is the argument parser's), unless the process is killed, or an
  exception that is not a KeeperError comes from loading the configuration or from
  opening the log file, which happen outside the handlers.
\<close>

theorem main_exit_codes:
  assumes "main exec hostname decode toml cmd p w = (r, w')"
  shows "case r of
      Inr n \<Rightarrow> n \<in> {0, 1, 3, 4, 5, 6, 7, 8, 9}
    | Inl e \<Rightarrow> e = Killed \<or>
        (fst (load_config decode toml (config_file p) w) = Inl e \<and> \<not> is_keeper_error e) \<or>
        (\<exists>config v. load_config decode toml (config_file p) w = (Inr config, v) \<and>
           fst (setup_logging (c_logging config) v) = Inl e)"
proof -
  obtain l v where l: "load_config decode toml (config_file p) w = (l, v)" by fastforce
  show ?thesis
  proof (cases l)
    case (Inl e)
    with assms l exn_code_reported [of e] show ?thesis
      by (auto simp: main_unfold reported_codes_def split: if_splits)
  next
    case (Inr config)
    obtain s u where s: "setup_logging (c_logging config) v = (s, u)" by fastforce
    obtain d t where d: "dispatch exec hostname config cmd u = (d, t)" by fastforce
    have code: "n \<in> reported_codes" if "d = Inr n" for n
      using yieldsD [OF dispatch_yields d [unfolded that]] .
    show ?thesis
    proof (cases s)
      case Inl
      with assms l Inr s show ?thesis by (auto simp: main_unfold)
    next
      case s': (Inr x)
      with assms l Inr s have "guarded (dispatch exec hostname config cmd) u = (r, w')"
        by (simp add: main_unfold)
      then show ?thesis
        using code d exn_code_reported
        by (cases d) (auto simp: guarded_value reported_codes_def split: if_splits)
    qed
  qed
qed

text \<open>
  C30. Each kind of exception of a command has its exit code: 3 configuration, 4 lock, 5
  precondition, 6 backup, 7 destination, and 1 any other; the message is logged.
\<close>

theorem main_maps_exceptions:
  assumes "load_config decode toml (config_file p) w = (Inr config, v)"
    and "setup_logging (c_logging config) v = (Inr f, u)"
    and "dispatch exec hostname config cmd u = (Inl e, t)" "e \<noteq> Killed"
  shows "main exec hostname decode toml cmd p w =
    (Inr (case e of ConfigError _ \<Rightarrow> 3 | LockError _ \<Rightarrow> 4 | PreconditionError _ \<Rightarrow> 5 | BackupError _ \<Rightarrow> 6
            | DestinationError _ \<Rightarrow> 7 | _ \<Rightarrow> 1),
     t\<lparr>w_log := w_log t @ [(''error'', (if is_keeper_error e then [] else ''unexpected error: '') @ exn_msg e)]\<rparr>)"
  using assms by (cases e) (simp_all add: main_unfold guarded_value exn_exit_code_def is_keeper_error_def)

text \<open>
  A configuration that does not validate ends with 3 and all its problems on standard
  error; nothing on the file system changes and no program is started.
\<close>

theorem main_config_error:
  assumes "load_config decode toml (config_file p) w = (Inl (ConfigError msg), v)"
  shows "main exec hostname decode toml cmd p w = (Inr 3, v\<lparr>w_err := w_err v @ [msg]\<rparr>) \<and>
    w_fs v = w_fs w \<and> w_ext v = w_ext w"
proof -
  have "keeps (\<lambda>u. w_fs u = w_fs w \<and> w_ext u = w_ext w) (load_config decode toml (config_file p))"
    unfolding load_config_def path_is_file_def read_file_def
    by (auto intro!: keeps_bnd keeps_except keeps_lift keeps_raise keeps_host_read split: option.split sum.split)
  from keepsD [OF this, of w] assms show ?thesis
    by (simp add: main_unfold is_keeper_error_def exn_exit_code_def)
qed

subsection \<open>Concrete command lines\<close>

text \<open>A host with a configuration file; what it says is the argument \<open>raw\<close>.\<close>

definition etc_world :: "unit world" where
  "etc_world = run_world\<lparr>w_fs := FDir [(''/'', FDir [(''etc'', FDir [(''mbkeeper'', FDir [(''config.toml'', FFile ''t'')])]),
     (''a'', FDir [])])]\<rparr>"

lemma list_empty: "fst (main no_exec ''h'' Some (\<lambda>_. Inr sample_raw) (List None) None etc_world) = Inr 0"
  by code_simp

theorem main_exit_codes_witness: "(0 :: int) \<in> {0, 1, 3, 4, 5, 6, 7, 8, 9}"
  using main_exit_codes [OF prod.collapse [symmetric],
      where exec = no_exec and hostname = "''h''" and decode = Some and toml = "\<lambda>_. Inr sample_raw"
        and cmd = "List None" and p = None and w = etc_world]
  unfolding list_empty by simp

text \<open>With \<open>/run\<close> missing and mariabackup too, a held lock makes \<open>purge\<close> end with 4.\<close>

definition held_world :: "unit world" where
  "held_world = etc_world\<lparr>w_held := [(path_of default_lock_file, 2)]\<rparr>"

theorem main_maps_exceptions_witness:
  "fst (main no_exec ''h'' Some (\<lambda>_. Inr sample_raw) (Purge None False) None held_world) = Inr 4"
proof -
  let ?l = "load_config Some (\<lambda>_. Inr sample_raw) (config_file None) held_world"
  let ?s = "setup_logging (c_logging sample_config) (snd ?l)"
  let ?d = "dispatch no_exec ''h'' sample_config (Purge None False) (snd ?s)"
  have l: "?l = (Inr sample_config, snd ?l)"
  proof -
    have "fst ?l = Inr sample_config" by code_simp
    then show ?thesis by (simp add: prod_eq_iff)
  qed
  have s: "?s = (Inr \<lparr>rf_run_id = None\<rparr>, snd ?s)"
  proof -
    have "fst ?s = Inr \<lparr>rf_run_id = None\<rparr>" by code_simp
    then show ?thesis by (simp add: prod_eq_iff)
  qed
  have "(case fst ?d of Inl (LockError _) \<Rightarrow> True | _ \<Rightarrow> False)" by code_simp
  then obtain msg where "fst ?d = Inl (LockError msg)" by (auto split: sum.splits exn.splits)
  then have d: "?d = (Inl (LockError msg), snd ?d)" by (simp add: prod_eq_iff)
  show ?thesis
    using main_maps_exceptions [OF l s d] by simp
qed

theorem main_config_error_witness:
  "fst (main no_exec ''h'' Some (\<lambda>_. Inr []) Run None etc_world) = Inr 3"
proof -
  let ?l = "load_config Some (\<lambda>_. Inr []) (config_file None) etc_world"
  have "(case fst ?l of Inl (ConfigError _) \<Rightarrow> True | _ \<Rightarrow> False)" by code_simp
  then obtain msg where "fst ?l = Inl (ConfigError msg)" by (auto split: sum.splits exn.splits)
  then have "?l = (Inl (ConfigError msg), snd ?l)" by (simp add: prod_eq_iff)
  from main_config_error [OF this, where exec = no_exec and hostname = "''h''" and cmd = Run] show ?thesis by simp
qed

end
