(* ===== verification/Log_Lines.thy ===== *)
theory Log_Lines
  imports Logging_Setup Json_Read
begin

text \<open>
  A line of the JSON log is one JSON object on one line, and reading it gives the fields of
  the record back, whatever characters a message or a traceback has.
\<close>

lemma scan_unit_plain_char:
  "\<exists>x xs. json_plain_char c = x # xs \<and> x \<noteq> CHR 0x22 \<and> scan_unit x (xs @ r) = Some (code_pt c, r)"
proof (cases "0x7F \<le> code_pt c")
  case True
  then have "c \<noteq> CHR 0x22" "c \<noteq> CHR 0x5C" by (auto simp: code_pt_def)
  with True show ?thesis by (simp add: json_plain_char_def scan_unit_def)
next
  case False
  with scan_unit_json_char [of c r] show ?thesis by (simp add: json_plain_char_def)
qed

lemma scan_string_plain: "scan_string acc (concat (map json_plain_char s) @ CHR 0x22 # r) = Some (acc @ map code_pt s, r)"
proof (induction s arbitrary: acc)
  case (Cons c s)
  obtain x xs where x: "json_plain_char c = x # xs" "x \<noteq> CHR 0x22"
    "scan_unit x (xs @ concat (map json_plain_char s) @ CHR 0x22 # r) = Some (code_pt c, concat (map json_plain_char s) @ CHR 0x22 # r)"
    using scan_unit_plain_char by blast
  with Cons show ?case by simp
qed simp

lemma json_lex_plain:
  "json_lex (json_plain_str s @ r) = map_option (Cons (TValue (RStr (map code_pt s)))) (json_lex r)"
proof -
  have "join_surrogates (map code_pt s) = map code_pt s"
    by (intro join_surrogates_id) (auto intro: less_trans [OF code_pt_less])
  then show ?thesis
    using scan_string_plain [of "[]" s r]
    by (simp add: json_plain_str_def json_lex.simps(2) json_space_def json_punct_def code_pt_def)
qed

definition field_value :: "string option \<Rightarrow> jval" where
  "field_value v = (case v of None \<Rightarrow> JNull | Some s \<Rightarrow> JStr s)"

lemma lexes_plain_entry: "lexes (json_plain_entry (k, v)) (TValue (RStr (map code_pt k)) # TColon # tokens_of (field_value v))"
  using json_lex_spaces [of "'' ''"]
  by (cases v) (simp_all add: lexes_def json_plain_entry_def field_value_def json_lex_plain json_lex_word [simplified]
      option.map_comp comp_def append_fun json_space_def code_pt_def)

lemma lexes_record:
  "lexes (json_record time level run_id message exc_info)
     (tokens_of (JObj (map (\<lambda>(k, v). (k, field_value v)) (json_payload time level run_id message exc_info))))"
proof -
  let ?p = "json_payload time level run_id message exc_info"
  have "lexes (py_join '', '' (map json_plain_entry ?p))
      (with_commas (map (\<lambda>kv. TValue (RStr (map code_pt (fst kv))) # TColon # tokens_of (field_value (snd kv))) ?p))"
    using lexes_plain_entry by (intro lexes_join) (auto simp: json_space_def code_pt_def)
  from lexes_brackets(2) [OF this] show ?thesis
    by (simp add: json_record_def split_beta comp_def)
qed

lemma no_newline_char: "CHR 0x0A \<notin> set (json_plain_char c)"
proof -
  have "CHR 0x0A \<noteq> hex_digit d" if "d < 16" for d
  proof
    assume "CHR 0x0A = hex_digit d"
    with hex_val_digit [OF that] have "hex_val (CHR 0x0A) = Some d" by simp
    then show False by (simp add: hex_val_def code_pt_def)
  qed
  from this [of "code_pt c div 16"] this [of "code_pt c mod 16"] show ?thesis
    using code_pt_less [of c]
    by (auto simp: json_plain_char_def json_char_def Let_def code_pt_def less_mult_imp_div_less)
qed

lemma no_newline_str: "CHR 0x0A \<notin> set (json_plain_str s)"
  using no_newline_char by (auto simp: json_plain_str_def)

lemma set_py_join: "set (py_join sep xs) \<subseteq> set sep \<union> (\<Union>x \<in> set xs. set x)"
  by (induction sep xs rule: py_join.induct) auto

lemma no_newline_record: "CHR 0x0A \<notin> set (json_record time level run_id message exc_info)"
proof -
  have "CHR 0x0A \<notin> set (json_plain_entry kv)" for kv
    using no_newline_str by (auto simp: json_plain_entry_def split: option.split)
  then show ?thesis
    using set_py_join [of "'', ''"] by (fastforce simp: json_record_def)
qed

text \<open>
  C26. One JSON object per line: with the JSON format every line of the log is a single
  line, and \<open>json.loads\<close> reads it as the object of the record's fields, with the run id the
  filter holds, whatever the message or the traceback.
\<close>

theorem json_log_lines:
  assumes "l_format c = ''json''" "line \<in> set (written_lines c f stamps log)"
  shows "CHR 0x0A \<notin> set line \<and>
    (\<exists>time exc_info level message. (time, exc_info) \<in> set stamps \<and> (level, message) \<in> set (shown_records c log) \<and>
       json_loads line = Some (read_back (JObj (map (\<lambda>(k, v). (k, field_value v))
         (json_payload time level (rf_run_id f) message exc_info)))))"
proof -
  from assms obtain time exc_info run_id level message
    where z: "((time, exc_info), (run_id, level, message)) \<in> set (zip stamps (map (filter_record f) (shown_records c log)))"
      and l': "line = json_record time level run_id message exc_info"
    by (auto simp: written_lines_def format_record_def)
  from set_zip_leftD [OF z] set_zip_rightD [OF z] l'
  have l: "line = json_record time level (rf_run_id f) message exc_info"
    and m: "(time, exc_info) \<in> set stamps" "(level, message) \<in> set (shown_records c log)"
    by (auto simp: filter_record_def)
  have "distinct_keys (JObj (map (\<lambda>(k, v). (k, field_value v)) (json_payload time level (rf_run_id f) message exc_info)))"
    by (auto simp: json_payload_def field_value_def split: option.split)
  from loads_lexes [OF lexes_record this, of "[]"]
  have "json_loads line = Some (read_back (JObj (map (\<lambda>(k, v). (k, field_value v))
      (json_payload time level (rf_run_id f) message exc_info))))"
    by (simp add: l)
  with m no_newline_record l show ?thesis by blast
qed

theorem json_log_lines_witness:
  "CHR 0x0A \<notin> set (json_record ''t'' ''info'' None ''a'' None) \<and>
   json_loads (json_record ''t'' ''info'' None ''a'' None) \<noteq> None"
proof -
  let ?c = "\<lparr>l_level = ''info'', l_format = ''json'', l_file = PStr []\<rparr>"
  have "json_record ''t'' ''info'' None ''a'' None \<in> set (written_lines ?c \<lparr>rf_run_id = None\<rparr> [(''t'', None)] [(''info'', ''a'')])"
    by (simp add: written_lines_def shown_records_def filter_record_def format_record_def)
  from json_log_lines [OF _ this] show ?thesis by auto
qed

text \<open>The filter of a run has no run id: \<open>main\<close> drops the one \<open>setup_logging\<close> returns.\<close>

lemma setup_logging_no_run_id: "setup_logging c w = (Inr f, w') \<Longrightarrow> rf_run_id f = None"
  by (auto simp: setup_logging_def Let_def bnd_def ret_def raise_def split: if_splits prod.splits sum.splits)

end
