(* ===== verification/Cli_Args.thy ===== *)
theory Cli_Args
  imports Cli
begin

text \<open>
  \<open>build_parser\<close> of \<open>cli.py\<close>: the options it declares, as data, and what \<open>parse_args\<close> of
  Python's \<open>argparse\<close> (as of Python 3.11) makes of an argument vector with them: options and
  their unambiguous prefixes, values in the next argument, after \<open>=\<close> or glued to a short
  option, \<open>--\<close>, and arguments that nothing takes. The help and usage texts are left out; an
  error is the reason that \<open>argparse\<close> prints.
\<close>

subsection \<open>The declarations\<close>

datatype arg_action = Show_Help | Show_Version | Store_Config | Append_Destination | Store_Dry_Run | Store_Destination

type_synonym arg_parser = "(string \<times> arg_action) list"

text \<open>An action with a value, or a flag (\<open>nargs=0\<close>).\<close>

fun takes_value :: "arg_action \<Rightarrow> bool" where
  "takes_value Show_Help = False"
| "takes_value Show_Version = False"
| "takes_value Store_Dry_Run = False"
| "takes_value _ = True"

text \<open>\<open>ArgumentParser\<close> declares the help option by itself.\<close>

definition new_parser :: arg_parser where
  "new_parser = [(''-h'', Show_Help), (''--help'', Show_Help)]"

definition add_config_arg :: "arg_parser \<Rightarrow> arg_parser" where
  "add_config_arg p = p @ [(''-c'', Store_Config), (''--config'', Store_Config)]"

definition top_parser :: arg_parser where
  "top_parser = new_parser @ [(''--version'', Show_Version)]"

definition sub_parsers :: "(string \<times> arg_parser) list" where
  "sub_parsers =
     [(''run'', add_config_arg new_parser),
      (''purge'', add_config_arg new_parser @ [(''--destination'', Append_Destination), (''--dry-run'', Store_Dry_Run)]),
      (''list'', add_config_arg new_parser @ [(''--destination'', Store_Destination)]),
      (''check'', add_config_arg new_parser)]"

subsection \<open>What an argument is\<close>

text \<open>
  An argument of its own, an option of the parser (with the text after \<open>=\<close>, or glued to a
  short option, as its explicit value and whether there was a \<open>=\<close>), an unknown option, or
  a prefix of several.
\<close>

datatype arg_kind =
    Plain_Arg
  | Option arg_action string "(bool \<times> string) option"
  | Unknown_Option
  | Ambiguous

definition dash :: char where "dash = CHR ''-''"

text \<open>\<open>s.partition('=')\<close>: \<open>None\<close> when there is no separator.\<close>

definition split_eq :: "string \<Rightarrow> string \<times> string option" where
  "split_eq s = (takeWhile (\<lambda>c. c \<noteq> CHR ''='') s,
     (case dropWhile (\<lambda>c. c \<noteq> CHR ''='') s of [] \<Rightarrow> None | _ # v \<Rightarrow> Some v))"

text \<open>The interpretations of an option string that is none of the parser's own.\<close>

definition option_tuples :: "arg_parser \<Rightarrow> string \<Rightarrow> arg_kind list" where
  "option_tuples p a =
     (if a ! 1 = dash
      then (let (name, v) = split_eq a
            in map (\<lambda>(s, act). Option act s (map_option (Pair True) v)) (filter (\<lambda>(s, _). starts_with name s) p))
      else concat (map (\<lambda>(s, act).
             if s = take 2 a then [Option act s (Some (False, drop 2 a))]
             else if starts_with a s then [Option act s None] else []) p))"

definition negative_number :: "string \<Rightarrow> bool" where
  "negative_number a =
     (let s = (if a \<noteq> [] \<and> last a = char_of (10 :: nat) then butlast a else a);
          digits = dropWhile is_ascii_digit (tl s)
      in s \<noteq> [] \<and> hd s = dash \<and>
         (tl s \<noteq> [] \<and> digits = [] \<or>
          digits \<noteq> [] \<and> hd digits = CHR ''.'' \<and> tl digits \<noteq> [] \<and> list_all is_ascii_digit (tl digits)))"

definition parse_optional :: "arg_parser \<Rightarrow> string \<Rightarrow> arg_kind" where
  "parse_optional p a =
     (if a = [] \<or> hd a \<noteq> dash then Plain_Arg
      else case map_of p a of Some act \<Rightarrow> Option act a None
      | None \<Rightarrow>
        if length a = 1 then Plain_Arg
        else case (case split_eq a of (s, Some v) \<Rightarrow> map_option (\<lambda>act. Option act s (Some (True, v))) (map_of p s)
                   | _ \<Rightarrow> None) of Some k \<Rightarrow> k
        | None \<Rightarrow>
          (case option_tuples p a of
             [k] \<Rightarrow> k
           | _ # _ # _ \<Rightarrow> Ambiguous
           | [] \<Rightarrow> if negative_number a \<or> CHR '' '' \<in> set a then Plain_Arg else Unknown_Option))"

text \<open>\<open>argparse\<close> looks at every argument before \<open>--\<close> first, and stops at an ambiguous one.\<close>

definition find_ambiguous :: "arg_parser \<Rightarrow> string list \<Rightarrow> string option" where
  "find_ambiguous p args = List.find (\<lambda>a. parse_optional p a = Ambiguous) (takeWhile (\<lambda>a. a \<noteq> ''--'') args)"

subsection \<open>Consuming an option\<close>

datatype usage_error =
    Ambiguous_Option string
  | Ignored_Explicit_Argument string
  | Expected_One_Argument string
  | Invalid_Command string
  | Missing_Command
  | Unrecognized_Arguments "string list"

text \<open>Why parsing ends the process: the help of a parser, the version, or an error.\<close>

datatype parser_exit = Help_Shown "string option" | Version_Shown | Usage_Failed usage_error

definition next_is_value :: "arg_parser \<Rightarrow> string list \<Rightarrow> bool" where
  "next_is_value p rest \<longleftrightarrow> (case rest of [] \<Rightarrow> False | a # _ \<Rightarrow> a \<noteq> ''--'' \<and> parse_optional p a = Plain_Arg)"

text \<open>
  \<open>consume_optional\<close>: the actions to take with their values (several for glued short flags),
  what is left over of the argument, and the arguments after it.
\<close>

function consume_optional ::
  "arg_parser \<Rightarrow> arg_action \<Rightarrow> string \<Rightarrow> (bool \<times> string) option \<Rightarrow> string list \<Rightarrow> (arg_action \<times> string) list
     \<Rightarrow> usage_error + (arg_action \<times> string) list \<times> string list \<times> string list" where
  "consume_optional p act s None rest acts =
     (if \<not> takes_value act then Inr (acts @ [(act, [])], [], rest)
      else if next_is_value p rest then Inr (acts @ [(act, hd rest)], [], tl rest)
      else Inl (Expected_One_Argument s))"
| "consume_optional p act s (Some (sep, v)) rest acts =
     (if takes_value act then Inr (acts @ [(act, v)], [], rest)
      else if v \<noteq> [] \<and> s ! 1 \<noteq> dash then
        (if sep \<or> hd v = dash then Inl (Ignored_Explicit_Argument v)
         else case map_of p [dash, hd v] of
             None \<Rightarrow> Inr (acts @ [(act, [])], [dash # v], rest)
           | Some act' \<Rightarrow> consume_optional p act' [dash, hd v]
               (case tl v of [] \<Rightarrow> None | c # u \<Rightarrow> if c = CHR ''='' then Some (True, u) else Some (False, c # u))
               rest (acts @ [(act, [])]))
      else Inl (Ignored_Explicit_Argument v))"
  by pat_completeness auto
termination
  by (relation "measure (\<lambda>(_, _, _, e, _, _). case e of None \<Rightarrow> 0 | Some (_, v) \<Rightarrow> Suc (length v))")
     (auto split: list.split simp: neq_Nil_conv)

lemma consume_shrinks: "consume_optional p act s v rest acts = Inr (acts', left, rest') \<Longrightarrow> length rest' \<le> length rest"
  by (induction p act s v rest acts rule: consume_optional.induct) (auto split: if_splits option.splits list.splits)

subsection \<open>The namespace\<close>

record namespace =
  ns_config :: "path option"
  ns_destinations :: "string list option"
  ns_destination :: "string option"
  ns_dry_run :: bool

definition no_args :: namespace where
  "no_args = \<lparr>ns_config = None, ns_destinations = None, ns_destination = None, ns_dry_run = False\<rparr>"

fun take_actions :: "string option \<Rightarrow> (arg_action \<times> string) list \<Rightarrow> namespace \<Rightarrow> parser_exit + namespace" where
  "take_actions prog [] ns = Inr ns"
| "take_actions prog ((act, v) # acts) ns =
     (case act of
        Show_Help \<Rightarrow> Inl (Help_Shown prog)
      | Show_Version \<Rightarrow> Inl Version_Shown
      | Store_Config \<Rightarrow> take_actions prog acts (ns\<lparr>ns_config := Some (path_of v)\<rparr>)
      | Append_Destination \<Rightarrow> take_actions prog acts
          (ns\<lparr>ns_destinations := Some ((case ns_destinations ns of None \<Rightarrow> [] | Some ds \<Rightarrow> ds) @ [v])\<rparr>)
      | Store_Dry_Run \<Rightarrow> take_actions prog acts (ns\<lparr>ns_dry_run := True\<rparr>)
      | Store_Destination \<Rightarrow> take_actions prog acts (ns\<lparr>ns_destination := Some v\<rparr>))"

subsection \<open>Parsing\<close>

text \<open>A parser without positional arguments: the namespace and the arguments nothing took.\<close>

function parse_known ::
  "string option \<Rightarrow> arg_parser \<Rightarrow> string list \<Rightarrow> namespace \<Rightarrow> string list \<Rightarrow> parser_exit + namespace \<times> string list" where
  "parse_known prog p [] ns extras = Inr (ns, extras)"
| "parse_known prog p (a # rest) ns extras =
     (if a = ''--'' then Inr (ns, extras @ a # rest)
      else case parse_optional p a of
        Option act s v \<Rightarrow>
          (case consume_optional p act s v rest [] of
             Inl e \<Rightarrow> Inl (Usage_Failed e)
           | Inr (acts, left, rest') \<Rightarrow>
               (case take_actions prog acts ns of
                  Inl stop \<Rightarrow> Inl stop
                | Inr ns' \<Rightarrow> parse_known prog p rest' ns' (extras @ left)))
      | _ \<Rightarrow> parse_known prog p rest ns (extras @ [a]))"
  by pat_completeness auto
termination
  by (relation "measure (\<lambda>(_, _, args, _, _). length args)") (auto dest: consume_shrinks)

definition the_command :: "string \<Rightarrow> namespace \<Rightarrow> command" where
  "the_command name ns =
     (if name = ''run'' then Run
      else if name = ''purge'' then Purge (ns_destinations ns) (ns_dry_run ns)
      else if name = ''list'' then List (ns_destination ns)
      else Check)"

text \<open>The action of the subparsers: everything from the command on is theirs.\<close>

definition parse_command :: "string list \<Rightarrow> string \<Rightarrow> string list \<Rightarrow> parser_exit + command \<times> path option" where
  "parse_command extras name args =
     (case map_of sub_parsers name of
        None \<Rightarrow> Inl (Usage_Failed (Invalid_Command name))
      | Some p \<Rightarrow>
        (case find_ambiguous p args of
           Some a \<Rightarrow> Inl (Usage_Failed (Ambiguous_Option a))
         | None \<Rightarrow>
           (case parse_known (Some name) p args no_args [] of
              Inl stop \<Rightarrow> Inl stop
            | Inr (ns, extras') \<Rightarrow>
                if extras @ extras' \<noteq> [] then Inl (Usage_Failed (Unrecognized_Arguments (extras @ extras')))
                else Inr (the_command name ns, ns_config ns))))"

text \<open>The top parser: its options all end the process, and the first argument is the command.\<close>

function parse_top :: "string list \<Rightarrow> string list \<Rightarrow> parser_exit + command \<times> path option" where
  "parse_top extras [] = Inl (Usage_Failed Missing_Command)"
| "parse_top extras (a # rest) =
     (if a = ''--'' then Inl (Usage_Failed (if rest = [] then Missing_Command else Invalid_Command a))
      else case parse_optional top_parser a of
        Plain_Arg \<Rightarrow> parse_command extras a rest
      | Option act s v \<Rightarrow>
          (case consume_optional top_parser act s v rest [] of
             Inl e \<Rightarrow> Inl (Usage_Failed e)
           | Inr (acts, left, rest') \<Rightarrow>
               (case take_actions None acts no_args of
                  Inl stop \<Rightarrow> Inl stop
                | Inr _ \<Rightarrow> parse_top (extras @ left) rest'))
      | _ \<Rightarrow> parse_top (extras @ [a]) rest)"
  by pat_completeness auto
termination
  by (relation "measure (\<lambda>(_, args). length args)") (auto dest: consume_shrinks)

definition parse_args :: "string list \<Rightarrow> parser_exit + command \<times> path option" where
  "parse_args argv =
     (case find_ambiguous top_parser argv of
        Some a \<Rightarrow> Inl (Usage_Failed (Ambiguous_Option a))
      | None \<Rightarrow> parse_top [] argv)"

text \<open>
  The process: its status is the one \<open>argparse\<close> exits with, or what \<open>main\<close> returns. \<open>help\<close> and
  \<open>usage\<close> are the texts that \<open>argparse\<close> makes up from the declarations.
\<close>

definition main_argv ::
  "'e exec \<Rightarrow> string \<Rightarrow> (string \<Rightarrow> string option) \<Rightarrow> (string \<Rightarrow> string + pydict) \<Rightarrow> (string option \<Rightarrow> string)
     \<Rightarrow> (usage_error \<Rightarrow> string) \<Rightarrow> string list \<Rightarrow> ('e, int) io" where
  "main_argv exec hostname decode toml help usage argv =
     (case parse_args argv of
        Inl (Help_Shown prog) \<Rightarrow> sq (print_out (help prog)) (ret 0)
      | Inl Version_Shown \<Rightarrow> sq (print_out (''mbkeeper '' @ package_version)) (ret 0)
      | Inl (Usage_Failed e) \<Rightarrow> sq (print_err (usage e)) (ret 2)
      | Inr (cmd, config_path) \<Rightarrow> main exec hostname decode toml cmd config_path)"

text \<open>What the parser makes of some lines: prefixes, glued values, and the errors.\<close>

lemma parse_args_examples:
  "parse_args [''purge'', ''--dest'', ''a'', ''-c/x'', ''--dest=b'', ''--dry''] = Inr (Purge (Some [''a'', ''b'']) True, Some (path_of ''/x''))"
  "parse_args [''purge'', ''--d'', ''a''] = Inl (Usage_Failed (Ambiguous_Option ''--d''))"
  "parse_args [''list'', ''-c'', ''-5'', ''--destination='', ''-c'', ''b''] = Inr (List (Some []), Some (path_of ''b''))"
  "parse_args [] = Inl (Usage_Failed Missing_Command)"
  "parse_args [''-c'', ''x'', ''run''] = Inl (Usage_Failed (Invalid_Command ''x''))"
  "parse_args [''run'', ''--dry-run'', ''y''] = Inl (Usage_Failed (Unrecognized_Arguments [''--dry-run'', ''y'']))"
  "parse_args [''run'', ''-hc'', ''x''] = Inl (Help_Shown (Some ''run''))"
  "parse_args [''run'', ''-hc''] = Inl (Usage_Failed (Expected_One_Argument ''-c''))"
  "parse_args [''--vers'', ''what''] = Inl Version_Shown"
  "parse_args [''check'', ''--'', ''x''] = Inl (Usage_Failed (Unrecognized_Arguments [''--'', ''x'']))"
  by code_simp+

end
