(* ===== verification/Cli_Args_Correct.thy ===== *)
theory Cli_Args_Correct
  imports Cli_Args
begin

text \<open>
  What the argument parser guarantees: \<open>--dry-run\<close> is never lost, and every command has a
  command line that is read back as it.
\<close>

subsection \<open>A dry run stays one\<close>

definition purge_parser :: arg_parser where
  "purge_parser = the (map_of sub_parsers ''purge'')"

lemma purge_parser_eq: "purge_parser = add_config_arg new_parser @ [(''--destination'', Append_Destination), (''--dry-run'', Store_Dry_Run)]"
  by (simp add: purge_parser_def sub_parsers_def)

lemma dry_run_option:
  "parse_optional purge_parser ''--dry-run'' = Option Store_Dry_Run ''--dry-run'' None"
  "parse_optional top_parser ''--dry-run'' = Unknown_Option"
  by code_simp+

lemma take_actions_dry_run:
  "take_actions prog acts ns = Inr ns' \<Longrightarrow> ns_dry_run ns \<or> Store_Dry_Run \<in> fst ` set acts \<Longrightarrow> ns_dry_run ns'"
  by (induction prog acts ns rule: take_actions.induct) (auto split: arg_action.splits)

text \<open>What an option consumes beyond its own argument is never an option.\<close>

lemma consume_keeps_options:
  "consume_optional p act s v rest acts = Inr (acts', left, rest') \<Longrightarrow> a \<in> set rest \<Longrightarrow>
     parse_optional p a \<noteq> Plain_Arg \<Longrightarrow> a \<in> set rest'"
proof (induction p act s v rest acts rule: consume_optional.induct)
  case (1 p act s rest acts)
  then show ?case by (cases rest) (auto simp: next_is_value_def split: if_splits)
next
  case (2 p act s sep v rest acts)
  then show ?case by (auto split: if_splits option.splits)
qed

lemma parse_known_extras: "parse_known prog p args ns extras = Inr (ns', []) \<Longrightarrow> extras = []"
  by (induction prog p args ns extras rule: parse_known.induct)
     (auto split: if_splits arg_kind.splits sum.splits prod.splits)

lemma parse_known_dry_run:
  "parse_known prog p args ns extras = Inr (ns', []) \<Longrightarrow> p = purge_parser \<Longrightarrow>
     ns_dry_run ns \<or> ''--dry-run'' \<in> set args \<Longrightarrow> ns_dry_run ns'"
proof (induction prog p args ns extras rule: parse_known.induct)
  case (1 prog p ns extras)
  then show ?case by simp
next
  case (2 prog p a rest ns extras)
  note p = 2(6) and dry = dry_run_option(1)
  show ?case
  proof (cases "parse_optional p a")
    case (Option act s v)
    from 2(5) Option obtain acts left rest' ns1 where
      c: "consume_optional p act s v rest [] = Inr (acts, left, rest')" and t: "take_actions prog acts ns = Inr ns1"
      and k: "parse_known prog p rest' ns1 (extras @ left) = Inr (ns', [])" and a: "a \<noteq> ''--''"
      by (auto split: if_splits sum.splits prod.splits)
    have "ns_dry_run ns1 \<or> ''--dry-run'' \<in> set rest'"
    proof (cases "a = ''--dry-run''")
      case True
      then have "Store_Dry_Run \<in> fst ` set acts" using Option dry c p by auto
      then show ?thesis using take_actions_dry_run [OF t] by blast
    next
      case False
      then show ?thesis
        using 2(7) consume_keeps_options [OF c, of "''--dry-run''"] take_actions_dry_run [OF t] dry p by auto
    qed
    then show ?thesis using 2(2) [OF a Option c refl refl t k p] by blast
  next
    case Plain_Arg
    with 2(5-7) parse_known_extras [of prog p rest ns "extras @ [a]" ns'] dry show ?thesis by (auto split: if_splits)
  next
    case Unknown_Option
    with 2(5-7) parse_known_extras [of prog p rest ns "extras @ [a]" ns'] dry show ?thesis by (auto split: if_splits)
  next
    case Ambiguous
    with 2(5-7) parse_known_extras [of prog p rest ns "extras @ [a]" ns'] dry show ?thesis by (auto split: if_splits)
  qed
qed

lemma parse_command_dry_run:
  assumes "parse_command extras name args = Inr (Purge ds dry, cfg)"
  shows "extras = []" "''--dry-run'' \<in> set args \<Longrightarrow> dry"
proof -
  from assms obtain p ns where p: "map_of sub_parsers name = Some p" "extras = []"
    "parse_known (Some name) p args no_args [] = Inr (ns, [])" "the_command name ns = Purge ds dry"
    by (auto simp: parse_command_def split: option.splits sum.splits prod.splits if_splits)
  then have "name = ''purge''" "dry = ns_dry_run ns" by (auto simp: the_command_def split: if_splits)
  moreover from this p(1) have "p = purge_parser" by (simp add: purge_parser_def)
  ultimately show "extras = []" "''--dry-run'' \<in> set args \<Longrightarrow> dry"
    using p parse_known_dry_run [of "Some name" p args no_args "[]" ns] by auto
qed

lemma parse_top_extras: "parse_top extras args = Inr r \<Longrightarrow> extras = []"
  by (induction extras args rule: parse_top.induct)
     (auto simp: parse_command_def split: if_splits arg_kind.splits sum.splits prod.splits option.splits)

lemma parse_top_dry_run:
  "parse_top extras args = Inr (Purge ds dry, cfg) \<Longrightarrow> ''--dry-run'' \<in> set args \<Longrightarrow> extras = [] \<and> dry"
proof (induction extras args rule: parse_top.induct)
  case (2 extras a rest)
  show ?case
  proof (cases "parse_optional top_parser a")
    case Plain_Arg
    with 2(4,5) dry_run_option(2) have "parse_command extras a rest = Inr (Purge ds dry, cfg)" "''--dry-run'' \<in> set rest"
      by (auto split: if_splits)
    from parse_command_dry_run [OF this(1)] this(2) show ?thesis by simp
  next
    case (Option act s v)
    with 2(4) obtain acts left rest' ns1 where
      c: "consume_optional top_parser act s v rest [] = Inr (acts, left, rest')" "take_actions None acts no_args = Inr ns1"
      and k: "parse_top (extras @ left) rest' = Inr (Purge ds dry, cfg)" and a: "a \<noteq> ''--''"
      by (auto split: if_splits sum.splits prod.splits)
    have "''--dry-run'' \<in> set rest'"
      using 2(5) Option dry_run_option(2) consume_keeps_options [OF c(1), of "''--dry-run''"] by auto
    with 2(1) [OF a Option c(1) refl refl c(2) k] show ?thesis by simp
  next
    case Unknown_Option
    with 2(4) parse_top_extras [of "extras @ [a]" rest] show ?thesis by (auto split: if_splits)
  next
    case Ambiguous
    with 2(4) parse_top_extras [of "extras @ [a]" rest] show ?thesis by (auto split: if_splits)
  qed
qed simp

text \<open>
  C24. Whoever writes \<open>--dry-run\<close> gets a dry run: wherever the option stands on a command
  line that is accepted as a purge, nothing will be deleted.
\<close>

theorem parse_args_dry_run:
  assumes "parse_args argv = Inr (Purge destinations dry_run, config_path)" "''--dry-run'' \<in> set argv"
  shows "dry_run"
  using assms parse_top_dry_run [of "[]" argv] by (auto simp: parse_args_def split: option.splits)

theorem parse_args_dry_run_witness:
  "\<exists>dry_run. parse_args [''purge'', ''--destination'', ''a'', ''--dry-run'', ''-c'', ''x'']
     = Inr (Purge (Some [''a'']) dry_run, Some (path_of ''x'')) \<and> dry_run"
proof -
  have *: "parse_args [''purge'', ''--destination'', ''a'', ''--dry-run'', ''-c'', ''x''] = Inr (Purge (Some [''a'']) True, Some (path_of ''x''))"
    by code_simp
  have "''--dry-run'' \<in> set [''purge'', ''--destination'', ''a'', ''--dry-run'', ''-c'', ''x'']" by simp
  from parse_args_dry_run [OF * this] * show ?thesis by blast
qed

subsection \<open>Every command has its command line\<close>

text \<open>An option and its value, joined by \<open>=\<close> or as two arguments.\<close>

definition value_args :: "bool \<Rightarrow> string \<Rightarrow> string \<Rightarrow> string list" where
  "value_args joined name v = (if joined then [name @ ''='' @ v] else [name, v])"

definition config_args :: "bool \<Rightarrow> string option \<Rightarrow> string list" where
  "config_args joined config = (case config of None \<Rightarrow> [] | Some v \<Rightarrow> value_args joined ''--config'' v)"

definition destination_args :: "bool \<Rightarrow> string list \<Rightarrow> string list" where
  "destination_args joined ds = concat (map (value_args joined ''--destination'') ds)"

fun command_line :: "bool \<Rightarrow> command \<Rightarrow> string option \<Rightarrow> string list" where
  "command_line joined Run config = ''run'' # config_args joined config"
| "command_line joined (Purge ds dry_run) config = ''purge'' # config_args joined config
     @ (case ds of None \<Rightarrow> [] | Some ds \<Rightarrow> destination_args joined ds) @ (if dry_run then [''--dry-run''] else [])"
| "command_line joined (List d) config = ''list'' # config_args joined config
     @ (case d of None \<Rightarrow> [] | Some d \<Rightarrow> destination_args joined [d])"
| "command_line joined Check config = ''check'' # config_args joined config"

fun values_of :: "command \<Rightarrow> string set" where
  "values_of (Purge (Some ds) _) = set ds"
| "values_of (List (Some d)) = {d}"
| "values_of _ = {}"

text \<open>An option of a parser as it stands, and with its value after \<open>=\<close>.\<close>

definition long_option :: "arg_parser \<Rightarrow> string \<Rightarrow> arg_action \<Rightarrow> bool" where
  "long_option p name act \<longleftrightarrow> map_of p name = Some act \<and> takes_value act \<and> take 2 name = ''--'' \<and> name \<noteq> ''--'' \<and>
     CHR ''='' \<notin> set name \<and> (\<forall>s \<in> fst ` set p. CHR ''='' \<notin> set s)"

lemma split_eq_joined: "CHR ''='' \<notin> set name \<Longrightarrow> split_eq (name @ CHR ''='' # v) = (name, Some v)"
  by (simp add: split_eq_def takeWhile_append dropWhile_append)

lemma parse_optional_joined:
  assumes "long_option p name act"
  shows "parse_optional p (name @ CHR ''='' # v) = Option act name (Some (True, v))"
proof -
  let ?a = "name @ CHR ''='' # v"
  have "map_of p ?a = None"
    using assms by (fastforce simp: long_option_def map_of_eq_None_iff)
  moreover have "?a \<noteq> []" "hd ?a = dash" "length ?a \<noteq> 1"
    using assms by (cases name; auto simp: long_option_def dash_def)+
  moreover have "split_eq ?a = (name, Some v)" "map_of p name = Some act"
    using assms by (simp_all add: split_eq_joined long_option_def)
  ultimately show ?thesis unfolding parse_optional_def by (simp only: if_False prod.case option.case option.map simp_thms)
qed

lemma parse_optional_name: "long_option p name act \<Longrightarrow> parse_optional p name = Option act name None"
  by (cases name) (auto simp: parse_optional_def long_option_def dash_def)

lemma parse_optional_plain: "v = [] \<or> hd v \<noteq> dash \<Longrightarrow> parse_optional p v = Plain_Arg"
  by (auto simp: parse_optional_def)

lemma parse_known_value:
  assumes "long_option p name act" "joined \<or> v = [] \<or> hd v \<noteq> dash"
  shows "parse_known prog p (value_args joined name v @ rest) ns extras =
    (case take_actions prog [(act, v)] ns of Inl stop \<Rightarrow> Inl stop | Inr ns' \<Rightarrow> parse_known prog p rest ns' extras)"
proof (cases joined)
  case True
  have "CHR ''='' \<in> set (name @ CHR ''='' # v)" by simp
  then have "name @ CHR ''='' # v \<noteq> ''--''" by fastforce
  moreover have "takes_value act" using assms(1) by (simp add: long_option_def)
  ultimately show ?thesis
    using True by (simp add: value_args_def parse_optional_joined [OF assms(1)] split: sum.split)
next
  case False
  then have "parse_optional p v = Plain_Arg" "v \<noteq> ''--''" using assms(2) by (auto simp: parse_optional_def dash_def)
  moreover have "takes_value act" "name \<noteq> ''--''" using assms(1) by (simp_all add: long_option_def)
  ultimately show ?thesis
    using False by (simp add: value_args_def parse_optional_name [OF assms(1)] next_is_value_def split: sum.split)
qed

lemma parse_known_destinations:
  assumes "long_option p ''--destination'' Append_Destination" "\<forall>v \<in> set ds. joined \<or> v = [] \<or> hd v \<noteq> dash"
  shows "ds \<noteq> [] \<Longrightarrow> parse_known prog p (destination_args joined ds @ rest) ns extras =
    parse_known prog p rest (ns\<lparr>ns_destinations := Some ((case ns_destinations ns of None \<Rightarrow> [] | Some ds' \<Rightarrow> ds') @ ds)\<rparr>) extras"
  using assms(2)
proof (induction ds arbitrary: ns)
  case (Cons d ds)
  have d: "joined \<or> d = [] \<or> hd d \<noteq> dash" using Cons.prems by auto
  have "parse_known prog p (value_args joined ''--destination'' d @ destination_args joined ds @ rest) ns extras =
      parse_known prog p (destination_args joined ds @ rest)
        (ns\<lparr>ns_destinations := Some ((case ns_destinations ns of None \<Rightarrow> [] | Some ds' \<Rightarrow> ds') @ [d])\<rparr>) extras"
    by (simp add: parse_known_value [OF assms(1) d])
  then show ?case
    using Cons by (cases "ds = []") (simp_all add: destination_args_def)
qed simp

lemma sub_parser_options:
  assumes "map_of sub_parsers name = Some p"
  shows "long_option p ''--config'' Store_Config" "parse_optional p ''--dry-run'' \<noteq> Ambiguous"
    "name = ''purge'' \<Longrightarrow> long_option p ''--destination'' Append_Destination"
    "name = ''list'' \<Longrightarrow> long_option p ''--destination'' Store_Destination"
proof -
  have "\<forall>(name, p) \<in> set sub_parsers. long_option p ''--config'' Store_Config \<and> parse_optional p ''--dry-run'' \<noteq> Ambiguous \<and>
      (name = ''purge'' \<longrightarrow> long_option p ''--destination'' Append_Destination) \<and>
      (name = ''list'' \<longrightarrow> long_option p ''--destination'' Store_Destination)"
    by code_simp
  with map_of_SomeD [OF assms]
  show "long_option p ''--config'' Store_Config" "parse_optional p ''--dry-run'' \<noteq> Ambiguous"
    "name = ''purge'' \<Longrightarrow> long_option p ''--destination'' Append_Destination"
    "name = ''list'' \<Longrightarrow> long_option p ''--destination'' Store_Destination"
    by blast+
qed

text \<open>The top parser knows none of them, and takes none for a prefix of its own.\<close>

lemma top_unambiguous:
  assumes "name \<in> {''--config'', ''--destination''}"
  shows "parse_optional top_parser (name @ CHR ''='' # v) \<noteq> Ambiguous" "parse_optional top_parser name \<noteq> Ambiguous"
proof -
  let ?a = "name @ CHR ''='' # v"
  have sp: "split_eq ?a = (name, Some v)" using assms by (intro split_eq_joined) auto
  have "\<forall>s \<in> fst ` set top_parser. CHR ''='' \<notin> set s" by code_simp
  then have "map_of top_parser ?a = None" by (fastforce simp: map_of_eq_None_iff)
  moreover have "filter (\<lambda>(s, _). starts_with ''--config'' s) top_parser = []"
    "filter (\<lambda>(s, _). starts_with ''--destination'' s) top_parser = []"
    "map_of top_parser ''--config'' = None" "map_of top_parser ''--destination'' = None"
    by code_simp+
  then have "option_tuples top_parser ?a = []" "map_of top_parser name = None"
    using assms by (auto simp: option_tuples_def sp dash_def)
  moreover have "?a \<noteq> []" "hd ?a = dash" "length ?a \<noteq> 1" using assms by (auto simp: dash_def)
  ultimately have "parse_optional top_parser ?a =
      (if negative_number ?a \<or> CHR '' '' \<in> set ?a then Plain_Arg else Unknown_Option)"
    unfolding parse_optional_def sp by (simp only: if_False prod.case option.case option.map list.case simp_thms)
  then show "parse_optional top_parser ?a \<noteq> Ambiguous" by simp
  have "parse_optional top_parser ''--config'' \<noteq> Ambiguous" "parse_optional top_parser ''--destination'' \<noteq> Ambiguous"
    by code_simp+
  with assms show "parse_optional top_parser name \<noteq> Ambiguous" by blast
qed

lemma value_unambiguous:
  assumes "a \<in> set (value_args joined name v)" "joined \<or> v = [] \<or> hd v \<noteq> dash"
  shows "long_option p name act \<Longrightarrow> parse_optional p a \<noteq> Ambiguous"
    "name \<in> {''--config'', ''--destination''} \<Longrightarrow> parse_optional top_parser a \<noteq> Ambiguous"
proof -
  consider "a = name @ CHR ''='' # v" | "a = name" | "\<And>q. parse_optional q a = Plain_Arg"
    using assms by (auto simp: value_args_def parse_optional_plain split: if_splits)
  then show "long_option p name act \<Longrightarrow> parse_optional p a \<noteq> Ambiguous"
    "name \<in> {''--config'', ''--destination''} \<Longrightarrow> parse_optional top_parser a \<noteq> Ambiguous"
    using parse_optional_joined [of p name act v] parse_optional_name [of p name act] top_unambiguous(1) [of name v]
      top_unambiguous(2) [of name]
    by (cases; simp)+
qed

lemma find_ambiguous_None: "\<forall>a \<in> set args. parse_optional p a \<noteq> Ambiguous \<Longrightarrow> find_ambiguous p args = None"
  by (auto simp: find_ambiguous_def find_None_iff dest: set_takeWhileD)

definition spellable :: "bool \<Rightarrow> command \<Rightarrow> string option \<Rightarrow> bool" where
  "spellable joined c config \<longleftrightarrow> joined \<or> (\<forall>v \<in> values_of c \<union> set_option config. v = [] \<or> hd v \<noteq> dash)"

definition command_name :: "command \<Rightarrow> string" where
  "command_name c = (case c of Run \<Rightarrow> ''run'' | Purge _ _ \<Rightarrow> ''purge'' | List _ \<Rightarrow> ''list'' | Check \<Rightarrow> ''check'')"

lemma command_line_parts:
  assumes "a \<in> set (tl (command_line joined c config))" "spellable joined c config"
  shows "a = ''--dry-run'' \<or> (\<exists>name v. a \<in> set (value_args joined name v) \<and> (joined \<or> v = [] \<or> hd v \<noteq> dash) \<and>
     (name = ''--config'' \<or> name = ''--destination'' \<and> command_name c \<in> {''purge'', ''list''}))"
  using assms
  by (cases c) (auto simp: spellable_def config_args_def destination_args_def command_name_def split: option.splits if_splits; blast)+

lemma command_line_unambiguous:
  assumes "spellable joined c config" "map_of sub_parsers (command_name c) = Some p"
  shows "find_ambiguous top_parser (command_line joined c config) = None"
    "find_ambiguous p (tl (command_line joined c config)) = None"
proof -
  have nm: "command_line joined c config = command_name c # tl (command_line joined c config)"
    by (cases c) (simp_all add: command_name_def)
  have "parse_optional top_parser a \<noteq> Ambiguous \<and> parse_optional p a \<noteq> Ambiguous"
    if a: "a \<in> set (tl (command_line joined c config))" for a
  proof (cases "a = ''--dry-run''")
    case True
    with sub_parser_options(2) [OF assms(2)] dry_run_option(2) show ?thesis by simp
  next
    case False
    with command_line_parts [OF a assms(1)] obtain name v
      where v: "a \<in> set (value_args joined name v)" "joined \<or> v = [] \<or> hd v \<noteq> dash"
        and n: "name = ''--config'' \<or> name = ''--destination'' \<and> command_name c \<in> {''purge'', ''list''}" by blast
    from n have "\<exists>act. long_option p name act" using sub_parser_options [OF assms(2)] by blast
    with n value_unambiguous [OF v] show ?thesis by blast
  qed
  moreover have "parse_optional top_parser (command_name c) \<noteq> Ambiguous"
    by (cases c) (simp_all add: command_name_def parse_optional_def dash_def)
  ultimately have "\<forall>a \<in> set (command_line joined c config). parse_optional top_parser a \<noteq> Ambiguous"
    "\<forall>a \<in> set (tl (command_line joined c config)). parse_optional p a \<noteq> Ambiguous"
    by (metis nm set_ConsD)+
  then show "find_ambiguous top_parser (command_line joined c config) = None"
    "find_ambiguous p (tl (command_line joined c config)) = None"
    by (simp_all only: find_ambiguous_None)
qed

lemma parse_known_config:
  assumes "map_of sub_parsers name = Some p" "\<forall>v \<in> set_option config. joined \<or> v = [] \<or> hd v \<noteq> dash"
  shows "parse_known prog p (config_args joined config @ rest) no_args extras =
    parse_known prog p rest (no_args\<lparr>ns_config := map_option path_of config\<rparr>) extras"
  using assms parse_known_value [OF sub_parser_options(1) [OF assms(1)]]
  by (cases config) (simp_all add: config_args_def no_args_def)

lemma parse_known_command_line:
  assumes p: "map_of sub_parsers (command_name c) = Some p" and cfg: "\<forall>v \<in> set_option config. joined \<or> v = [] \<or> hd v \<noteq> dash"
    and vs: "\<forall>v \<in> values_of c. joined \<or> v = [] \<or> hd v \<noteq> dash" and some: "\<forall>dry_run. c \<noteq> Purge (Some []) dry_run"
  shows "\<exists>ns. parse_known (Some (command_name c)) p (tl (command_line joined c config)) no_args [] = Inr (ns, []) \<and>
      the_command (command_name c) ns = c \<and> ns_config ns = map_option path_of config"
proof -
  note parts = parse_known_config [OF p cfg, of "Some (command_name c)" _ "[]"]
  show ?thesis
  proof (cases c)
    case Run
    then show ?thesis using parts [of "[]"] by (simp add: the_command_def command_name_def)
  next
    case Check
    then show ?thesis using parts [of "[]"] by (simp add: the_command_def command_name_def)
  next
    case (List d)
    then have l: "long_option p ''--destination'' Store_Destination"
      using sub_parser_options(4) [OF p] by (simp add: command_name_def)
    show ?thesis
    proof (cases d)
      case None
      with List show ?thesis using parts [of "[]"] by (simp add: the_command_def command_name_def no_args_def)
    next
      case (Some v)
      with List vs have "joined \<or> v = [] \<or> hd v \<noteq> dash" by simp
      from parse_known_value [OF l this, of _ "[]"] List Some parts show ?thesis
        by (simp add: the_command_def command_name_def destination_args_def)
    qed
  next
    case (Purge ds dry_run)
    then have l: "long_option p ''--destination'' Append_Destination"
      using sub_parser_options(3) [OF p] by (simp add: command_name_def)
    have dry: "parse_known prog p (if dry_run then [''--dry-run''] else []) ns [] =
        Inr (if dry_run then ns\<lparr>ns_dry_run := True\<rparr> else ns, [])" for prog ns
    proof -
      have "p = purge_parser" using p Purge by (simp add: purge_parser_def command_name_def)
      with dry_run_option(1) show ?thesis by simp
    qed
    show ?thesis
    proof (cases ds)
      case None
      with Purge show ?thesis using parts dry by (simp add: the_command_def command_name_def no_args_def)
    next
      case (Some vs')
      with Purge some vs have "vs' \<noteq> []" "\<forall>v \<in> set vs'. joined \<or> v = [] \<or> hd v \<noteq> dash" by auto
      from parse_known_destinations [OF l this(2,1)] Purge Some parts dry show ?thesis
        by (simp add: the_command_def command_name_def no_args_def)
    qed
  qed
qed

text \<open>
  C25. Every command can be given: with each option and its value joined by \<open>=\<close>, whatever the
  value, and as two arguments when no value begins with a dash, the command line is read
  back as the command and the configuration file it was made from.
\<close>

theorem parse_args_command_line:
  assumes "spellable joined c config" "\<forall>dry_run. c \<noteq> Purge (Some []) dry_run"
  shows "parse_args (command_line joined c config) = Inr (c, map_option path_of config)"
proof -
  have "\<exists>p. map_of sub_parsers (command_name c) = Some p"
    by (cases c) (simp_all add: command_name_def sub_parsers_def)
  then obtain p where p: "map_of sub_parsers (command_name c) = Some p" ..
  let ?args = "tl (command_line joined c config)"
  have "\<forall>v \<in> set_option config. joined \<or> v = [] \<or> hd v \<noteq> dash" "\<forall>v \<in> values_of c. joined \<or> v = [] \<or> hd v \<noteq> dash"
    using assms(1) by (auto simp: spellable_def)
  from parse_known_command_line [OF p this assms(2)]
  have "parse_command [] (command_name c) ?args = Inr (c, map_option path_of config)"
    using command_line_unambiguous(2) [OF assms(1) p] p by (auto simp: parse_command_def)
  moreover have "command_line joined c config = command_name c # ?args" "command_name c \<noteq> ''--''"
    "parse_optional top_parser (command_name c) = Plain_Arg"
    by (cases c; simp add: command_name_def parse_optional_def dash_def)+
  ultimately show ?thesis
    using command_line_unambiguous(1) [OF assms(1) p] by (metis (no_types, lifting) arg_kind.case(1) option.case(1)
        parse_args_def parse_top.simps(2))
qed

theorem parse_args_command_line_witness:
  "parse_args [''purge'', ''--config'', ''x'', ''--destination'', ''a'', ''--destination'', ''b'', ''--dry-run''] =
     Inr (Purge (Some [''a'', ''b'']) True, Some (path_of ''x''))"
proof -
  have "spellable False (Purge (Some [''a'', ''b'']) True) (Some ''x'')" by (simp add: spellable_def dash_def)
  from parse_args_command_line [OF this] show ?thesis
    by (simp add: config_args_def destination_args_def value_args_def)
qed

end
