(* ===== verification/Spec2Isabelle.thy ===== *)
theory Spec2Isabelle
  imports Keeper_Prelude Py_Values Keeper_Errors Py_Datetime Py_Path Retention Config Config_Parse
    Config_Correct Config_Accept Config_Roundtrip File_Tree Io_Monad Filesystem Filesystem_Laws
    Json Manifest Copy_Laws Local_Destination Local_Correct Local_Listing Process Ssh_Destination
    Backup_Runner Replication Hooks Locking Destinations Orchestrator Logging_Setup Cli
    Destination_Contract Purge_Safety Run_Correct Run_Durable
    Local_Refines Calm_Runs Local_Live Run_Live Run_Succeeds Run_Whole Run_Hazard Ssh_Correct Steps_Correct Lock_Correct Cli_Correct
    Json_Read Json_Prefix Manifest_Read Log_Lines Cli_Args Cli_Args_Correct
begin

text \<open>
  mariabackup-keeper (\<open>src/mariabackup_keeper\<close>) makes physical backups of a MariaDB server:
  one command, \<open>run\<close>, checks the preconditions, lets mariabackup write a generation into a
  work directory, adds a manifest, stores the generation at every configured destination,
  removes the work copy and purges old generations; \<open>purge\<close>, \<open>list\<close> and \<open>check\<close> do their part
  alone. This development models the whole program and proves what its users rely on: no finished backup is lost and no kept generation is deleted,
  whatever call fails and wherever the process dies.

  \<^bold>\<open>The world.\<close> Every effectful function is a HOL function of a world (\<open>Io_Monad\<close>): the file
  tree with its modification times, the clock, the log, the two output streams, the table
  of lock files held, this process's number, and a state \<open>'e\<close> outside the host that only
  external programs touch. It returns an exception (\<open>Keeper_Errors.exn\<close>: the five of
  \<open>errors.py\<close> and those of Python's library that can occur) or a value, and the world after
  it. \<open>bnd\<close> and \<open>sq\<close> are sequencing, \<open>except\<close>, \<open>except_else\<close> and \<open>finally_do\<close> the forms of
  \<open>try\<close>. Before each system call the world's \<open>w_fault\<close> is consulted at the call's number: the
  call may fail with an \<open>OSError\<close>, or the process may be killed there, after part of a write
  has reached the file. A theorem without a hypothesis on \<open>w_fault\<close> therefore holds under
  every schedule of failures and every point of interruption; \<open>calm\<close> says that nothing fails.

  \<^bold>\<open>Parameters.\<close> External programs (mariabackup, the database client, ssh, rsync, hooks) are
  one function \<open>exec\<close> from argument vector, standard input, time limit and host state to an
  outcome and a new host state (\<open>Process\<close>); nothing is assumed of it unless a theorem says so.
  \<open>hostname\<close> is the host's name. \<open>decode\<close> (UTF-8) and \<open>toml\<close> (\<open>tomllib.loads\<close>) are the two
  readers \<open>load_config\<close> calls.

  \<^bold>\<open>The model.\<close> Theories and what they translate:
  \<^item> \<open>Keeper_Prelude\<close>: Python's string and list operations (\<open>str\<close> and \<open>int\<close> of integers,
    \<open>split\<close>, \<open>splitlines\<close>, \<open>strip\<close>, \<open>join\<close>, slices, the stable reverse sort); \<open>Py_Values\<close>: the
    values of a TOML document with their truth and text; \<open>Py_Datetime\<close>: naive and UTC
    datetimes, the range checks of their arithmetic, \<open>strftime\<close>; \<open>Py_Path\<close>: pure paths; \<open>Json\<close>:
    \<open>json.dumps\<close>; \<open>Json_Read\<close>: \<open>json.loads\<close>, a lexer and a parser with an explicit stack.
  \<^item> \<open>Keeper_Errors\<close>: \<open>errors.py\<close>, \<open>exit_codes.py\<close>.
  \<^item> \<open>Config\<close>, \<open>Config_Parse\<close>: \<open>config.py\<close>; each \<open>_parse_*\<close> threads the list of problems the
    source collects in \<open>_Errors\<close>; \<open>load_config\<close> is in \<open>Cli\<close>.
  \<^item> \<open>Retention\<close>: \<open>retention.py\<close>. \<open>Manifest\<close>, \<open>Manifest_Read\<close>: \<open>manifest.py\<close>, writing and
    reading.
  \<^item> \<open>File_Tree\<close>, \<open>Filesystem\<close>: the file operations of \<open>pathlib\<close>, \<open>os\<close> and \<open>shutil\<close> as sequences
    of system calls on a tree (\<open>copytree\<close> records errors and goes on, \<open>rmtree\<close> stops, a rename
    is one call).
  \<^item> \<open>Local_Destination\<close>, \<open>Ssh_Destination\<close>: \<open>destinations/local.py\<close>, \<open>destinations/ssh.py\<close>;
    \<open>Destinations\<close>: the registry of \<open>destinations/__init__.py\<close> and the dispatch of
    \<open>destinations/base.py\<close>.
  \<^item> \<open>Backup_Runner\<close>, \<open>Replication\<close>, \<open>Hooks\<close>, \<open>Locking\<close>: \<open>backup.py\<close>, \<open>replication.py\<close>, \<open>hooks.py\<close>
    (with \<open>shlex.split\<close> as an automaton), \<open>locking.py\<close> (the \<open>with\<close> block as a combinator).
  \<^item> \<open>Orchestrator\<close>: \<open>orchestrator.py\<close>; \<open>run\<close> is \<open>run_pipeline\<close>, split where the source has its
    stages: \<open>run_locked\<close>, \<open>make_backup\<close>, \<open>write_manifest\<close>, \<open>distribute\<close>, \<open>purge_and_finish\<close>.
  \<^item> \<open>Logging_Setup\<close>: \<open>logging_setup.py\<close>. \<open>Cli\<close>: \<open>cli.py\<close> from the parsed command on; \<open>Cli_Args\<close>:
    the options \<open>build_parser\<close> declares, as data, and what Python 3.11's \<open>argparse\<close> makes of an
    argument vector with them; \<open>main_argv\<close> is the process.

  Loops are structural recursions on the list they run over, and the retry loop of rsync one on
  the number of attempts left; every definition is total, and there is no fuel. Integers are
  unbounded as in Python, with the bounds of \<open>datetime\<close> and \<open>timedelta\<close> written out.

  \<^bold>\<open>What is proved.\<close>
  \<^item> Configuration (\<open>Config_Correct\<close>, \<open>Config_Accept\<close>, \<open>Config_Roundtrip\<close>): every problem is
    reported, in order; what is accepted is well-formed; every well-formed configuration
    is accepted and read back unchanged; the one other exception that can leave.
  \<^item> Retention: the plan partitions the listing, keeps exactly the newest complete and the
    protected incomplete generations, and is stable under its own result.
  \<^item> The file system (\<open>Filesystem_Laws\<close>, \<open>Copy_Laws\<close>): a Hoare logic over all failures (\<open>triple\<close>,
    collections \<open>triples\<close> and \<open>frames\<close>): \<open>stable\<close> and \<open>grows\<close> say what an operation below a path can
    change; what a copy, a rename, a removal has achieved when it returns.
  \<^item> The local destination (\<open>Local_Correct\<close>, \<open>Local_Listing\<close>, \<open>Local_Refines\<close>, \<open>Local_Live\<close>): a store
    commits atomically, is idempotent, and succeeds when nothing fails; listing and deletion
    are exact; the whole refines a map from ids to generations, except for a deletion that
    is cut off.
  \<^item> The manifest (\<open>Json_Read\<close>, \<open>Json_Prefix\<close>, \<open>Manifest_Read\<close>): what \<open>json.dumps\<close> prints is read
    back, no proper part of a printed object is JSON, so a torn manifest never reads as
    another one.
  \<^item> The ssh destination (\<open>Ssh_Correct\<close>): the listing protocol reads back what the script
    prints, the retries are bounded, and the commit is the last remote command.
  \<^item> The steps of a run (\<open>Steps_Correct\<close>): reserved arguments, the success of mariabackup,
    the replication requirements, soft hooks, the cleaning of the work directory.
  \<^item> The pipeline (\<open>Purge_Safety\<close>, \<open>Run_Correct\<close>, \<open>Run_Durable\<close>): a purge spares the newest
    generations, exit codes say what happened, and a finished backup is never lost, given
    that its id is the newest; \<open>Run_Hazard\<close> shows what happens when it is not.
  \<^item> Runs without failures (\<open>Calm_Runs\<close>, \<open>Run_Live\<close>, \<open>Run_Succeeds\<close>, \<open>Run_Whole\<close>): a calculus for
    computations that return normally (\<open>fine\<close>), carried from the file operations to the whole
    run: with mariabackup doing its work (\<open>mariabackup_works\<close>) it stores everywhere, purges and
    ends with exit code 0.
  \<^item> The lock and the entry point (\<open>Lock_Correct\<close>, \<open>Cli_Correct\<close>): mutual exclusion over a step
    relation of all processes, a run without the lock does nothing, the lock is given
    back; the exit code of every command and exception.
  \<^item> The two ends (\<open>Cli_Args_Correct\<close>, \<open>Log_Lines\<close>): every command has a command line that is
    read back as it, \<open>--dry-run\<close> is never lost, and a line of the JSON log is one object that
    reads back as the record.

  \<^bold>\<open>Not modelled.\<close> The help, usage and error texts of \<open>argparse\<close>; the TOML grammar and UTF-8
  (parameters); characters beyond the 256 of the model's strings; the wording of operating
  system messages and tracebacks; the limits of Python's JSON reader on nesting and digits;
  symbolic links, permissions and other writers to the same directories during a run. What a
  remote host does with a command is not modelled either: the theorems about ssh are about
  the commands sent and the answers read.
\<close>

end
